(* ===== verification/Prelude.thy ===== *)
theory Prelude imports Main "HOL-Library.Word" begin

text \<open>
  Shared vocabulary of the development. A C++ byte string (\<open>std::string\<close>, and a buffer
  of \<open>char\<close> or \<open>BYTE\<close>) is a HOL \<open>string\<close>, that is a list of 8-bit characters; a wide
  string is a list of 16-bit words, as on Windows. A C++ exception, a Lua error and an error
  return are values of the datatype \<open>error\<close>, carried by the left side of a sum.
\<close>

unbundle bit_operations_syntax

type_synonym u8 = "8 word"
type_synonym u16 = "16 word"
type_synonym u32 = "32 word"
type_synonym wstring = "16 word list"

named_theorems cpp_string \<open>equations of the std::string operations\<close>
named_theorems result_intro \<open>introduction rules for results of the sum type\<close>

section \<open>Errors\<close>

text \<open>
  \<open>Runtime_Error\<close> is \<open>std::runtime_error\<close> with its text, \<open>Invalid_Argument\<close> and
  \<open>Out_Of_Range\<close> are the two exceptions the standard number parsers throw, \<open>Dial_Error\<close>
  is the module's own \<open>DialError\<close> with its code and message, \<open>Lua_Error\<close> a call of
  \<open>luaL_error\<close>, \<open>Thrown_Text\<close> a thrown string literal and \<open>Undefined\<close> marks a branch whose
  behaviour C++ or Lua leaves undefined (a null pointer read as a string, a read out of range).
\<close>

datatype error =
    Runtime_Error string
  | Invalid_Argument
  | Out_Of_Range
  | Dial_Error (dial_code: string) (dial_message: string)
  | Lua_Error string
  | Thrown_Text string
  | Undefined

type_synonym 'a result = "error + 'a"

definition bind_result :: "'a result \<Rightarrow> ('a \<Rightarrow> 'b result) \<Rightarrow> 'b result" where
  "bind_result r f = (case r of Inl e \<Rightarrow> Inl e | Inr x \<Rightarrow> f x)"

lemma bind_result_simps [simp]:
  "bind_result (Inl e) f = Inl e"
  "bind_result (Inr x) f = f x"
  by (simp_all add: bind_result_def)

lemma bind_result_cong [fundef_cong]:
  "r = r' \<Longrightarrow> (\<And>x. r' = Inr x \<Longrightarrow> f x = f' x) \<Longrightarrow> bind_result r f = bind_result r' f'"
  by (cases r') auto

lemma bind_result_Inr [result_intro]:
  "bind_result r f = Inr y \<longleftrightarrow> (\<exists>x. r = Inr x \<and> f x = Inr y)"
  by (cases r) auto

lemma bind_result_Inl:
  "bind_result r f = Inl e \<longleftrightarrow> r = Inl e \<or> (\<exists>x. r = Inr x \<and> f x = Inl e)"
  by (cases r) auto

definition returns :: "'a result \<Rightarrow> bool" where
  "returns r \<longleftrightarrow> (case r of Inl e \<Rightarrow> False | Inr x \<Rightarrow> True)"

lemma returns_simps [simp]:
  "returns (Inr x)"
  "\<not> returns (Inl e)"
  by (simp_all add: returns_def)

lemma returns_bind: "returns (bind_result r f) \<longleftrightarrow> (\<exists>x. r = Inr x \<and> returns (f x))"
  by (cases r) simp_all

lemma returns_iff: "returns r \<longleftrightarrow> (\<exists>x. r = Inr x)"
  by (cases r) simp_all

lemma returnsE [elim?]:
  assumes "returns r" obtains x where "r = Inr x"
  using assms by (auto simp: returns_iff)

section \<open>Characters and bytes\<close>

definition byte :: "char \<Rightarrow> nat" where
  "byte c = of_char c"

definition chr_of :: "nat \<Rightarrow> char" where
  "chr_of n = char_of n"

lemma byte_less [simp]: "byte c < 256"
  unfolding byte_def by (metis of_char_of nat_of_char_less_256 of_nat_of_char id_apply of_nat_eq_id)

lemma byte_le [simp]: "byte c \<le> 255"
  using byte_less [of c] by linarith

lemma chr_of_byte [simp]: "chr_of (byte c) = c"
  by (simp add: byte_def chr_of_def)

lemma byte_chr_of [simp]: "byte (chr_of n) = n mod 256"
  by (simp add: byte_def chr_of_def)

lemma byte_inject [simp]: "byte c = byte d \<longleftrightarrow> c = d"
  by (metis chr_of_byte)

text \<open>A byte string handed on as a \<open>const char*\<close> ends at its first NUL.\<close>

definition c_str :: "string \<Rightarrow> string" where
  "c_str s = takeWhile (\<lambda>c. c \<noteq> CHR 0x00) s"

lemma c_str_id [simp]: "CHR 0x00 \<notin> set s \<Longrightarrow> c_str s = s"
  by (auto simp: c_str_def takeWhile_eq_all_conv)

definition crlf :: string where
  "crlf = [CHR 0x0D, CHR 0x0A]"

definition crlf2 :: string where
  "crlf2 = [CHR 0x0D, CHR 0x0A, CHR 0x0D, CHR 0x0A]"

lemma length_crlf [simp]: "length crlf = 2"
  by (simp add: crlf_def)

lemma length_crlf2 [simp]: "length crlf2 = 4"
  by (simp add: crlf2_def)

section \<open>Lists\<close>

lemma take_append_prefix: "length p \<le> length xs \<Longrightarrow> take (length p) (xs @ ys) = take (length p) xs"
  by simp

lemma drop_eq_append_iff:
  "i \<le> length s \<Longrightarrow> drop i s = p @ r \<longleftrightarrow> s = take i s @ p @ r"
  by (metis append_take_drop_id same_append_eq)

lemma nth_drop_take:
  "i < length s \<Longrightarrow> s = take i s @ s ! i # drop (Suc i) s"
  by (simp add: id_take_nth_drop)

lemma concat_replicate_single [simp]: "concat (replicate n [x]) = replicate n x"
  by (induction n) auto

section \<open>Unsigned sizes\<close>

text \<open>A sum computed in \<open>size_t\<close>, which is 64 bits wide here.\<close>

definition sz :: "nat \<Rightarrow> nat" where
  "sz n = n mod 2 ^ 64"

lemma sz_id [simp]: "n < 2 ^ 64 \<Longrightarrow> sz n = n"
  by (simp add: sz_def)

section \<open>Consumers of a byte stream\<close>

text \<open>
  A component that is fed a stream in pieces (\<open>feed\<close> takes the state and the next piece and
  gives the outputs it produced and the new state, or an error). Its contract is that the
  cut between two pieces does not matter.
\<close>

fun feed_all :: "('s \<Rightarrow> 'i list \<Rightarrow> ('o list \<times> 's) result) \<Rightarrow> 's \<Rightarrow> 'i list list \<Rightarrow> ('o list \<times> 's) result" where
  "feed_all feed s [] = Inr ([], s)"
| "feed_all feed s (x # xs) =
     (case feed s x of
        Inl e \<Rightarrow> Inl e
      | Inr (os, t) \<Rightarrow>
          (case feed_all feed t xs of Inl e \<Rightarrow> Inl e | Inr (os', u) \<Rightarrow> Inr (os @ os', u)))"

locale stream_consumer =
  fixes feed :: "'s \<Rightarrow> 'i list \<Rightarrow> ('o list \<times> 's) result"
    and wf :: "'s \<Rightarrow> bool"
  assumes feed_split:
      "wf s \<Longrightarrow> feed s (a @ b) = Inr (os, u) \<Longrightarrow>
        \<exists>os1 t os2. feed s a = Inr (os1, t) \<and> feed t b = Inr (os2, u) \<and> os = os1 @ os2"
    and feed_wf: "wf s \<Longrightarrow> feed s a = Inr (os, t) \<Longrightarrow> wf t"
begin

text \<open>However a stream is cut into pieces, the outputs and the final state are the same.\<close>

lemma feed_segments:
  assumes "wf s" and "xs \<noteq> []" and "feed s (concat xs) = Inr (os, u)"
  shows "feed_all feed s xs = Inr (os, u)"
  using assms(2,1,3)
proof (induction xs arbitrary: s os rule: list_nonempty_induct)
  case (single x)
  then show ?case by simp
next
  case (cons x xs)
  obtain os1 t os2 where f: "feed s x = Inr (os1, t)" "feed t (concat xs) = Inr (os2, u)"
      "os = os1 @ os2"
    using feed_split [OF cons.prems(1), of x "concat xs" os u] cons.prems(2) by auto
  have "feed_all feed t xs = Inr (os2, u)"
    using cons.IH f(2) feed_wf [OF cons.prems(1) f(1)] by blast
  with f show ?case by simp
qed

end

end
