(* ===== verification/CppString.thy ===== *)
theory CppString imports Prelude "HOL-Library.Sublist" begin

text \<open>
  The \<open>std::string\<close> operations the module uses (find, rfind, substr, erase, starts\_with,
  find\_first\_not\_of), the C locale's \<open>tolower\<close> and \<open>isspace\<close>, \<open>std::to_string\<close> and
  \<open>std::stoull\<close>/\<open>strtoull\<close>, with \<open>LowerAscii\<close> and \<open>TrimAscii\<close> of \<open>main.cpp\<close> on top of
  them. \<open>npos\<close> is \<open>None\<close>.
\<close>

section \<open>Searching\<close>

fun find_str :: "string \<Rightarrow> string \<Rightarrow> nat option" where
  "find_str p [] = (if p = [] then Some 0 else None)"
| "find_str p (c # s) =
     (if prefix p (c # s) then Some 0 else map_option Suc (find_str p s))"

definition find_from :: "string \<Rightarrow> string \<Rightarrow> nat \<Rightarrow> nat option" where
  "find_from p s pos =
     (if pos \<le> length s then map_option ((+) pos) (find_str p (drop pos s)) else None)"

fun find_char :: "char \<Rightarrow> string \<Rightarrow> nat option" where
  "find_char c [] = None"
| "find_char c (d # s) = (if c = d then Some 0 else map_option Suc (find_char c s))"

fun rfind_char :: "char \<Rightarrow> string \<Rightarrow> nat option" where
  "rfind_char c [] = None"
| "rfind_char c (d # s) =
     (case rfind_char c s of
        Some i \<Rightarrow> Some (Suc i)
      | None \<Rightarrow> if c = d then Some 0 else None)"

definition substr :: "string \<Rightarrow> nat \<Rightarrow> nat \<Rightarrow> string" where
  "substr s pos n = take n (drop pos s)"

definition starts_with :: "string \<Rightarrow> string \<Rightarrow> bool" where
  "starts_with s p = prefix p s"

lemma find_str_Some:
  "find_str p s = Some i \<Longrightarrow> i + length p \<le> length s \<and> take (length p) (drop i s) = p"
proof (induction s arbitrary: i)
  case Nil
  then show ?case by (simp split: if_splits)
next
  case (Cons c s)
  show ?case
  proof (cases "prefix p (c # s)")
    case True
    with Cons.prems have "i = 0" by simp
    with True show ?thesis by (auto simp: prefix_def dest: arg_cong [of _ _ length])
  next
    case False
    with Cons.prems obtain j where "find_str p s = Some j" and "i = Suc j" by auto
    with Cons.IH show ?thesis by fastforce
  qed
qed

lemma find_str_Some_le: "find_str p s = Some i \<Longrightarrow> i + length p \<le> length s"
  using find_str_Some by blast

lemma find_str_split:
  assumes "find_str p s = Some i"
  shows "s = take i s @ p @ drop (i + length p) s"
proof -
  have "i + length p \<le> length s" and *: "take (length p) (drop i s) = p"
    using find_str_Some [OF assms] by auto
  have "s = take i s @ take (length p) (drop i s) @ drop (length p) (drop i s)"
    by (metis append_take_drop_id)
  then show ?thesis by (simp add: * add.commute)
qed

lemma find_str_append:
  "find_str p s = Some i \<Longrightarrow> find_str p (s @ t) = Some i"
proof (induction s arbitrary: i)
  case Nil
  then show ?case by (cases t) (auto split: if_splits)
next
  case (Cons c s)
  then show ?case
  proof (cases "prefix p (c # s)")
    case True
    with Cons.prems have "prefix p ((c # s) @ t)" by (metis prefix_prefix)
    with True Cons.prems show ?thesis by simp
  next
    case False
    with Cons.prems obtain j where j: "find_str p s = Some j" "i = Suc j" by auto
    have "length p \<le> length (c # s)" using find_str_Some_le [OF j(1)] by simp
    then have "\<not> prefix p ((c # s) @ t)"
      using False prefix_length_prefix [of p "(c # s) @ t" "c # s"] by auto
    with j Cons.IH show ?thesis by simp
  qed
qed

lemma find_str_occurs:
  "i + length p \<le> length s \<Longrightarrow> take (length p) (drop i s) = p \<Longrightarrow> find_str p s \<noteq> None"
proof (induction s arbitrary: i)
  case Nil
  then show ?case by simp
next
  case (Cons c s)
  show ?case
  proof (cases i)
    case 0
    then show ?thesis using Cons.prems by (auto simp: prefix_def) (metis append_take_drop_id)
  next
    case (Suc j)
    then show ?thesis using Cons.IH [of j] Cons.prems by auto
  qed
qed

lemma find_str_take:
  assumes "find_str p s = Some i"
  shows "find_str p (take n s) = (if i + length p \<le> n then Some i else None)"
proof -
  have same: "j = i \<and> i + length p \<le> n" if "find_str p (take n s) = Some j" for j
    using find_str_append [OF that, of "drop n s"] find_str_Some_le [OF that] assms by auto
  show ?thesis
  proof (cases "i + length p \<le> n")
    case True
    have "take (length p) (drop i (take n s)) = take (length p) (drop i s)"
      using True by (simp add: drop_take min_def)
    then have "find_str p (take n s) \<noteq> None"
      using True find_str_Some [OF assms] by (intro find_str_occurs [of i]) auto
    with same True show ?thesis by auto
  next
    case False
    with same show ?thesis by (cases "find_str p (take n s)") auto
  qed
qed

lemma find_char_Some:
  "find_char c s = Some i \<Longrightarrow> i < length s \<and> s ! i = c \<and> c \<notin> set (take i s)"
  by (induction s arbitrary: i) (auto split: if_splits simp: less_Suc_eq_0_disj)

lemma find_char_None: "find_char c s = None \<longleftrightarrow> c \<notin> set s"
  by (induction s) auto

lemma find_char_append [cpp_string]:
  "c \<notin> set a \<Longrightarrow> find_char c (a @ c # b) = Some (length a)"
  by (induction a) auto

lemma find_char_split:
  assumes "find_char c s = Some i"
  shows "s = take i s @ c # drop (Suc i) s"
  using find_char_Some [OF assms] by (metis id_take_nth_drop)

lemma rfind_char_Some:
  "rfind_char c s = Some i \<Longrightarrow> i < length s \<and> s ! i = c \<and> c \<notin> set (drop (Suc i) s)"
proof (induction s arbitrary: i)
  case (Cons d s)
  show ?case
  proof (cases "rfind_char c s")
    case None
    have "c \<notin> set s" using None by (induction s) (auto split: option.splits if_splits)
    with None Cons.prems show ?thesis by (auto split: if_splits)
  next
    case (Some j)
    with Cons show ?thesis by auto
  qed
qed simp

lemma rfind_char_None: "rfind_char c s = None \<longleftrightarrow> c \<notin> set s"
  by (induction s) (auto split: option.splits)

lemma rfind_char_append [cpp_string]:
  "c \<notin> set b \<Longrightarrow> rfind_char c (a @ c # b) = Some (length a)"
proof (induction a)
  case Nil
  then show ?case by (simp add: rfind_char_None [THEN iffD2])
qed simp


lemma find_from_0 [simp]: "find_from p s 0 = find_str p s"
  by (simp add: find_from_def option.map_ident [unfolded id_def [symmetric]] map_option_idI)

lemma find_str_crlf [cpp_string]:
  "CHR 0x0D \<notin> set a \<Longrightarrow> find_str crlf (a @ crlf @ b) = Some (length a)"
  by (induction a) (auto simp: crlf_def)

lemma find_str_first [cpp_string]:
  "p \<noteq> [] \<Longrightarrow> find_str p (a @ butlast p) = None \<Longrightarrow> find_str p (a @ p @ b) = Some (length a)"
proof (induction a)
  case Nil
  then show ?case by (cases p) auto
next
  case (Cons c a)
  have "\<not> prefix p ((c # a) @ p @ b)"
  proof
    assume "prefix p ((c # a) @ p @ b)"
    moreover have "(c # a) @ p @ b = ((c # a) @ butlast p) @ [last p] @ b"
      using Cons.prems(1) by simp
    moreover have "length p \<le> length ((c # a) @ butlast p)" by simp
    ultimately have "prefix p ((c # a) @ butlast p)"
      by (metis prefixI prefix_length_prefix)
    with Cons.prems(2) show False by simp
  qed
  with Cons show ?case by (simp split: if_splits)
qed

section \<open>Character classes\<close>

definition is_space :: "char \<Rightarrow> bool" where
  "is_space c \<longleftrightarrow> byte c = 32 \<or> (9 \<le> byte c \<and> byte c \<le> 13)"

lemma is_space_blank [simp]: "is_space (CHR '' '')"
  by (simp add: is_space_def byte_def)

definition to_lower :: "char \<Rightarrow> char" where
  "to_lower c = (if 65 \<le> byte c \<and> byte c \<le> 90 then chr_of (byte c + 32) else c)"

definition lower_ascii :: "string \<Rightarrow> string" where
  "lower_ascii s = map to_lower s"

definition is_ows :: "char \<Rightarrow> bool" where
  "is_ows c \<longleftrightarrow> c \<in> set [CHR 0x20, CHR 0x09, CHR 0x0D, CHR 0x0A]"

definition find_first_not :: "(char \<Rightarrow> bool) \<Rightarrow> string \<Rightarrow> nat option" where
  "find_first_not P s =
     (let n = length (takeWhile P s) in if n < length s then Some n else None)"

definition find_last_not :: "(char \<Rightarrow> bool) \<Rightarrow> string \<Rightarrow> nat option" where
  "find_last_not P s =
     (let n = length (takeWhile P (rev s)) in
      if n < length s then Some (length s - 1 - n) else None)"

definition trim_ascii :: "string \<Rightarrow> string" where
  "trim_ascii s =
     (case find_first_not is_ows s of
        None \<Rightarrow> []
      | Some start \<Rightarrow>
          (case find_last_not is_ows s of
             None \<Rightarrow> []
           | Some finish \<Rightarrow> substr s start (finish - start + 1)))"

lemma length_lower_ascii [simp]: "length (lower_ascii s) = length s"
  by (simp add: lower_ascii_def)

lemma lower_ascii_append [simp]: "lower_ascii (a @ b) = lower_ascii a @ lower_ascii b"
  by (simp add: lower_ascii_def)

lemma to_lower_idem [simp]: "to_lower (to_lower c) = to_lower c"
  by (simp add: to_lower_def)

lemma lower_ascii_idem [simp]: "lower_ascii (lower_ascii s) = lower_ascii s"
  by (simp add: lower_ascii_def comp_def)

lemma take_drop_frame:
  "take (length (a @ m @ b) - length b - length a) (drop (length a) (a @ m @ b)) = m"
  by simp

text \<open>What is left between two runs of blanks is what \<open>TrimAscii\<close> returns.\<close>

lemma trim_ascii_frame [cpp_string]:
  assumes "\<forall>c \<in> set a. is_ows c" and "\<forall>c \<in> set b. is_ows c"
    and "m \<noteq> []" and "\<not> is_ows (hd m)" and "\<not> is_ows (last m)"
  shows "trim_ascii (a @ m @ b) = m"
proof -
  obtain h t where m: "m = h # t" using \<open>m \<noteq> []\<close> by (cases m) auto
  have first: "takeWhile is_ows (a @ m @ b) = a"
    using assms(1,4) by (simp add: takeWhile_append m)
  obtain i l where r: "rev m = l # i" and l: "l = last m"
    using \<open>m \<noteq> []\<close> by (metis append_butlast_last_id rev.simps(2) rev_append rev_rev_ident append_Cons append_Nil)
  have "takeWhile is_ows (rev (a @ m @ b)) = rev b"
    using assms(2,5) by (simp add: takeWhile_append r l)
  then show ?thesis
    using \<open>m \<noteq> []\<close> first
    by (simp add: trim_ascii_def find_first_not_def find_last_not_def substr_def Let_def m)
qed

lemma trim_ascii_id:
  "m \<noteq> [] \<Longrightarrow> \<not> is_ows (hd m) \<Longrightarrow> \<not> is_ows (last m) \<Longrightarrow> trim_ascii m = m"
  using trim_ascii_frame [of "[]" "[]" m] by simp

lemma split_trailing:
  "\<exists>m b. r = m @ b \<and> (\<forall>x \<in> set b. P x) \<and> (m = [] \<or> \<not> P (last m))"
proof (induction r rule: rev_induct)
  case Nil
  show ?case by simp
next
  case (snoc x r)
  show ?case
  proof (cases "P x")
    case True
    from snoc obtain m b where "r = m @ b" "\<forall>x \<in> set b. P x" "m = [] \<or> \<not> P (last m)" by blast
    with True show ?thesis by (intro exI [of _ m] exI [of _ "b @ [x]"]) auto
  next
    case False
    then show ?thesis by (intro exI [of _ "r @ [x]"] exI [of _ "[]"]) auto
  qed
qed

lemma trim_ascii_prefix:
  assumes "h \<noteq> []" and "\<not> is_ows (hd h)" and "\<not> is_ows c"
  shows "\<exists>r'. trim_ascii (h @ c # r) = h @ c # r'"
proof -
  obtain m b where r: "r = m @ b" and b: "\<forall>x \<in> set b. is_ows x" and m: "m = [] \<or> \<not> is_ows (last m)"
    using split_trailing [of r is_ows] by blast
  have "\<not> is_ows (last (h @ c # m))" using m assms(3) by auto
  moreover have "hd (h @ c # m) = hd h" using assms(1) by simp
  ultimately have "trim_ascii ([] @ (h @ c # m) @ b) = h @ c # m"
    by (intro trim_ascii_frame) (use assms(2) b in simp_all)
  then have "trim_ascii (h @ c # r) = h @ c # m" by (simp add: r)
  then show ?thesis by blast
qed

lemma trim_ascii_Nil [simp]: "trim_ascii [] = []"
  by (simp add: trim_ascii_def find_first_not_def)

lemma length_trim_ascii: "length (trim_ascii s) \<le> length s"
  by (auto simp: trim_ascii_def substr_def min_def split: option.splits)

section \<open>Numbers\<close>

definition digit_chr :: "nat \<Rightarrow> char" where
  "digit_chr d = chr_of (if d < 10 then 48 + d else 87 + d)"

definition digit_val :: "char \<Rightarrow> nat option" where
  "digit_val c =
     (if 48 \<le> byte c \<and> byte c \<le> 57 then Some (byte c - 48)
      else if 97 \<le> byte c \<and> byte c \<le> 122 then Some (byte c - 87)
      else if 65 \<le> byte c \<and> byte c \<le> 90 then Some (byte c - 55)
      else None)"

fun digits :: "nat \<Rightarrow> nat \<Rightarrow> string" where
  "digits b n = (if b < 2 \<or> n < b then [digit_chr n] else digits b (n div b) @ [digit_chr (n mod b)])"

declare digits.simps [simp del]

definition nat_str :: "nat \<Rightarrow> string" where
  "nat_str n = digits 10 n"

definition int_str :: "int \<Rightarrow> string" where
  "int_str i = (if i < 0 then CHR ''-'' # nat_str (nat (- i)) else nat_str (nat i))"

definition hex8 :: "nat \<Rightarrow> string" where
  "hex8 n = (let d = digits 16 n in replicate (8 - length d) (CHR ''0'') @ d)"

fun scan_num :: "nat \<Rightarrow> nat \<Rightarrow> string \<Rightarrow> nat \<times> string" where
  "scan_num b acc [] = (acc, [])"
| "scan_num b acc (c # s) =
     (case digit_val c of
        Some d \<Rightarrow> if d < b then scan_num b (acc * b + d) s else (acc, c # s)
      | None \<Rightarrow> (acc, c # s))"

definition strip_sign :: "string \<Rightarrow> bool \<times> string" where
  "strip_sign s =
     (case s of
        c # r \<Rightarrow> if c = CHR ''-'' then (True, r) else if c = CHR ''+'' then (False, r) else (False, s)
      | [] \<Rightarrow> (False, s))"

definition strip_hex_prefix :: "nat \<Rightarrow> string \<Rightarrow> string" where
  "strip_hex_prefix b s =
     (case s of
        z # x # d # r \<Rightarrow>
          if b = 16 \<and> z = CHR ''0'' \<and> to_lower x = CHR ''x''
             \<and> (case digit_val d of Some v \<Rightarrow> v < 16 | None \<Rightarrow> False)
          then d # r else s
      | _ \<Rightarrow> s)"

text \<open>
  \<open>strtoull\<close>: the value, the number of characters used (0 when nothing was converted) and
  whether the value was out of range. A minus sign negates modulo $2^{64}$, as C prescribes.
\<close>

definition strtoull :: "nat \<Rightarrow> string \<Rightarrow> nat \<times> nat \<times> bool" where
  "strtoull b s =
     (let (neg, s2) = strip_sign (dropWhile is_space s);
          s3 = strip_hex_prefix b s2;
          (v, rest) = scan_num b 0 s3
      in if length rest = length s3 then (0, 0, False)
         else if 2 ^ 64 \<le> v then (2 ^ 64 - 1, length s - length rest, True)
         else ((if neg then (2 ^ 64 - v) mod 2 ^ 64 else v), length s - length rest, False))"

definition stoull :: "nat \<Rightarrow> string \<Rightarrow> (nat \<times> nat) result" where
  "stoull b s =
     (let (v, used, range) = strtoull b s in
      if used = 0 then Inl Invalid_Argument
      else if range then Inl Out_Of_Range
      else Inr (v, used))"

definition stoi :: "string \<Rightarrow> int result" where
  "stoi s =
     (let (neg, s2) = strip_sign (dropWhile is_space s);
          (v, rest) = scan_num 10 0 s2;
          i = (if neg then - int v else int v)
      in if length rest = length s2 then Inl Invalid_Argument
         else if i < - (2 ^ 31) \<or> 2 ^ 31 \<le> i then Inl Out_Of_Range
         else Inr i)"

lemma digit_val_chr: "d < 36 \<Longrightarrow> digit_val (digit_chr d) = Some d"
  by (simp add: digit_val_def digit_chr_def)

lemma digits_nonempty [simp]: "digits b n \<noteq> []"
  by (subst digits.simps) simp

lemma scan_num_append_digits:
  assumes "2 \<le> b" and "b \<le> 36"
  shows "scan_num b acc (digits b n @ s) =
           scan_num b (acc * b ^ length (digits b n) + n) s"
  using assms
proof (induction b n arbitrary: acc s rule: digits.induct)
  case (1 b n)
  show ?case
  proof (cases "n < b")
    case True
    with 1 show ?thesis by (subst (1 2) digits.simps) (simp add: digit_val_chr)
  next
    case False
    have d: "digits b n = digits b (n div b) @ [digit_chr (n mod b)]"
      using False "1.prems" by (subst digits.simps) simp
    have m: "n mod b < b" using "1.prems" by simp
    have v: "digit_val (digit_chr (n mod b)) = Some (n mod b)"
      by (rule digit_val_chr) (use m "1.prems" in linarith)
    have "scan_num b acc (digits b n @ s) =
            scan_num b (acc * b ^ length (digits b (n div b)) + n div b) (digit_chr (n mod b) # s)"
      using "1.IH" False "1.prems" by (simp add: d)
    also have "\<dots> = scan_num b ((acc * b ^ length (digits b (n div b)) + n div b) * b + n mod b) s"
      using m v by simp
    finally show ?thesis by (simp add: d algebra_simps)
  qed
qed

lemma set_digits: "2 \<le> b \<Longrightarrow> set (digits b n) \<subseteq> digit_chr ` {..<b}"
proof (induction b n rule: digits.induct)
  case (1 b n)
  then show ?case by (subst digits.simps) auto
qed

lemma digits_digit:
  assumes "2 \<le> b" and "b \<le> 36" and "c \<in> set (digits b n)"
  shows "\<exists>d < b. digit_val c = Some d"
  using set_digits [OF assms(1), of n] assms(2,3) digit_val_chr by fastforce

lemma digit_val_not_space: "digit_val c = Some d \<Longrightarrow> \<not> is_space c"
  by (auto simp: digit_val_def is_space_def split: if_splits)

lemma digit_val_not_ows: "digit_val c = Some d \<Longrightarrow> \<not> is_ows c"
  by (auto simp: digit_val_def is_ows_def byte_def split: if_splits)

lemma digit_val_not_sign: "digit_val c = Some d \<Longrightarrow> c \<noteq> CHR ''-'' \<and> c \<noteq> CHR ''+'' \<and> c \<noteq> CHR '';''"
  by (auto simp: digit_val_def byte_def split: if_splits)

lemma byte_to_lower:
  "byte (to_lower c) = (if 65 \<le> byte c \<and> byte c \<le> 90 then byte c + 32 else byte c)"
  by (simp add: to_lower_def)

lemma digit_val_below_16:
  assumes "digit_val c = Some d" and "d < 16"
  shows "to_lower c \<noteq> CHR ''x''"
proof
  assume "to_lower c = CHR ''x''"
  then have "byte (to_lower c) = 120" by (simp add: byte_def)
  with assms show False
    by (auto simp: digit_val_def byte_to_lower split: if_splits)
qed

lemma strip_digits:
  assumes "2 \<le> b" and "b \<le> 16"
  shows "strip_sign (dropWhile is_space (digits b n)) = (False, digits b n)"
    and "strip_hex_prefix b (digits b n) = digits b n"
proof -
  obtain c r where cr: "digits b n = c # r" by (cases "digits b n") auto
  have c: "\<exists>d < b. digit_val x = Some d" if "x \<in> set (digits b n)" for x
    using digits_digit [of b x n] that assms by simp
  have "c \<in> set (digits b n)" by (simp add: cr)
  with c obtain d where "digit_val c = Some d" by blast
  then show "strip_sign (dropWhile is_space (digits b n)) = (False, digits b n)"
    using digit_val_not_space digit_val_not_sign by (simp add: cr strip_sign_def)
  have "to_lower x \<noteq> CHR ''x''" if "x \<in> set (digits b n)" for x
    using c [OF that] digit_val_below_16 assms(2) by fastforce
  then show "strip_hex_prefix b (digits b n) = digits b n"
    by (auto simp: strip_hex_prefix_def split: list.splits)
qed

lemma stoull_digits:
  assumes "2 \<le> b" and "b \<le> 16" and "n < 2 ^ 64"
  shows "stoull b (digits b n) = Inr (n, length (digits b n))"
proof -
  have "scan_num b 0 (digits b n) = (n, [])"
    using scan_num_append_digits [of b 0 n "[]"] assms by simp
  with assms strip_digits [OF assms(1,2), of n] show ?thesis
    by (simp add: stoull_def strtoull_def)
qed

lemma stoull_used_le: "stoull b s = Inr (v, used) \<Longrightarrow> used \<le> length s \<and> v < 2 ^ 64"
  by (auto simp: stoull_def strtoull_def Let_def split: prod.splits if_splits)

lemma stoi_digits:
  assumes "n < 2 ^ 31"
  shows "stoi (nat_str n) = Inr (int n)"
proof -
  have "scan_num 10 0 (digits 10 n) = (n, [])"
    using scan_num_append_digits [of 10 0 n "[]"] by simp
  with assms strip_digits [of 10 n] show ?thesis
    by (simp add: stoi_def nat_str_def)
qed

section \<open>Splitting into lines\<close>

text \<open>
  The loop both HTTP parsers share: take what stands before the next CRLF, or everything when
  there is none, and go on behind it until nothing is left.
\<close>

function split_lines :: "string \<Rightarrow> string list" where
  "split_lines s =
     (if s = [] then []
      else case find_str crlf s of
        None \<Rightarrow> [s]
      | Some i \<Rightarrow> take i s # split_lines (drop (i + 2) s))"
  by pat_completeness auto
termination
  by (relation "measure length") (auto dest: find_str_Some_le)

declare split_lines.simps [simp del]

lemma split_lines_Nil [simp]: "split_lines [] = []"
  by (simp add: split_lines.simps)

lemma split_lines_line [cpp_string]:
  assumes "CHR 0x0D \<notin> set a"
  shows "split_lines (a @ crlf @ s) = a # split_lines s"
proof -
  have "a @ crlf @ s \<noteq> []" by (simp add: crlf_def)
  then show ?thesis
    using find_str_crlf [OF assms, of s] by (subst split_lines.simps) simp
qed

lemma find_str_crlf_None: "CHR 0x0D \<notin> set a \<Longrightarrow> find_str crlf a = None"
  by (induction a) (auto simp: crlf_def)

lemma split_lines_last [cpp_string]:
  "CHR 0x0D \<notin> set a \<Longrightarrow> a \<noteq> [] \<Longrightarrow> split_lines a = [a]"
  by (subst split_lines.simps) (simp add: find_str_crlf_None)

lemma split_lines_join:
  "\<forall>l \<in> set ls. CHR 0x0D \<notin> set l \<Longrightarrow> split_lines (concat (map (\<lambda>l. l @ crlf) ls) @ s) = ls @ split_lines s"
  by (induction ls) (simp_all add: split_lines_line)

text \<open>Splitting only drops the line ends.\<close>

lemma split_lines_length: "length (concat (split_lines s)) \<le> length s"
proof (induction s rule: split_lines.induct)
  case (1 s)
  show ?case
  proof (cases "s = [] \<or> find_str crlf s = None")
    case True
    then show ?thesis by (subst split_lines.simps) auto
  next
    case False
    then obtain i where i: "find_str crlf s = Some i" "s \<noteq> []" by auto
    then have "length (concat (split_lines (drop (i + 2) s))) \<le> length (drop (i + 2) s)"
      using "1.IH" by blast
    moreover have "i + 2 \<le> length s" using find_str_Some_le [OF i(1)] by simp
    ultimately show ?thesis using i by (subst split_lines.simps) simp
  qed
qed

end
