(* ===== verification/ChunkDecoder.thy ===== *)
theory ChunkDecoder imports CppString begin

text \<open>
  \<open>HttpChunkDecoder\<close> of \<open>main.cpp\<close>: the incremental decoder of the chunked transfer coding
  the HTTP client feeds with whatever each receive returned. The record is the class's four
  members; \<open>chunk_size\<close> is the parsing of one size line, \<open>decode_step\<close> one round of the
  \<open>while\<close> loop, \<open>decode_loop\<close> the loop and \<open>feed\<close> the method \<open>Feed\<close>. The lemmas show that
  the result does not depend on how the stream was cut, that a well-formed chunked body decodes
  to its chunks, and that the buffer and the chunks stay within the configured maximum.
\<close>

record decoder =
  buffer :: string
  remaining :: "nat option"
  finished :: bool
  maximum :: nat

definition new_decoder :: "nat \<Rightarrow> decoder" where
  "new_decoder m = \<lparr>buffer = [], remaining = None, finished = False, maximum = m\<rparr>"

definition chunk_size :: "string \<Rightarrow> nat result" where
  "chunk_size line =
     (let trimmed = trim_ascii line;
          cut = (case find_char (CHR '';'') trimmed of Some e \<Rightarrow> take e trimmed | None \<Rightarrow> trimmed);
          size_text = trim_ascii cut
      in if size_text = [] then Inl (Runtime_Error ''empty HTTP chunk size'')
         else bind_result (stoull 16 size_text) (\<lambda>(size, used).
           if used \<noteq> length size_text
           then Inl (Runtime_Error (''invalid HTTP chunk size: '' @ size_text))
           else Inr size))"

text \<open>The first half of a round: a size line is read when no chunk is open.\<close>

definition open_chunk :: "decoder \<Rightarrow> (bool \<times> decoder) result" where
  "open_chunk d =
     (case remaining d of
        Some n \<Rightarrow> Inr (False, d)
      | None \<Rightarrow>
          (case find_str crlf (buffer d) of
             None \<Rightarrow> Inr (True, d)
           | Some line_end \<Rightarrow>
               bind_result (chunk_size (take line_end (buffer d))) (\<lambda>size.
                 let d' = d\<lparr>buffer := drop (line_end + 2) (buffer d)\<rparr> in
                 if size = 0 then Inr (True, d'\<lparr>finished := True\<rparr>)
                 else if maximum d < size
                 then Inl (Runtime_Error ''HTTP chunk exceeds max_response_bytes'')
                 else Inr (False, d'\<lparr>remaining := Some size\<rparr>))))"

text \<open>The second half: a chunk is taken once it and its terminator are buffered.\<close>

definition take_chunk :: "decoder \<Rightarrow> nat \<Rightarrow> (string option \<times> decoder) result" where
  "take_chunk d n =
     (if length (buffer d) < sz (n + 2) then Inr (None, d)
      else if length (buffer d) < n then Inl Out_Of_Range
      else if take 2 (drop n (buffer d)) \<noteq> crlf
      then Inl (Runtime_Error ''HTTP chunk missing terminator'')
      else Inr (Some (take n (buffer d)),
                d\<lparr>buffer := drop (sz (n + 2)) (buffer d), remaining := None\<rparr>))"

text \<open>One round of the loop; \<open>None\<close> is its \<open>break\<close>.\<close>

definition decode_step :: "decoder \<Rightarrow> (string option \<times> decoder) result" where
  "decode_step d =
     bind_result (open_chunk d) (\<lambda>(stop, d').
       if stop then Inr (None, d')
       else case remaining d' of None \<Rightarrow> Inr (None, d') | Some n \<Rightarrow> take_chunk d' n)"

definition decode_measure :: "decoder \<Rightarrow> nat" where
  "decode_measure d = 2 * length (buffer d) + (if remaining d = None then 0 else 1)"

lemma open_chunk_cases:
  assumes "open_chunk d = Inr (stop, d')"
  obtains (already) n where "remaining d = Some n" "\<not> stop" "d' = d"
    | (no_line) "remaining d = None" "find_str crlf (buffer d) = None" "stop" "d' = d"
    | (last_chunk) i where "remaining d = None" "find_str crlf (buffer d) = Some i"
        "chunk_size (take i (buffer d)) = Inr 0" "stop"
        "d' = d\<lparr>buffer := drop (i + 2) (buffer d), finished := True\<rparr>"
    | (size_line) i n where "remaining d = None" "find_str crlf (buffer d) = Some i"
        "chunk_size (take i (buffer d)) = Inr n" "0 < n" "n \<le> maximum d" "\<not> stop"
        "d' = d\<lparr>buffer := drop (i + 2) (buffer d), remaining := Some n\<rparr>"
  using assms
  by (auto simp: open_chunk_def Let_def bind_result_Inr split: option.splits if_splits)

lemma take_chunk_cases:
  assumes "take_chunk d n = Inr (out, d')"
  obtains (short) "length (buffer d) < sz (n + 2)" "out = None" "d' = d"
    | (chunk) "sz (n + 2) \<le> length (buffer d)" "n \<le> length (buffer d)"
        "take 2 (drop n (buffer d)) = crlf" "out = Some (take n (buffer d))"
        "d' = d\<lparr>buffer := drop (sz (n + 2)) (buffer d), remaining := None\<rparr>"
  using assms by (auto simp: take_chunk_def split: if_splits)

lemma decode_step_measure:
  assumes "decode_step d = Inr (Some c, d')"
  shows "decode_measure d' < decode_measure d"
proof -
  obtain e n where e: "open_chunk d = Inr (False, e)" "remaining e = Some n"
      "take_chunk e n = Inr (Some c, d')"
    using assms by (auto simp: decode_step_def bind_result_Inr split: if_splits option.splits)
  from e(3) have le: "length (buffer d') \<le> length (buffer e)" and r: "remaining d' = None"
    by (auto elim!: take_chunk_cases)
  from e(1) show ?thesis
  proof (cases rule: open_chunk_cases)
    case (already m)
    with le r show ?thesis by (simp add: decode_measure_def)
  next
    case (size_line i m)
    then have "i + 2 \<le> length (buffer d)" using find_str_Some_le by fastforce
    with size_line le r show ?thesis by (simp add: decode_measure_def)
  qed simp_all
qed

function decode_loop :: "decoder \<Rightarrow> (string list \<times> decoder) result" where
  "decode_loop d =
     (if finished d then Inr ([], d)
      else case decode_step d of
        Inl e \<Rightarrow> Inl e
      | Inr (None, d') \<Rightarrow> Inr ([], d')
      | Inr (Some c, d') \<Rightarrow>
          bind_result (decode_loop d') (\<lambda>(cs, d''). Inr (c # cs, d'')))"
  by pat_completeness auto
termination
  by (relation "measure decode_measure") (auto dest: decode_step_measure)

declare decode_loop.simps [simp del]

definition feed :: "decoder \<Rightarrow> string \<Rightarrow> (string list \<times> decoder) result" where
  "feed d data =
     (let d' = d\<lparr>buffer := buffer d @ data\<rparr> in
      if sz (maximum d + 1024 * 1024) < length (buffer d')
      then Inl (Runtime_Error ''chunked response exceeded max_response_bytes while buffering'')
      else decode_loop d')"

definition complete :: "decoder \<Rightarrow> bool" where
  "complete d = finished d"

section \<open>The class invariant\<close>

text \<open>
  \<open>max_response_bytes\<close> is clamped to a positive \<open>long long\<close> before it reaches the decoder, and
  an open chunk is never empty and never larger than the maximum.
\<close>

definition decoder_wf :: "decoder \<Rightarrow> bool" where
  "decoder_wf d \<longleftrightarrow> maximum d < 2 ^ 63
     \<and> (case remaining d of None \<Rightarrow> True | Some n \<Rightarrow> 0 < n \<and> n \<le> maximum d)"

lemma decoder_wf_new [simp]: "decoder_wf (new_decoder m) \<longleftrightarrow> m < 2 ^ 63"
  by (simp add: decoder_wf_def new_decoder_def)

lemma decoder_wf_sz:
  "decoder_wf d \<Longrightarrow> remaining d = Some n \<Longrightarrow> sz (n + 2) = n + 2"
  by (simp add: decoder_wf_def)

lemma decoder_wf_buffer [simp]: "decoder_wf (d\<lparr>buffer := b\<rparr>) = decoder_wf d"
  by (simp add: decoder_wf_def split: option.split)

lemma open_chunk_wf:
  "decoder_wf d \<Longrightarrow> open_chunk d = Inr (s, d') \<Longrightarrow> decoder_wf d' \<and> maximum d' = maximum d"
  by (elim open_chunk_cases) (auto simp: decoder_wf_def)

lemma decode_step_cases:
  assumes "decode_step d = Inr (out, d')"
  obtains (stop) "open_chunk d = Inr (True, d')" "out = None"
    | (chunk) e n where "open_chunk d = Inr (False, e)" "remaining e = Some n"
        "take_chunk e n = Inr (out, d')"
proof -
  from assms obtain s e where o: "open_chunk d = Inr (s, e)"
    by (auto simp: decode_step_def bind_result_Inr)
  show thesis
  proof (cases s)
    case True
    with assms o show thesis by (intro stop) (auto simp: decode_step_def)
  next
    case False
    then obtain n where "remaining e = Some n" using o by (auto elim!: open_chunk_cases)
    with assms o False show thesis by (intro chunk) (auto simp: decode_step_def)
  qed
qed

lemma decode_step_wf:
  assumes "decoder_wf d" and "decode_step d = Inr (out, d')"
  shows "decoder_wf d' \<and> maximum d' = maximum d"
  using assms(2)
proof (cases rule: decode_step_cases)
  case stop
  then show ?thesis using open_chunk_wf [OF assms(1)] by blast
next
  case (chunk e n)
  then have "decoder_wf e \<and> maximum e = maximum d" using open_chunk_wf [OF assms(1)] by blast
  with chunk(3) show ?thesis by (auto simp: decoder_wf_def elim!: take_chunk_cases)
qed

text \<open>A round that yields a chunk yields a non-empty one of at most the maximum.\<close>

lemma decode_step_chunk:
  assumes "decoder_wf d" and "decode_step d = Inr (Some c, d')"
  shows "c \<noteq> [] \<and> length c \<le> maximum d"
  using assms(2)
proof (cases rule: decode_step_cases)
  case (chunk e n)
  then have "decoder_wf e \<and> maximum e = maximum d" using open_chunk_wf [OF assms(1)] by blast
  with chunk show ?thesis by (auto simp: decoder_wf_def elim!: take_chunk_cases)
qed simp

section \<open>More data\<close>

text \<open>
  \<open>more d t\<close> is the decoder with \<open>t\<close> appended to its buffer. A round that did something does
  the same when more data had been there from the start; a round that stopped for lack of data
  leaves a decoder from which the longer buffer continues in the same way.
\<close>

definition more_data :: "decoder \<Rightarrow> string \<Rightarrow> decoder" where
  "more_data d t = d\<lparr>buffer := buffer d @ t\<rparr>"

lemma more_data_simps [simp]:
  "buffer (more_data d t) = buffer d @ t"
  "remaining (more_data d t) = remaining d"
  "finished (more_data d t) = finished d"
  "maximum (more_data d t) = maximum d"
  "more_data (more_data d t) u = more_data d (t @ u)"
  "decoder_wf (more_data d t) = decoder_wf d"
  by (simp_all add: more_data_def)

lemma open_chunk_line:
  assumes "remaining d = None" and "find_str crlf (buffer d) = Some i"
  shows "open_chunk (more_data d t) =
           (case open_chunk d of Inl e \<Rightarrow> Inl e | Inr (s, d') \<Rightarrow> Inr (s, more_data d' t))"
proof -
  have "find_str crlf (buffer d @ t) = Some i" using find_str_append [OF assms(2)] .
  moreover have "i + 2 \<le> length (buffer d)" using find_str_Some_le [OF assms(2)] by simp
  ultimately show ?thesis using assms
    by (auto simp: open_chunk_def more_data_def Let_def bind_result_def split: sum.splits)
qed

lemma take_chunk_more:
  assumes "n + 2 < 2 ^ 64" and "take_chunk d n = r" and "r \<noteq> Inr (None, d)"
  shows "take_chunk (more_data d t) n =
           (case r of Inl e \<Rightarrow> Inl e | Inr (c, d') \<Rightarrow> Inr (c, more_data d' t))"
proof -
  have z: "sz (n + 2) = n + 2" using assms(1) by simp
  have "\<not> length (buffer d) < n + 2"
    using assms(2,3) unfolding take_chunk_def z by (metis (full_types))
  then have "n + 2 \<le> length (buffer d)" by simp
  then show ?thesis
    using assms(2) unfolding take_chunk_def z by (auto simp: more_data_def)
qed

lemma take_chunk_short:
  "take_chunk d n = Inr (None, d') \<Longrightarrow> d' = d"
  by (auto elim: take_chunk_cases)

lemma decode_step_more_chunk:
  assumes wf: "decoder_wf d" and step: "decode_step d = Inr (Some c, d')"
  shows "decode_step (more_data d t) = Inr (Some c, more_data d' t)"
  using step
proof (cases rule: decode_step_cases)
  case (chunk e n)
  have e: "decoder_wf e" using open_chunk_wf [OF wf chunk(1)] by blast
  have "n + 2 < 2 ^ 64" using e chunk(2) by (simp add: decoder_wf_def)
  then have t: "take_chunk (more_data e t) n = Inr (Some c, more_data d' t)"
    using take_chunk_more [OF _ chunk(3), of t] by simp
  have "open_chunk (more_data d t) = Inr (False, more_data e t)"
    using chunk(1)
  proof (cases rule: open_chunk_cases)
    case (already m)
    then show ?thesis by (simp add: open_chunk_def)
  next
    case (size_line i m)
    then show ?thesis using open_chunk_line [of d i t] chunk(1) by simp
  qed simp_all
  with t chunk(2) show ?thesis by (simp add: decode_step_def)
qed simp

lemma decode_step_more_error:
  assumes wf: "decoder_wf d" and step: "decode_step d = Inl err"
  shows "decode_step (more_data d t) = Inl err"
proof (cases "open_chunk d")
  case (Inl e)
  then have "e = err" using step by (simp add: decode_step_def)
  moreover obtain i where "remaining d = None" "find_str crlf (buffer d) = Some i"
    using Inl by (auto simp: open_chunk_def split: option.splits)
  ultimately show ?thesis using open_chunk_line [of d i t] Inl by (simp add: decode_step_def)
next
  case (Inr p)
  then obtain s e where o: "open_chunk d = Inr (s, e)" by (cases p) auto
  with step have "\<not> s" by (auto simp: decode_step_def split: if_splits)
  from o show ?thesis
  proof (cases rule: open_chunk_cases)
    case (already n)
    with wf have "n + 2 < 2 ^ 64" by (simp add: decoder_wf_def)
    moreover have "take_chunk d n = Inl err" using step o already by (simp add: decode_step_def)
    ultimately have "take_chunk (more_data d t) n = Inl err" using take_chunk_more by fastforce
    with already show ?thesis by (simp add: decode_step_def open_chunk_def)
  next
    case (size_line i n)
    with wf have "n + 2 < 2 ^ 64" by (simp add: decoder_wf_def)
    moreover have "take_chunk e n = Inl err" using step o size_line by (simp add: decode_step_def)
    ultimately have "take_chunk (more_data e t) n = Inl err" using take_chunk_more by fastforce
    with size_line o open_chunk_line [of d i t] show ?thesis by (simp add: decode_step_def)
  qed (use \<open>\<not> s\<close> in auto)
qed

lemma decode_step_more_stop:
  assumes wf: "decoder_wf d" and step: "decode_step d = Inr (None, d')" and "\<not> finished d"
  shows "(if finished d' then decode_step (more_data d t) = Inr (None, more_data d' t)
          else decode_step (more_data d t) = decode_step (more_data d' t))"
  using step
proof (cases rule: decode_step_cases)
  case stop
  from stop(1) show ?thesis
  proof (cases rule: open_chunk_cases)
    case (last_chunk i)
    with stop open_chunk_line [of d i t] show ?thesis by (simp add: decode_step_def)
  qed (use \<open>\<not> finished d\<close> in auto)
next
  case (chunk e n)
  have d': "d' = e" using chunk(3) by (rule take_chunk_short)
  from chunk(1) show ?thesis
  proof (cases rule: open_chunk_cases)
    case (already m)
    with d' \<open>\<not> finished d\<close> show ?thesis by simp
  next
    case (size_line i m)
    then have "open_chunk (more_data d t) = Inr (False, more_data e t)"
      using chunk(1) open_chunk_line [of d i t] by simp
    moreover have "open_chunk (more_data e t) = Inr (False, more_data e t)"
      using size_line by (simp add: open_chunk_def)
    ultimately show ?thesis using d' size_line \<open>\<not> finished d\<close> by (simp add: decode_step_def)
  qed simp_all
qed

text \<open>The loop on a longer buffer is the loop on the shorter one, then the loop on the rest.\<close>

lemma decode_loop_more:
  "decoder_wf d \<Longrightarrow>
   decode_loop (more_data d t) =
     bind_result (decode_loop d) (\<lambda>(cs, d').
       bind_result (decode_loop (more_data d' t)) (\<lambda>(cs', d''). Inr (cs @ cs', d'')))"
proof (induction d rule: decode_loop.induct)
  case (1 d)
  show ?case
  proof (cases "finished d")
    case True
    then show ?thesis by (simp add: decode_loop.simps [of d] decode_loop.simps [of "more_data d t"])
  next
    case nf: False
    show ?thesis
    proof (cases "decode_step d")
      case (Inl e)
      then show ?thesis using nf decode_step_more_error [OF "1.prems" Inl, of t]
        by (simp add: decode_loop.simps [of d] decode_loop.simps [of "more_data d t"])
    next
      case (Inr p)
      then obtain out d' where st: "decode_step d = Inr (out, d')" by (cases p) auto
      have wf': "decoder_wf d'" using decode_step_wf [OF "1.prems" st] by blast
      show ?thesis
      proof (cases out)
        case None
        then have "decode_loop d = Inr ([], d')" using st nf by (simp add: decode_loop.simps [of d])
        moreover have "decode_loop (more_data d t) = decode_loop (more_data d' t)"
          using decode_step_more_stop [OF "1.prems", of d' t] st None nf
          by (auto simp: decode_loop.simps [of "more_data d t"] decode_loop.simps [of "more_data d' t"]
              split: if_splits)
        ultimately show ?thesis by (simp add: bind_result_def split: sum.splits)
      next
        case (Some c)
        have step: "decode_step (more_data d t) = Inr (Some c, more_data d' t)"
          using decode_step_more_chunk [OF "1.prems"] st Some by simp
        have ih: "decode_loop (more_data d' t) =
            bind_result (decode_loop d') (\<lambda>(cs, d').
              bind_result (decode_loop (more_data d' t)) (\<lambda>(cs', d''). Inr (cs @ cs', d'')))"
          using "1.IH" [OF nf st refl Some] wf' by simp
        show ?thesis
          using nf st Some step ih
          by (simp add: decode_loop.simps [of d] decode_loop.simps [of "more_data d t"])
            (simp add: bind_result_def split: sum.splits)
      qed
    qed
  qed
qed

section \<open>The decoder as a consumer of the stream\<close>

lemma decode_loop_frame:
  "decode_loop d = Inr (cs, d') \<Longrightarrow> decoder_wf d \<Longrightarrow>
   decoder_wf d' \<and> maximum d' = maximum d \<and> length (buffer d') \<le> length (buffer d)
     \<and> (\<forall>c \<in> set cs. c \<noteq> [] \<and> length c \<le> maximum d)"
proof (induction d arbitrary: cs rule: decode_loop.induct)
  case (1 d)
  show ?case
  proof (cases "finished d")
    case True
    with "1.prems" show ?thesis by (simp add: decode_loop.simps [of d])
  next
    case False
    with "1.prems" obtain out e where st: "decode_step d = Inr (out, e)"
      by (auto simp: decode_loop.simps [of d] split: sum.splits)
    have e: "decoder_wf e" "maximum e = maximum d" using decode_step_wf [OF "1.prems"(2) st] by auto
    have le: "length (buffer e) \<le> length (buffer d)"
      using st by (cases rule: decode_step_cases)
        (auto elim!: open_chunk_cases take_chunk_cases)
    show ?thesis
    proof (cases out)
      case None
      with "1.prems" False st e le show ?thesis by (auto simp: decode_loop.simps [of d])
    next
      case (Some c)
      with "1.prems" False st obtain cs' where "decode_loop e = Inr (cs', d')" and "cs = c # cs'"
        by (auto simp: decode_loop.simps [of d] bind_result_Inr)
      with "1.IH" [OF False st refl Some] e le Some st decode_step_chunk [OF "1.prems"(2)]
      show ?thesis by auto
    qed
  qed
qed

lemma feed_Inr:
  "feed d a = Inr (cs, u) \<longleftrightarrow>
     length (buffer d @ a) \<le> sz (maximum d + 1024 * 1024) \<and> decode_loop (more_data d a) = Inr (cs, u)"
  by (auto simp: feed_def more_data_def Let_def)

interpretation decoder_stream: stream_consumer feed decoder_wf
proof
  fix s a b os u
  assume wf: "decoder_wf s" and f: "feed s (a @ b) = Inr (os, u)"
  have "decode_loop (more_data (more_data s a) b) = Inr (os, u)" using f by (simp add: feed_Inr)
  then obtain os1 t os2 where d: "decode_loop (more_data s a) = Inr (os1, t)"
      "decode_loop (more_data t b) = Inr (os2, u)" "os = os1 @ os2"
    using wf by (subst (asm) decode_loop_more) (auto simp: bind_result_Inr)
  have "maximum t = maximum s" "length (buffer t) \<le> length (buffer s @ a)"
    using decode_loop_frame [OF d(1)] wf by auto
  with d f show "\<exists>os1 t os2. feed s a = Inr (os1, t) \<and> feed t b = Inr (os2, u) \<and> os = os1 @ os2"
    by (auto simp: feed_Inr)
next
  fix s a os t
  assume "decoder_wf s" and "feed s a = Inr (os, t)"
  then show "decoder_wf t" using decode_loop_frame [of "more_data s a"] by (simp add: feed_Inr)
qed

section \<open>Encoding\<close>

text \<open>
  The chunked coding of RFC 9112: every chunk is its size in hexadecimal, an optional extension
  that starts with a semicolon, its bytes and a line end; a chunk of size 0 ends the body.
\<close>

definition encode_chunk :: "string \<times> string \<Rightarrow> string" where
  "encode_chunk p = (case p of (ext, c) \<Rightarrow> digits 16 (length c) @ ext @ crlf @ c @ crlf)"

definition encode_body :: "(string \<times> string) list \<Rightarrow> string \<Rightarrow> string" where
  "encode_body cs rest = concat (map encode_chunk cs) @ ''0'' @ crlf @ rest"

definition chunk_ok :: "nat \<Rightarrow> string \<times> string \<Rightarrow> bool" where
  "chunk_ok m p \<longleftrightarrow> (case p of (ext, c) \<Rightarrow>
     c \<noteq> [] \<and> length c \<le> m \<and> CHR 0x0D \<notin> set ext \<and> (ext = [] \<or> hd ext = CHR '';''))"

lemma digits16_no_ows: "c \<in> set (digits 16 n) \<Longrightarrow> \<not> is_ows c \<and> c \<noteq> CHR '';''"
  using digits_digit [of 16 c n] digit_val_not_ows digit_val_not_sign by fastforce

lemma digits16_no_cr: "CHR 0x0D \<notin> set (digits 16 n)"
  using digits16_no_ows by (fastforce simp: is_ows_def)

lemma chunk_size_digits:
  assumes "n < 2 ^ 64" and "ext = [] \<or> hd ext = CHR '';''"
  shows "chunk_size (digits 16 n @ ext) = Inr n"
proof -
  let ?h = "digits 16 n"
  have h: "\<not> is_ows (hd ?h)" "\<not> is_ows (last ?h)" "CHR '';'' \<notin> set ?h"
    using digits16_no_ows [OF hd_in_set] digits16_no_ows [OF last_in_set] digits16_no_ows by auto
  have t: "trim_ascii ?h = ?h" using h by (intro trim_ascii_id) auto
  have s: "stoull 16 ?h = Inr (n, length ?h)" using assms(1) by (intro stoull_digits) auto
  show ?thesis
  proof (cases ext)
    case Nil
    have "find_char (CHR '';'') ?h = None" using h by (simp add: find_char_None)
    with Nil t s show ?thesis by (simp add: chunk_size_def Let_def)
  next
    case (Cons x r)
    with assms(2) have "x = CHR '';''" by simp
    moreover obtain r' where "trim_ascii (?h @ CHR '';'' # r) = ?h @ CHR '';'' # r'"
      using trim_ascii_prefix [of ?h "CHR '';''" r] h by (auto simp: is_ows_def)
    moreover have "find_char (CHR '';'') (?h @ CHR '';'' # r') = Some (length ?h)"
      using h by (intro find_char_append)
    ultimately show ?thesis using Cons t s by (simp add: chunk_size_def Let_def)
  qed
qed

lemma decode_step_encoded:
  assumes "chunk_ok (maximum d) (ext, c)" and "maximum d < 2 ^ 63" and "remaining d = None"
    and "buffer d = encode_chunk (ext, c) @ r"
  shows "decode_step d = Inr (Some c, d\<lparr>buffer := r\<rparr>)"
proof -
  let ?line = "digits 16 (length c) @ ext"
  have b: "buffer d = ?line @ crlf @ (c @ crlf @ r)" using assms(4) by (simp add: encode_chunk_def)
  have "CHR 0x0D \<notin> set ?line" using assms(1) digits16_no_cr by (auto simp: chunk_ok_def)
  then have "find_str crlf (buffer d) = Some (length ?line)"
    unfolding b by (rule find_str_crlf)
  moreover have "take (length ?line) (buffer d) = ?line"
    and "drop (length ?line + 2) (buffer d) = c @ crlf @ r" by (simp_all add: b)
  moreover have "chunk_size ?line = Inr (length c)"
    using assms(1,2) by (intro chunk_size_digits) (auto simp: chunk_ok_def)
  ultimately have "open_chunk d = Inr (False, d\<lparr>buffer := c @ crlf @ r, remaining := Some (length c)\<rparr>)"
    using assms(1,3) by (auto simp: open_chunk_def chunk_ok_def Let_def)
  moreover have "sz (length c + 2) = length c + 2"
    using assms(1,2) by (intro sz_id) (auto simp: chunk_ok_def)
  ultimately show ?thesis using assms(3) by (simp add: decode_step_def take_chunk_def)
qed

lemma decode_loop_encoded:
  "\<forall>p \<in> set cs. chunk_ok (maximum d) p \<Longrightarrow> maximum d < 2 ^ 63 \<Longrightarrow> remaining d = None \<Longrightarrow>
   \<not> finished d \<Longrightarrow> buffer d = encode_body cs rest \<Longrightarrow>
   decode_loop d = Inr (map snd cs, d\<lparr>buffer := rest, finished := True\<rparr>)"
proof (induction cs arbitrary: d)
  case Nil
  have "digits 16 0 = ''0''" by code_simp
  then have "chunk_size ''0'' = Inr 0" using chunk_size_digits [of 0 "[]"] by simp
  moreover have "find_str crlf (''0'' @ crlf @ rest) = Some 1" using find_str_crlf [of "''0''" rest] by simp
  ultimately have "decode_step d = Inr (None, d\<lparr>buffer := rest, finished := True\<rparr>)"
    using Nil.prems by (simp add: decode_step_def open_chunk_def encode_body_def)
  with Nil.prems show ?case by (simp add: decode_loop.simps [of d])
next
  case (Cons p cs)
  obtain ext c where p: "p = (ext, c)" by (cases p)
  have "decode_step d = Inr (Some c, d\<lparr>buffer := encode_body cs rest\<rparr>)"
    using Cons.prems p by (intro decode_step_encoded) (auto simp: encode_body_def)
  moreover have "decode_loop (d\<lparr>buffer := encode_body cs rest\<rparr>) =
      Inr (map snd cs, d\<lparr>buffer := rest, finished := True\<rparr>)"
    using Cons.IH [of "d\<lparr>buffer := encode_body cs rest\<rparr>"] Cons.prems by simp
  ultimately show ?case using Cons.prems p by (simp add: decode_loop.simps [of d])
qed

lemma feed_encoded:
  assumes "m < 2 ^ 63" and "\<forall>p \<in> set cs. chunk_ok m p" and "data = encode_body cs rest"
    and "length data \<le> m + 1024 * 1024"
  shows "feed (new_decoder m) data = Inr (map snd cs, (new_decoder m)\<lparr>buffer := rest, finished := True\<rparr>)"
proof -
  have "decode_loop (more_data (new_decoder m) data) =
      Inr (map snd cs, (more_data (new_decoder m) data)\<lparr>buffer := rest, finished := True\<rparr>)"
    using assms by (intro decode_loop_encoded) (simp_all add: new_decoder_def more_data_def)
  moreover have "sz (m + 1024 * 1024) = m + 1024 * 1024" using assms(1) by (intro sz_id) simp
  ultimately show ?thesis using assms(4) by (simp add: feed_Inr new_decoder_def more_data_def)
qed

section \<open>Properties\<close>

text \<open>
  C19. Segmentation does not matter and the decoder inverts the chunked coding: a body coded as
  chunks (with any extensions) and delivered in any pieces decodes to exactly its chunks, the
  decoder is complete, and the bytes after the last size line stay in the buffer.
\<close>

theorem chunked_body_decodes:
  assumes "m < 2 ^ 63" and "\<forall>p \<in> set cs. chunk_ok m p"
    and "concat segments = encode_body cs rest" and "length (encode_body cs rest) \<le> m + 1024 * 1024"
  shows "\<exists>d. feed_all feed (new_decoder m) segments = Inr (map snd cs, d)
             \<and> complete d \<and> buffer d = rest"
proof -
  have "feed (new_decoder m) (concat segments) =
      Inr (map snd cs, (new_decoder m)\<lparr>buffer := rest, finished := True\<rparr>)"
    using assms by (intro feed_encoded) simp_all
  moreover have "segments \<noteq> []" using assms(3) by (auto simp: encode_body_def)
  moreover have "decoder_wf (new_decoder m)" using assms(1) by simp
  ultimately have "feed_all feed (new_decoder m) segments =
      Inr (map snd cs, (new_decoder m)\<lparr>buffer := rest, finished := True\<rparr>)"
    by (intro decoder_stream.feed_segments)
  then show ?thesis by (simp add: complete_def)
qed

theorem chunked_body_decodes_witness:
  "\<exists>d. feed_all feed (new_decoder 10)
          [''3;x=1'' @ [CHR 0x0D], [CHR 0x0A] @ ''ab'', ''c'' @ crlf @ ''0'' @ crlf]
        = Inr ([''abc''], d) \<and> complete d \<and> buffer d = []"
proof -
  have "encode_body [('';x=1'', ''abc'')] [] =
      concat [''3;x=1'' @ [CHR 0x0D], [CHR 0x0A] @ ''ab'', ''c'' @ crlf @ ''0'' @ crlf]"
    by code_simp
  moreover have "\<forall>p \<in> set [('';x=1'', ''abc'')]. chunk_ok 10 p" by (simp add: chunk_ok_def)
  ultimately show ?thesis
    using chunked_body_decodes [of 10 "[('';x=1'', ''abc'')]"
        "[''3;x=1'' @ [CHR 0x0D], [CHR 0x0A] @ ''ab'', ''c'' @ crlf @ ''0'' @ crlf]" "[]"]
    by (simp add: crlf_def)
qed

text \<open>
  One call of \<open>Feed\<close> equals any two that split its data: the same chunks in the same order
  and the same decoder afterwards.
\<close>

theorem feed_cut:
  assumes "decoder_wf d" and "feed d (a @ b) = Inr (cs, d')"
  shows "\<exists>cs1 e cs2. feed d a = Inr (cs1, e) \<and> feed e b = Inr (cs2, d') \<and> cs = cs1 @ cs2"
  using decoder_stream.feed_split assms by blast

theorem feed_cut_witness:
  "\<exists>cs1 e cs2. feed (new_decoder 9) (''2'' @ crlf @ ''a'') = Inr (cs1, e)
      \<and> feed e (''b'' @ crlf @ ''0'' @ crlf) = Inr (cs2, (new_decoder 9)\<lparr>buffer := [], finished := True\<rparr>)
      \<and> [''ab''] = cs1 @ cs2"
proof -
  have "encode_body [([], ''ab'')] [] = (''2'' @ crlf @ ''a'') @ ''b'' @ crlf @ ''0'' @ crlf"
    by code_simp
  then have "feed (new_decoder 9) ((''2'' @ crlf @ ''a'') @ ''b'' @ crlf @ ''0'' @ crlf) =
      Inr ([''ab''], (new_decoder 9)\<lparr>buffer := [], finished := True\<rparr>)"
    using feed_encoded [of 9 "[([], ''ab'')]" _ "[]"] by (simp add: chunk_ok_def crlf_def)
  then show ?thesis using feed_cut [of "new_decoder 9"] by simp
qed

text \<open>
  C23. The memory the decoder holds is bounded by the caller's limit: after every successful
  \<open>Feed\<close> the invariant holds again, the buffer is at most the maximum plus 1 MiB, and every
  chunk handed out is non-empty and at most the maximum.
\<close>

theorem feed_bounded:
  assumes "decoder_wf d" and "feed d a = Inr (cs, d')"
  shows "decoder_wf d' \<and> maximum d' = maximum d \<and> length (buffer d') \<le> maximum d + 1024 * 1024
         \<and> (\<forall>c \<in> set cs. c \<noteq> [] \<and> length c \<le> maximum d)"
proof -
  have "sz (maximum d + 1024 * 1024) = maximum d + 1024 * 1024"
    using assms(1) by (intro sz_id) (simp add: decoder_wf_def)
  then show ?thesis
    using decode_loop_frame [of "more_data d a" cs d'] assms by (auto simp: feed_Inr)
qed

theorem feed_bounded_witness:
  "decoder_wf ((new_decoder 9)\<lparr>buffer := ''xy'', finished := True\<rparr>)
     \<and> length (buffer ((new_decoder 9)\<lparr>buffer := ''xy'', finished := True\<rparr>)) \<le> 9 + 1024 * 1024 \<and> length ''ab'' \<le> 9"
proof -
  have "feed (new_decoder 9) (encode_body [([], ''ab'')] ''xy'') =
      Inr ([''ab''], (new_decoder 9)\<lparr>buffer := ''xy'', finished := True\<rparr>)"
    using feed_encoded [of 9 "[([], ''ab'')]" _ "''xy''"]
    by (simp add: chunk_ok_def encode_body_def encode_chunk_def crlf_def digits.simps)
  moreover have "decoder_wf (new_decoder 9)" by simp
  ultimately show ?thesis using feed_bounded [of "new_decoder 9"] by (fastforce simp: new_decoder_def)
qed

text \<open>
  The size line is read by \<open>std::stoull\<close>, which takes a sign: a minus sign before the
  hexadecimal digits is accepted and negates modulo $2^{64}$, so a line no grammar of HTTP
  allows opens a chunk of any size.
\<close>

theorem chunk_size_negative:
  assumes "0 < n" and "n < 2 ^ 64"
  shows "chunk_size (CHR ''-'' # digits 16 (2 ^ 64 - n)) = Inr n"
proof -
  let ?h = "digits 16 (2 ^ 64 - n)"
  have h: "CHR '';'' \<notin> set ?h" and l: "\<not> is_ows (last ?h)"
    using digits16_no_ows [OF last_in_set] digits16_no_ows by auto
  have "trim_ascii (CHR ''-'' # ?h) = CHR ''-'' # ?h"
    using l by (intro trim_ascii_id) (auto simp: is_ows_def)
  moreover have "find_char (CHR '';'') (CHR ''-'' # ?h) = None"
    using h by (simp add: find_char_None)
  moreover have "stoull 16 (CHR ''-'' # ?h) = Inr (n, length (CHR ''-'' # ?h))"
  proof -
    have "strip_sign (dropWhile is_space (CHR ''-'' # ?h)) = (True, ?h)"
      by (simp add: strip_sign_def is_space_def byte_def)
    moreover have "scan_num 16 0 ?h = (2 ^ 64 - n, [])"
      using scan_num_append_digits [of 16 0 "2 ^ 64 - n" "[]"] by simp
    ultimately show ?thesis
      using assms strip_digits(2) [of 16 "2 ^ 64 - n"]
      by (simp add: stoull_def strtoull_def Let_def del: dropWhile.simps)
  qed
  ultimately show ?thesis by (simp add: chunk_size_def Let_def)
qed

theorem chunk_size_negative_witness:
  "chunk_size (CHR ''-'' # digits 16 18446744073709551615) = Inr 1"
  using chunk_size_negative [of 1] by simp

end
