(* ===== verification/HttpResponse.thy ===== *)
theory HttpResponse imports CppString begin

text \<open>
  The client's view of a response (\<open>main.cpp\<close>): the record \<open>HttpResponse\<close>, the parser of
  the status line and of the header block (\<open>ParseResponseHeaders\<close>), the header lookup
  (\<open>ResponseHeader\<close>) and the table \<open>PushResponse\<close> builds for Lua. The stream extraction
  operators are those of the C++ library in the C locale.
\<close>

record http_response =
  resp_body :: string
  raw_headers :: string
  resp_version :: string
  resp_reason :: string
  resp_headers :: "(string \<times> string) list"
  resp_status :: int
  bytes_received :: nat
  elapsed_ms :: int

definition empty_response :: http_response where
  "empty_response = \<lparr>resp_body = [], raw_headers = [], resp_version = [], resp_reason = [],
     resp_headers = [], resp_status = 0, bytes_received = 0, elapsed_ms = 0\<rparr>"

section \<open>The status line\<close>

text \<open>
  \<open>status >> version >> status\<close> and \<open>getline\<close>: a word, then a number, then the rest up to a
  newline. An extraction that fails leaves the number 0 (or clamped to the range of \<open>int\<close>)
  and the reason empty.
\<close>

definition parse_status_line :: "string \<Rightarrow> string \<times> int \<times> string" where
  "parse_status_line line =
     (let s = dropWhile is_space line;
          ver = takeWhile (\<lambda>c. \<not> is_space c) s;
          (neg, digs) = strip_sign (dropWhile is_space (drop (length ver) s));
          (v, rest) = scan_num 10 0 digs;
          i = (if neg then - int v else int v)
      in if ver = [] \<or> length rest = length digs then (ver, 0, [])
         else if i < - (2 ^ 31) then (ver, - (2 ^ 31), [])
         else if 2 ^ 31 \<le> i then (ver, 2 ^ 31 - 1, [])
         else (ver, i, takeWhile (\<lambda>c. c \<noteq> CHR 0x0A) rest))"

section \<open>The header block\<close>

definition parse_header_line :: "string \<Rightarrow> (string \<times> string) option" where
  "parse_header_line line =
     (case find_char (CHR '':'') line of
        None \<Rightarrow> None
      | Some colon \<Rightarrow>
          Some (lower_ascii (trim_ascii (take colon line)), trim_ascii (drop (colon + 1) line)))"

definition parse_response_headers :: "string \<Rightarrow> http_response \<Rightarrow> http_response result" where
  "parse_response_headers block r =
     (let first_end = find_str crlf block;
          status_line = (case first_end of Some i \<Rightarrow> take i block | None \<Rightarrow> block);
          (ver, st, reason) = parse_status_line status_line;
          rest = (case first_end of Some i \<Rightarrow> drop (i + 2) block | None \<Rightarrow> [])
      in if \<not> starts_with ver ''HTTP/'' \<or> st < 100 \<or> 999 < st
         then Inl (Runtime_Error (''invalid HTTP response status line: '' @ status_line))
         else Inr (r\<lparr>raw_headers := block, resp_version := ver, resp_status := st,
                resp_reason := trim_ascii reason,
                resp_headers := resp_headers r @ List.map_filter parse_header_line (split_lines rest)\<rparr>))"

fun lookup_header :: "(string \<times> string) list \<Rightarrow> string \<Rightarrow> string" where
  "lookup_header [] name = []"
| "lookup_header ((k, v) # hs) name = (if k = name then v else lookup_header hs name)"

definition response_header :: "http_response \<Rightarrow> string \<Rightarrow> string" where
  "response_header r name = lookup_header (resp_headers r) name"

section \<open>The Lua table of a response\<close>

text \<open>
  The \<open>headers\<close> table: a repeated name is joined with a comma, in the order received. Keys go
  through \<open>c_str\<close>, and so does the value read back before it is joined. \<open>header_list\<close> keeps
  every header in order.
\<close>

fun push_headers :: "(string \<times> string) list \<Rightarrow> (string \<rightharpoonup> string) \<Rightarrow> (string \<rightharpoonup> string)" where
  "push_headers [] m = m"
| "push_headers ((k, v) # hs) m =
     push_headers hs
       (m(c_str k \<mapsto> (case m (c_str k) of None \<Rightarrow> v | Some prior \<Rightarrow> c_str prior @ '', '' @ v)))"

record response_table =
  tab_body :: "string option"
  tab_status :: int
  tab_ok :: bool
  tab_version :: string
  tab_reason :: string
  tab_raw_headers :: string
  tab_bytes_received :: nat
  tab_elapsed_ms :: int
  tab_headers :: "string \<rightharpoonup> string"
  tab_header_list :: "(string \<times> string) list"

definition push_response :: "http_response \<Rightarrow> bool \<Rightarrow> response_table" where
  "push_response r include_body =
     \<lparr>tab_body = (if include_body then Some (resp_body r) else None),
      tab_status = resp_status r,
      tab_ok = (200 \<le> resp_status r \<and> resp_status r < 300),
      tab_version = resp_version r, tab_reason = resp_reason r, tab_raw_headers = raw_headers r,
      tab_bytes_received = bytes_received r, tab_elapsed_ms = elapsed_ms r,
      tab_headers = push_headers (resp_headers r) Map.empty,
      tab_header_list = resp_headers r\<rparr>"

section \<open>Lemmas\<close>

lemma parse_response_headers_status:
  "parse_response_headers b r = Inr r' \<Longrightarrow>
     100 \<le> resp_status r' \<and> resp_status r' \<le> 999 \<and> prefix ''HTTP/'' (resp_version r')
       \<and> raw_headers r' = b \<and> resp_body r' = resp_body r \<and> bytes_received r' = bytes_received r"
  by (auto simp: parse_response_headers_def Let_def starts_with_def split: prod.splits if_splits)

lemma parse_status_line_render:
  assumes "ver \<noteq> []" and "\<forall>c \<in> set ver. \<not> is_space c" and "n < 2 ^ 31"
    and "CHR 0x0A \<notin> set reason"
  shows "parse_status_line (ver @ '' '' @ nat_str n @ '' '' @ reason) = (ver, int n, '' '' @ reason)"
proof -
  let ?line = "ver @ '' '' @ nat_str n @ '' '' @ reason"
  obtain c v where v: "ver = c # v" using assms(1) by (cases ver) auto
  have d: "dropWhile is_space ?line = ?line" using assms(2) by (simp add: v)
  have t: "takeWhile (\<lambda>c. \<not> is_space c) ?line = ver"
    using assms(2) by (simp add: takeWhile_append)
  obtain e w where e: "nat_str n = e # w" by (cases "nat_str n") (auto simp: nat_str_def)
  have "\<exists>d < 10. digit_val e = Some d" using digits_digit [of 10 e n] e by (simp add: nat_str_def)
  then have es: "\<not> is_space e" "e \<noteq> CHR ''-''" "e \<noteq> CHR ''+''"
    using digit_val_not_space digit_val_not_sign by blast+
  have s: "strip_sign (dropWhile is_space ('' '' @ nat_str n @ '' '' @ reason)) =
      (False, nat_str n @ '' '' @ reason)"
    using es by (simp add: e strip_sign_def)
  have "scan_num 10 0 (nat_str n @ '' '' @ reason) = scan_num 10 n ('' '' @ reason)"
    using scan_num_append_digits [of 10 0 n] by (simp add: nat_str_def)
  also have "\<dots> = (n, '' '' @ reason)" by (simp add: digit_val_def byte_def)
  finally have c: "scan_num 10 0 (nat_str n @ '' '' @ reason) = (n, '' '' @ reason)" .
  have "takeWhile (\<lambda>c. c \<noteq> CHR 0x0A) ('' '' @ reason) = '' '' @ reason"
    using assms(4) by (auto simp: takeWhile_eq_all_conv)
  then show ?thesis
    using d t s c assms(1,3)
    by (simp only: parse_status_line_def Let_def) (auto simp: nat_str_def)
qed

lemma lookup_header_mem: "lookup_header hs n \<noteq> [] \<Longrightarrow> (n, lookup_header hs n) \<in> set hs"
  by (induction hs n rule: lookup_header.induct) (auto split: if_splits)

end
