(* ===== verification/LuaValue.thy ===== *)
theory LuaValue imports Complex_Main CppString begin

text \<open>
  The Lua values the binding reads. Lua is not part of the repository: the conversions its API
  performs between numbers, strings and integers are the fields of \<open>lua_api\<close>, a parameter of
  every definition that needs them. A table is the list of its pairs in the order \<open>lua_next\<close>
  yields them. On top of these stand the four option readers of \<open>main.cpp\<close>.
\<close>

datatype lua_num = Finite rat | Infinite bool | NaN

datatype lua_value =
    Lua_Nil
  | Lua_Boolean bool
  | Lua_Number lua_num
  | Lua_String string
  | Lua_Table "(lua_value \<times> lua_value) list"
  | Lua_Function nat
  | Lua_Userdata nat

record lua_api =
  num_text :: "lua_num \<Rightarrow> string"
  text_num :: "string \<Rightarrow> lua_num option"
  num_int :: "lua_num \<Rightarrow> int"

definition is_string :: "lua_value \<Rightarrow> bool" where
  "is_string v = (case v of Lua_String s \<Rightarrow> True | Lua_Number n \<Rightarrow> True | _ \<Rightarrow> False)"

definition as_number :: "lua_api \<Rightarrow> lua_value \<Rightarrow> lua_num option" where
  "as_number api v =
     (case v of Lua_Number n \<Rightarrow> Some n | Lua_String s \<Rightarrow> text_num api s | _ \<Rightarrow> None)"

definition is_number :: "lua_api \<Rightarrow> lua_value \<Rightarrow> bool" where
  "is_number api v \<longleftrightarrow> as_number api v \<noteq> None"

definition to_integer :: "lua_api \<Rightarrow> lua_value \<Rightarrow> int" where
  "to_integer api v = (case as_number api v of Some n \<Rightarrow> num_int api n | None \<Rightarrow> 0)"

text \<open>\<open>lua_tolstring\<close>: the bytes of a string or of a number's text, a null pointer otherwise.\<close>

definition to_lstring :: "lua_api \<Rightarrow> lua_value \<Rightarrow> string option" where
  "to_lstring api v =
     (case v of Lua_String s \<Rightarrow> Some s | Lua_Number n \<Rightarrow> Some (num_text api n) | _ \<Rightarrow> None)"

definition get_field :: "(lua_value \<times> lua_value) list \<Rightarrow> string \<Rightarrow> lua_value" where
  "get_field t k = (case map_of t (Lua_String k) of Some v \<Rightarrow> v | None \<Rightarrow> Lua_Nil)"

definition to_boolean :: "lua_value \<Rightarrow> bool" where
  "to_boolean v = (case v of Lua_Nil \<Rightarrow> False | Lua_Boolean b \<Rightarrow> b | _ \<Rightarrow> True)"

text \<open>Narrowing a \<open>long long\<close> to \<open>int\<close>.\<close>

definition to_int32 :: "int \<Rightarrow> int" where
  "to_int32 i = (i + 2 ^ 31) mod 2 ^ 32 - 2 ^ 31"

lemma to_int32_range: "- (2 ^ 31) \<le> to_int32 i \<and> to_int32 i < 2 ^ 31"
  using pos_mod_bound [of "2 ^ 32" "i + 2 ^ 31"] pos_mod_sign [of "2 ^ 32" "i + 2 ^ 31"]
  by (simp add: to_int32_def)

lemma to_int32_id: "- (2 ^ 31) \<le> i \<Longrightarrow> i < 2 ^ 31 \<Longrightarrow> to_int32 i = i"
  by (simp add: to_int32_def)

section \<open>Reading options\<close>

text \<open>The option argument: \<open>None\<close> when there is none (index 0) or it is no table.\<close>

type_synonym option_table = "(lua_value \<times> lua_value) list option"

definition request_integer :: "lua_api \<Rightarrow> option_table \<Rightarrow> string \<Rightarrow> int \<Rightarrow> int" where
  "request_integer api t name fallback =
     (case t of
        None \<Rightarrow> fallback
      | Some t \<Rightarrow>
          (let v = get_field t name in if is_number api v then to_integer api v else fallback))"

definition request_boolean :: "option_table \<Rightarrow> string \<Rightarrow> bool \<Rightarrow> bool" where
  "request_boolean t name fallback =
     (case t of
        None \<Rightarrow> fallback
      | Some t \<Rightarrow> (case get_field t name of Lua_Boolean b \<Rightarrow> b | _ \<Rightarrow> fallback))"

definition request_optional_boolean :: "option_table \<Rightarrow> string \<Rightarrow> bool option" where
  "request_optional_boolean t name =
     (case t of
        None \<Rightarrow> None
      | Some t \<Rightarrow> (case get_field t name of Lua_Boolean b \<Rightarrow> Some b | _ \<Rightarrow> None))"

definition request_string :: "lua_api \<Rightarrow> option_table \<Rightarrow> string \<Rightarrow> string" where
  "request_string api t name =
     (case t of
        None \<Rightarrow> []
      | Some t \<Rightarrow> (case to_lstring api (get_field t name) of Some s \<Rightarrow> c_str s | None \<Rightarrow> []))"

lemma request_defaults [simp]:
  "request_integer api None n i = i"
  "request_boolean None n b = b"
  "request_optional_boolean None n = None"
  "request_string api None n = []"
  by (simp_all add: request_integer_def request_boolean_def request_optional_boolean_def
      request_string_def)

end
