(* ===== verification/HttpMessage.thy ===== *)
theory HttpMessage imports LuaValue HttpResponse begin

text \<open>
  The two message builders of \<open>main.cpp\<close>, \<open>RequestBuilder\<close> and \<open>ResponseBuilder\<close>, and
  \<open>ListenerContext::lua_Build\<close>, each as the string it returns. A header value or name that is
  neither a string nor a number is a null pointer appended to a \<open>std::string\<close>, and a number as a
  name changes the key \<open>lua_next\<close> iterates over: both are \<open>Undefined\<close>. The lemmas show the text
  each builder makes and that the client's parsers read a built response back.
\<close>

definition header_line :: "lua_api \<Rightarrow> lua_value \<times> lua_value \<Rightarrow> string result" where
  "header_line api p =
     (case p of (k, v) \<Rightarrow>
        (case (k, to_lstring api v) of
           (Lua_String name, Some text) \<Rightarrow> Inr (c_str name @ '': '' @ c_str text @ crlf)
         | _ \<Rightarrow> Inl Undefined))"

fun header_lines :: "lua_api \<Rightarrow> (lua_value \<times> lua_value) list \<Rightarrow> string result" where
  "header_lines api [] = Inr []"
| "header_lines api (p # ps) =
     bind_result (header_line api p) (\<lambda>l. bind_result (header_lines api ps) (\<lambda>ls. Inr (l @ ls)))"

definition body_part :: "lua_value \<Rightarrow> string" where
  "body_part v =
     (case v of
        Lua_String b \<Rightarrow> ''Content-Length: '' @ nat_str (length b) @ crlf2 @ b
      | _ \<Rightarrow> crlf)"

definition request_builder :: "lua_api \<Rightarrow> string \<Rightarrow> lua_value \<Rightarrow> string result" where
  "request_builder api host v =
     (case to_lstring api v of
        Some s \<Rightarrow> Inr (c_str s)
      | None \<Rightarrow>
          (case v of
             Lua_Table t \<Rightarrow>
               (let r1 = (case get_field t ''method'' of
                            Lua_String m \<Rightarrow> if c_str m = [] then [] else c_str m @ '' ''
                          | _ \<Rightarrow> ''GET '');
                    r2 = (case get_field t ''path'' of
                            Lua_String p \<Rightarrow>
                              if r1 @ c_str p = [] then [] else r1 @ c_str p @ '' ''
                          | _ \<Rightarrow> r1 @ ''/ '');
                    r3 = r2 @ (case get_field t ''version'' of
                            Lua_String w \<Rightarrow> c_str w @ crlf
                          | _ \<Rightarrow> ''HTTP/1.1'' @ crlf);
                    r4 = r3 @ ''Host: '' @ host @ crlf
                in bind_result
                     (case get_field t ''headers'' of
                        Lua_Table hs \<Rightarrow> header_lines api hs
                      | Lua_String h \<Rightarrow> Inr (c_str h @ crlf)
                      | _ \<Rightarrow> Inr (''Accept: */*'' @ crlf))
                     (\<lambda>hs. Inr (r4 @ hs @ body_part (get_field t ''body''))))
           | _ \<Rightarrow> Inl (Lua_Error ''attempt to index'')))"

definition response_builder :: "lua_api \<Rightarrow> (lua_value \<times> lua_value) list \<Rightarrow> string result" where
  "response_builder api t =
     (let r1 = (case get_field t ''version'' of
                  Lua_String w \<Rightarrow> c_str w @ '' ''
                | _ \<Rightarrow> ''HTTP/1.1 '');
          st = get_field t ''status'';
          r2 = r1 @ (if is_number api st then int_str (to_integer api st) @ '' '' else ''200 '');
          r3 = r2 @ (case get_field t ''reason'' of
                  Lua_String w \<Rightarrow> c_str w @ crlf
                | _ \<Rightarrow> ''OK'' @ crlf)
      in bind_result
           (case get_field t ''headers'' of Lua_Table hs \<Rightarrow> header_lines api hs | _ \<Rightarrow> Inr [])
           (\<lambda>hs. Inr (r3 @ hs @ body_part (get_field t ''body''))))"

text \<open>\<open>lua_Build\<close>: the first argument, after the connection's userdata has been removed.\<close>

definition lua_build :: "lua_api \<Rightarrow> lua_value list \<Rightarrow> string result" where
  "lua_build api args =
     (let args' = (case args of Lua_Userdata u # r \<Rightarrow> r | _ \<Rightarrow> args)
      in case args' of
           Lua_Table t # _ \<Rightarrow> response_builder api t
         | v # _ \<Rightarrow>
             (case to_lstring api v of
                Some s \<Rightarrow> Inr (''HTTP/1.1 200 OK'' @ crlf @ ''Content-Length: '' @ nat_str (length s)
                               @ crlf2 @ c_str s)
              | None \<Rightarrow> Inr (''HTTP/1.1 500 Internal Server Error'' @ crlf @ ''Content-Length: 0'' @ crlf2))
         | [] \<Rightarrow> Inr (''HTTP/1.1 500 Internal Server Error'' @ crlf @ ''Content-Length: 0'' @ crlf2))"

section \<open>Reading a built response back\<close>

text \<open>
  A header is clean when it survives the wire: a non-empty name without blanks at its ends and
  without colon, CR or NUL, and a non-empty value without blanks at its ends, CR or NUL.
\<close>

definition clean_text :: "string \<Rightarrow> bool" where
  "clean_text s \<longleftrightarrow> s \<noteq> [] \<and> \<not> is_ows (hd s) \<and> \<not> is_ows (last s)
     \<and> CHR 0x0D \<notin> set s \<and> CHR 0x00 \<notin> set s"

definition clean_header :: "string \<times> string \<Rightarrow> bool" where
  "clean_header h \<longleftrightarrow> clean_text (fst h) \<and> CHR '':'' \<notin> set (fst h) \<and> clean_text (snd h)"

definition lua_headers :: "(string \<times> string) list \<Rightarrow> (lua_value \<times> lua_value) list" where
  "lua_headers hs = map (\<lambda>(k, v). (Lua_String k, Lua_String v)) hs"

definition header_text :: "string \<times> string \<Rightarrow> string" where
  "header_text h = fst h @ '': '' @ snd h"

lemma header_lines_clean:
  "\<forall>h \<in> set hs. clean_header h \<Longrightarrow>
   header_lines api (lua_headers hs) = Inr (concat (map (\<lambda>h. header_text h @ crlf) hs))"
  by (induction hs)
    (auto simp: lua_headers_def header_line_def header_text_def to_lstring_def clean_header_def clean_text_def)

lemma header_text_no_cr: "clean_header h \<Longrightarrow> CHR 0x0D \<notin> set (header_text h)"
  by (auto simp: header_text_def clean_header_def clean_text_def)

lemma trim_clean: "clean_text s \<Longrightarrow> trim_ascii s = s"
  by (simp add: clean_text_def trim_ascii_id)

lemma trim_blank_clean: "clean_text s \<Longrightarrow> trim_ascii (CHR '' '' # s) = s"
  using trim_ascii_frame [of "'' ''" "[]" s] by (simp add: clean_text_def is_ows_def)

lemma parse_header_text:
  assumes "clean_header h"
  shows "parse_header_line (header_text h) = Some (lower_ascii (fst h), snd h)"
proof -
  have "find_char (CHR '':'') (fst h @ CHR '':'' # ('' '' @ snd h)) = Some (length (fst h))"
    using assms by (intro find_char_append) (simp add: clean_header_def)
  then show ?thesis
    using assms by (simp add: parse_header_line_def header_text_def clean_header_def
        trim_clean trim_blank_clean)
qed

lemma parse_header_texts:
  "\<forall>h \<in> set hs. clean_header h \<Longrightarrow>
   List.map_filter parse_header_line (map header_text hs) = map (\<lambda>(k, v). (lower_ascii k, v)) hs"
  by (induction hs) (auto simp: parse_header_text map_filter_simps)

lemma split_header_block:
  assumes "\<forall>h \<in> set hs. clean_header h" and "clean_header h0"
  shows "split_lines (concat (map (\<lambda>h. header_text h @ crlf) hs) @ header_text h0) =
           map header_text (hs @ [h0])"
proof -
  let ?ls = "map header_text hs"
  have "concat (map (\<lambda>h. header_text h @ crlf) hs) = concat (map (\<lambda>l. l @ crlf) ?ls)"
    by (simp add: comp_def)
  moreover have "split_lines (concat (map (\<lambda>l. l @ crlf) ?ls) @ header_text h0) =
      ?ls @ split_lines (header_text h0)"
    using assms(1) by (intro split_lines_join) (auto dest: header_text_no_cr)
  moreover have "split_lines (header_text h0) = [header_text h0]"
    using assms(2) by (intro split_lines_last header_text_no_cr) (simp_all add: header_text_def)
  ultimately show ?thesis by simp
qed

text \<open>Lines without CR, none of them empty, hold no blank line before the one that ends them.\<close>

lemma find_crlf2_line:
  assumes "CHR 0x0D \<notin> set l" and "\<not> prefix crlf s"
  shows "find_str crlf2 (l @ crlf @ s) = map_option ((+) (length l + 2)) (find_str crlf2 s)"
  using assms
proof (induction l)
  case Nil
  then show ?case
    by (simp add: crlf_def crlf2_def option.map_comp comp_def)
next
  case (Cons c l)
  then show ?case
    by (simp add: crlf2_def option.map_comp comp_def)
qed

definition line_ok :: "string \<Rightarrow> bool" where
  "line_ok l \<longleftrightarrow> l \<noteq> [] \<and> CHR 0x0D \<notin> set l"

lemma find_crlf2_lines:
  "\<forall>l \<in> set ls. line_ok l \<Longrightarrow>
     \<not> prefix crlf (concat (map (\<lambda>l. l @ crlf) ls) @ [CHR 0x0D])
     \<and> find_str crlf2 (concat (map (\<lambda>l. l @ crlf) ls) @ [CHR 0x0D]) = None"
proof (induction ls)
  case Nil
  then show ?case by (simp add: crlf_def crlf2_def)
next
  case (Cons l ls)
  let ?s = "concat (map (\<lambda>l. l @ crlf) ls) @ [CHR 0x0D]"
  have s: "\<not> prefix crlf ?s" "find_str crlf2 ?s = None" using Cons by auto
  obtain c l' where l: "l = c # l'" "c \<noteq> CHR 0x0D" "CHR 0x0D \<notin> set l"
    using Cons.prems by (cases l) (auto simp: line_ok_def)
  have "find_str crlf2 (l @ crlf @ ?s) = None"
    using find_crlf2_line [OF l(3) s(1)] s(2) by simp
  with l show ?case by (simp add: crlf_def)
qed

lemma find_header_end:
  assumes "\<forall>l \<in> set ls. line_ok l" and "line_ok l0"
  shows "find_str crlf2 ((concat (map (\<lambda>l. l @ crlf) ls) @ l0) @ crlf2 @ body) =
           Some (length (concat (map (\<lambda>l. l @ crlf) ls) @ l0))"
proof (intro find_str_first)
  show "crlf2 \<noteq> []" by (simp add: crlf2_def)
  have "find_str crlf2 (concat (map (\<lambda>l. l @ crlf) (ls @ [l0])) @ [CHR 0x0D]) = None"
    using find_crlf2_lines [of "ls @ [l0]"] assms by auto
  then show "find_str crlf2 ((concat (map (\<lambda>l. l @ crlf) ls) @ l0) @ butlast crlf2) = None"
    by (simp add: crlf_def crlf2_def)
qed

lemma header_text_ok: "clean_header h \<Longrightarrow> line_ok (header_text h)"
  using header_text_no_cr by (auto simp: line_ok_def header_text_def)

section \<open>The response round trip\<close>

definition response_table_of ::
    "int \<Rightarrow> string \<Rightarrow> (string \<times> string) list \<Rightarrow> string \<Rightarrow> (lua_value \<times> lua_value) list" where
  "response_table_of st reason hs body =
     [(Lua_String ''status'', Lua_Number (Finite (of_int st))), (Lua_String ''reason'', Lua_String reason),
      (Lua_String ''headers'', Lua_Table (lua_headers hs)), (Lua_String ''body'', Lua_String body)]"

definition content_length :: "string \<Rightarrow> string \<times> string" where
  "content_length body = (''Content-Length'', nat_str (length body))"

lemma nat_str_digit:
  assumes "c \<in> set (nat_str n)"
  shows "\<not> is_ows c \<and> c \<noteq> CHR 0x0D \<and> c \<noteq> CHR 0x00"
proof -
  have "\<exists>d < 10. digit_val c = Some d" using digits_digit [of 10 c n] assms by (simp add: nat_str_def)
  then have "\<not> is_ows c" and "\<not> is_space c" and "digit_val c \<noteq> None"
    using digit_val_not_ows digit_val_not_space by blast+
  then show ?thesis by (auto simp: is_ows_def digit_val_def byte_def)
qed

lemma nat_str_not_Nil [simp]: "nat_str n \<noteq> []"
  by (simp add: nat_str_def)

lemma clean_content_length: "clean_header (content_length body)"
proof -
  have "\<not> is_ows (hd (nat_str n)) \<and> \<not> is_ows (last (nat_str n))
      \<and> CHR 0x0D \<notin> set (nat_str n) \<and> CHR 0x00 \<notin> set (nat_str n)" for n
    using nat_str_digit [of _ n] by (metis hd_in_set last_in_set nat_str_not_Nil)
  then show ?thesis
    by (simp add: clean_header_def content_length_def clean_text_def) (simp add: is_ows_def)
qed

lemma response_text:
  assumes "num_int api (Finite (of_int st)) = st" and "0 \<le> st" and "CHR 0x00 \<notin> set reason"
    and "\<forall>h \<in> set hs. clean_header h"
  shows "response_builder api (response_table_of st reason hs body) =
    Inr (''HTTP/1.1 '' @ nat_str (nat st) @ '' '' @ reason @ crlf
         @ concat (map (\<lambda>h. header_text h @ crlf) hs) @ header_text (content_length body) @ crlf2 @ body)"
  using assms
  by (simp add: response_builder_def response_table_of_def get_field_def is_number_def as_number_def
      to_integer_def header_lines_clean body_part_def int_str_def header_text_def content_length_def)

text \<open>A header block as it stands on the wire, and how a client reads it.\<close>

definition head_block :: "int \<Rightarrow> string \<Rightarrow> (string \<times> string) list \<Rightarrow> string \<times> string \<Rightarrow> string" where
  "head_block st reason hs h0 =
     ''HTTP/1.1 '' @ nat_str (nat st) @ '' '' @ reason @ crlf @ concat (map (\<lambda>h. header_text h @ crlf) hs) @ header_text h0"

lemma head_block_read:
  assumes "100 \<le> st" and "st \<le> 999" and "clean_text reason" and "CHR 0x0A \<notin> set reason"
    and "\<forall>h \<in> set hs. clean_header h" and "clean_header h0"
  shows "find_str crlf2 (head_block st reason hs h0 @ crlf2 @ body) = Some (length (head_block st reason hs h0))"
    and "parse_response_headers (head_block st reason hs h0) r = Inr (r\<lparr>raw_headers := head_block st reason hs h0,
      resp_version := ''HTTP/1.1'', resp_status := st, resp_reason := reason,
      resp_headers := resp_headers r @ map (\<lambda>(k, v). (lower_ascii k, v)) (hs @ [h0])\<rparr>)"
proof -
  let ?st = "''HTTP/1.1'' @ '' '' @ nat_str (nat st) @ '' '' @ reason"
  let ?rest = "concat (map (\<lambda>h. header_text h @ crlf) hs) @ header_text h0"
  have block: "head_block st reason hs h0 = ?st @ crlf @ ?rest" by (simp add: head_block_def)
  have ok: "line_ok ?st" using assms(3) nat_str_digit by (auto simp: line_ok_def clean_text_def)
  have oks: "\<forall>l \<in> set (?st # map header_text hs). line_ok l" using ok assms(5) header_text_ok by auto
  show "find_str crlf2 (head_block st reason hs h0 @ crlf2 @ body) = Some (length (head_block st reason hs h0))"
    unfolding block using find_header_end [OF oks header_text_ok [OF assms(6)], of body] by (simp add: comp_def)
  have first: "find_str crlf (?st @ crlf @ ?rest) = Some (length ?st)"
    using find_str_crlf ok unfolding line_ok_def by blast
  have line: "parse_status_line ?st = (''HTTP/1.1'', st, '' '' @ reason)"
    using parse_status_line_render [of "''HTTP/1.1''" "nat st" reason] assms(1,2,4)
    by (simp add: is_space_def byte_def)
  have hdrs: "List.map_filter parse_header_line (split_lines ?rest) = map (\<lambda>(k, v). (lower_ascii k, v)) (hs @ [h0])"
    using split_header_block [OF assms(5,6)] parse_header_texts [of "hs @ [h0]"] assms(5,6) by auto
  have cut: "take (length S) (S @ crlf @ R) = S" "drop (length S + 2) (S @ crlf @ R) = R" for S R
    by (simp_all add: crlf_def)
  show "parse_response_headers (head_block st reason hs h0) r = Inr (r\<lparr>raw_headers := head_block st reason hs h0,
      resp_version := ''HTTP/1.1'', resp_status := st, resp_reason := reason,
      resp_headers := resp_headers r @ map (\<lambda>(k, v). (lower_ascii k, v)) (hs @ [h0])\<rparr>)"
    using assms(1,2) trim_blank_clean [OF assms(3)]
    unfolding block parse_response_headers_def first option.case Let_def cut line prod.case hdrs
    by (simp add: starts_with_def)
qed

lemma built_response:
  assumes "num_int api (Finite (of_int st)) = st" and "100 \<le> st" and "st \<le> 999"
    and "clean_text reason" and "CHR 0x0A \<notin> set reason" and "\<forall>h \<in> set hs. clean_header h"
  shows "\<exists>block. response_builder api (response_table_of st reason hs body) = Inr (block @ crlf2 @ body)
    \<and> find_str crlf2 (block @ crlf2 @ body) = Some (length block)
    \<and> (\<forall>r. parse_response_headers block r = Inr (r\<lparr>raw_headers := block, resp_version := ''HTTP/1.1'', resp_status := st,
          resp_reason := reason,
          resp_headers := resp_headers r @ map (\<lambda>(k, v). (lower_ascii k, v)) (hs @ [content_length body])\<rparr>))"
proof -
  let ?block = "head_block st reason hs (content_length body)"
  have "response_builder api (response_table_of st reason hs body) = Inr (?block @ crlf2 @ body)"
    using response_text [of api st reason hs body] assms by (simp add: clean_text_def head_block_def)
  with head_block_read [OF assms(2-6) clean_content_length] show ?thesis by (intro exI [of _ ?block]) blast
qed

text \<open>
  C22. A response built by \<open>lua_Build\<close> is read back by the client: the first blank line ends the
  header block, \<open>ParseResponseHeaders\<close> gives the status, the reason and every header in order
  (names in lower case, the content length last), and what follows the block is the body, whatever
  bytes it has.
\<close>

theorem response_round_trip:
  assumes "num_int api (Finite (of_int st)) = st" and "100 \<le> st" and "st \<le> 999"
    and "clean_text reason" and "CHR 0x0A \<notin> set reason" and "\<forall>h \<in> set hs. clean_header h"
  shows "\<exists>text i r. response_builder api (response_table_of st reason hs body) = Inr text
    \<and> find_str crlf2 text = Some i
    \<and> parse_response_headers (take i text) empty_response = Inr r
    \<and> resp_status r = st \<and> resp_reason r = reason
    \<and> resp_headers r = map (\<lambda>(k, v). (lower_ascii k, v)) (hs @ [content_length body])
    \<and> drop (i + 4) text = body"
proof -
  obtain block where b: "response_builder api (response_table_of st reason hs body) = Inr (block @ crlf2 @ body)"
      "find_str crlf2 (block @ crlf2 @ body) = Some (length block)"
    and p: "\<And>r. parse_response_headers block r = Inr (r\<lparr>raw_headers := block, resp_version := ''HTTP/1.1'',
          resp_status := st, resp_reason := reason,
          resp_headers := resp_headers r @ map (\<lambda>(k, v). (lower_ascii k, v)) (hs @ [content_length body])\<rparr>)"
    using built_response [OF assms, of body] by blast
  then show ?thesis
    by (intro exI [of _ "block @ crlf2 @ body"] exI [of _ "length block"]) (simp add: empty_response_def crlf2_def)
qed

text \<open>An instance of the interface to Lua's numbers, for concrete runs.\<close>

definition demo_api :: lua_api where
  "demo_api = \<lparr>num_text = (\<lambda>n. case n of Finite q \<Rightarrow> int_str \<lfloor>q\<rfloor> | Infinite b \<Rightarrow> ''inf'' | NaN \<Rightarrow> ''nan''),
     text_num = (\<lambda>s. case stoull 10 s of Inr (v, n) \<Rightarrow> Some (Finite (of_nat v)) | Inl e \<Rightarrow> None),
     num_int = (\<lambda>n. case n of Finite q \<Rightarrow> \<lfloor>q\<rfloor> | _ \<Rightarrow> - (2 ^ 63))\<rparr>"

lemma demo_api_int [simp]: "num_int demo_api (Finite (of_int i)) = i"
  by (simp add: demo_api_def)

theorem response_round_trip_witness:
  "\<exists>text i r. response_builder demo_api (response_table_of 404 ''Not Found'' [(''X-A'', ''1 2'')] ''hi'') = Inr text
    \<and> find_str crlf2 text = Some i
    \<and> parse_response_headers (take i text) empty_response = Inr r
    \<and> resp_status r = 404 \<and> resp_reason r = ''Not Found''
    \<and> resp_headers r = map (\<lambda>(k, v). (lower_ascii k, v)) ([(''X-A'', ''1 2'')] @ [content_length ''hi''])
    \<and> drop (i + 4) text = ''hi''"
  using demo_api_int [of 404]
  by (intro response_round_trip) (simp_all add: clean_text_def clean_header_def is_ows_def)

end
