(* ===== verification/ByteStream.thy ===== *)
theory ByteStream imports CppString begin

text \<open>
  The contract of \<open>ISocketStream\<close> as its clients use it: a read returns the next bytes of what the
  peer has sent, never more than was asked for, and a write that reports success has handed over
  exactly the bytes given. \<open>recv s n m\<close> asks for at most \<open>n\<close> and at least \<open>m\<close> bytes and yields
  \<open>None\<close> on failure; \<open>incoming\<close> and \<open>outgoing\<close> are the two directions of the stream; \<open>ready\<close> holds
  while no earlier operation has failed.
\<close>

locale byte_stream =
  fixes recv :: "'s \<Rightarrow> nat \<Rightarrow> nat \<Rightarrow> string option \<times> 's"
    and send :: "'s \<Rightarrow> string \<Rightarrow> bool \<times> 's"
    and incoming :: "'s \<Rightarrow> string"
    and outgoing :: "'s \<Rightarrow> string"
    and ready :: "'s \<Rightarrow> bool"
  assumes recv_data:
      "ready s \<Longrightarrow> m \<le> n \<Longrightarrow> n < 2 ^ 31 \<Longrightarrow> recv s n m = (Some d, t) \<Longrightarrow>
        ready t \<and> incoming s = d @ incoming t \<and> length d \<le> n \<and> outgoing t = outgoing s"
    and recv_fail:
      "ready s \<Longrightarrow> m \<le> n \<Longrightarrow> n < 2 ^ 31 \<Longrightarrow> recv s n m = (None, t) \<Longrightarrow> outgoing t = outgoing s"
    and send_done:
      "ready s \<Longrightarrow> length d < 2 ^ 31 \<Longrightarrow> send s d = (True, t) \<Longrightarrow>
        ready t \<and> outgoing t = outgoing s @ d \<and> incoming t = incoming s"
    and send_fail:
      "ready s \<Longrightarrow> length d < 2 ^ 31 \<Longrightarrow> send s d = (False, t) \<Longrightarrow>
        \<exists>p. prefix p d \<and> outgoing t = outgoing s @ p"
begin

text \<open>Two reads in a row take two adjacent pieces.\<close>

lemma recv_adjacent:
  assumes "ready s" and "recv s a a = (Some d, t)" and "recv t b b = (Some e, u)"
    and "a < 2 ^ 31" and "b < 2 ^ 31"
  shows "incoming s = d @ e @ incoming u \<and> outgoing u = outgoing s \<and> ready u"
  using recv_data [OF assms(1) order.refl assms(4,2)] recv_data [OF _ order.refl assms(5,3)] by simp

text \<open>A write and the read of its answer.\<close>

lemma exchange:
  assumes "ready s" and "length q < 2 ^ 31" and "send s q = (True, t)"
    and "recv t n n = (Some d, u)" and "n < 2 ^ 31"
  shows "outgoing u = outgoing s @ q \<and> incoming s = d @ incoming u \<and> ready u"
  using send_done [OF assms(1,2,3)] recv_data [OF _ order.refl assms(5,4)] by simp

end

end
