(* ===== verification/BaseSock.thy ===== *)
theory BaseSock imports ByteStream begin

text \<open>
  \<open>CBaseSock\<close> (\<open>socket/BaseSock.cpp\<close>), the overlapped Winsock stream every connection runs on.
  The operating system is a script in the state: the clock readings, what each overlapped
  operation answers (\<open>io_answer\<close>) and what closing answers; \<open>wire\<close> is what the peer has sent
  and nobody has read, \<open>sent\<close> what this side has handed to the network. An exhausted script is a
  silent network: the operation stays pending and the wait times out. A read names the buffer by its
  address, because an overlapped read that is left pending keeps the buffer it was started with.
\<close>

section \<open>State\<close>

record io_answer =
  io_reset_error :: "nat option"
  io_started :: bool
  io_start_error :: nat
  io_wait :: nat
  io_wait_error :: nat
  io_done :: bool
  io_count :: nat
  io_done_error :: nat

definition wsa_io_pending :: nat where "wsa_io_pending = 997"
definition error_timeout :: nat where "error_timeout = 1460"
definition wait_timeout :: nat where "wait_timeout = 258"
definition wait_failed :: nat where "wait_failed = 4294967295"
definition wsaeconnreset :: nat where "wsaeconnreset = 10054"

definition silent_io :: io_answer where
  "silent_io = \<lparr>io_reset_error = None, io_started = False, io_start_error = wsa_io_pending,
     io_wait = wait_timeout, io_wait_error = 0, io_done = False, io_count = 0, io_done_error = 0\<rparr>"

record base_sock =
  actual_socket :: "nat option"
  last_error :: nat
  recv_initiated :: bool
  recv_target :: "nat \<times> nat"
  read_event :: "nat option"
  write_event :: "nat option"
  recv_end_time :: u32
  send_end_time :: u32
  recv_timer_automatic :: bool
  send_timer_automatic :: bool
  recv_timeout_seconds :: int
  send_timeout_seconds :: int
  clock :: "nat list"
  recv_answers :: "io_answer list"
  send_answers :: "io_answer list"
  close_answers :: "(bool \<times> bool \<times> bool \<times> nat) list"
  wire :: string
  sent :: string

definition new_sock :: base_sock where
  "new_sock = \<lparr>actual_socket = None, last_error = 0, recv_initiated = False, recv_target = (0, 0),
     read_event = None, write_event = None, recv_end_time = 0, send_end_time = 0,
     recv_timer_automatic = True, send_timer_automatic = True,
     recv_timeout_seconds = 1, send_timeout_seconds = 1,
     clock = [], recv_answers = [], send_answers = [], close_answers = [], wire = [], sent = []\<rparr>"

definition read_clock :: "base_sock \<Rightarrow> nat \<times> base_sock" where
  "read_clock s = (case clock s of [] \<Rightarrow> (0, s) | t # ts \<Rightarrow> (t, s\<lparr>clock := ts\<rparr>))"

definition next_recv :: "base_sock \<Rightarrow> io_answer \<times> base_sock" where
  "next_recv s = (case recv_answers s of [] \<Rightarrow> (silent_io, s) | a # as \<Rightarrow> (a, s\<lparr>recv_answers := as\<rparr>))"

definition next_send :: "base_sock \<Rightarrow> io_answer \<times> base_sock" where
  "next_send s = (case send_answers s of [] \<Rightarrow> (silent_io, s) | a # as \<Rightarrow> (a, s\<lparr>send_answers := as\<rparr>))"

text \<open>\<open>HRESULT_FROM_WIN32\<close> and \<open>SUCCEEDED\<close>.\<close>

definition hresult_from_win32 :: "nat \<Rightarrow> nat" where
  "hresult_from_win32 e = (if e = 0 \<or> 2 ^ 31 \<le> e then e else 2147942400 + e mod 65536)"

definition succeeded :: "nat \<Rightarrow> bool" where
  "succeeded h \<longleftrightarrow> h < 2 ^ 31"

section \<open>Timers\<close>

definition start_recv_timer_internal :: "base_sock \<Rightarrow> base_sock" where
  "start_recv_timer_internal s =
     (let (t, s1) = read_clock s in s1\<lparr>recv_end_time := word_of_int (int t + recv_timeout_seconds s1)\<rparr>)"

definition start_send_timer_internal :: "base_sock \<Rightarrow> base_sock" where
  "start_send_timer_internal s =
     (let (t, s1) = read_clock s in s1\<lparr>send_end_time := word_of_int (int t + send_timeout_seconds s1)\<rparr>)"

definition start_recv_timer :: "base_sock \<Rightarrow> base_sock" where
  "start_recv_timer s = start_recv_timer_internal (s\<lparr>recv_timer_automatic := False\<rparr>)"

definition start_send_timer :: "base_sock \<Rightarrow> base_sock" where
  "start_send_timer s = start_send_timer_internal (s\<lparr>send_timer_automatic := False\<rparr>)"

definition set_recv_timeout_seconds :: "int \<Rightarrow> bool \<Rightarrow> base_sock \<Rightarrow> base_sock" where
  "set_recv_timeout_seconds n automatic s =
     (let n' = (if n = -1 then 2147483647 else n);
          s1 = (if 0 < n' then s\<lparr>recv_timeout_seconds := n'\<rparr> else s)
      in s1\<lparr>recv_timer_automatic := automatic\<rparr>)"

definition get_recv_timeout_seconds :: "base_sock \<Rightarrow> int" where
  "get_recv_timeout_seconds s = recv_timeout_seconds s"

definition set_send_timeout_seconds :: "int \<Rightarrow> bool \<Rightarrow> base_sock \<Rightarrow> base_sock" where
  "set_send_timeout_seconds n automatic s =
     (let n' = (if n = -1 then 2147483647 else n);
          s1 = (if 0 < n' then s\<lparr>send_timeout_seconds := n'\<rparr> else s)
      in s1\<lparr>send_timer_automatic := automatic\<rparr>)"

definition get_send_timeout_seconds :: "base_sock \<Rightarrow> int" where
  "get_send_timeout_seconds s = send_timeout_seconds s"

section \<open>Closing and setting up\<close>

definition close_and_invalidate_socket :: "bool \<Rightarrow> base_sock \<Rightarrow> bool \<times> base_sock" where
  "close_and_invalidate_socket closed s = (closed, s\<lparr>actual_socket := None\<rparr>)"

text \<open>
  The answers to a close are: whether each event and the socket could be closed, and the error.
  The events are closed but not forgotten, as in the code.
\<close>

definition disconnect :: "bool \<Rightarrow> base_sock \<Rightarrow> nat \<times> base_sock" where
  "disconnect close_underlying s =
     (let s1 = s\<lparr>last_error := 0\<rparr> in
      if actual_socket s1 = None \<or> \<not> close_underlying then (0, s1)
      else case (case close_answers s1 of [] \<Rightarrow> ((True, True, True, 0), s1)
                 | c # cs \<Rightarrow> (c, s1\<lparr>close_answers := cs\<rparr>)) of
        ((read_ok, write_ok, sock_ok, err), s2) \<Rightarrow>
          (let (ok, s3) = (if read_ok \<and> write_ok then close_and_invalidate_socket sock_ok s2
                           else (False, s2));
               s4 = (if ok then s3 else s3\<lparr>last_error := err\<rparr>)
           in (hresult_from_win32 (last_error s4), s4)))"

record setup_io =
  nodelay_error :: "nat option"
  new_read_event :: "nat option"
  new_write_event :: "nat option"
  event_error :: nat
  resets_ok :: bool
  reset_error :: nat

definition setup_socket :: "setup_io \<Rightarrow> base_sock \<Rightarrow> nat \<times> base_sock" where
  "setup_socket io s =
     (let fail = (\<lambda>e s. (hresult_from_win32 e, s\<lparr>last_error := e\<rparr>)) in
      case nodelay_error io of
        Some e \<Rightarrow> fail e s
      | None \<Rightarrow>
          (let s1 = (if read_event s = None then s\<lparr>read_event := new_read_event io\<rparr> else s) in
           if read_event s1 = None then fail (event_error io) s1
           else let s2 = (if write_event s1 = None then s1\<lparr>write_event := new_write_event io\<rparr> else s1) in
             if write_event s2 = None then fail (event_error io) s2
             else if \<not> resets_ok io then fail (reset_error io) s2
             else (0, s2\<lparr>last_error := 0\<rparr>)))"

record connect_io =
  co_socket :: "nat option"
  co_connect_error :: "nat option"
  co_update_error :: "nat option"
  co_setup :: setup_io

definition connect :: "connect_io \<Rightarrow> base_sock \<Rightarrow> bool \<times> base_sock" where
  "connect io s =
     (let s1 = s\<lparr>actual_socket := co_socket io\<rparr>;
          fail = (\<lambda>e s. (False, snd (close_and_invalidate_socket True (s\<lparr>last_error := e\<rparr>))))
      in if actual_socket s1 = None then (False, s1)
         else case co_connect_error io of
             Some e \<Rightarrow> fail e s1
           | None \<Rightarrow>
               (case co_update_error io of
                  Some e \<Rightarrow> fail e s1
                | None \<Rightarrow> (let (h, s2) = setup_socket (co_setup io) s1 in (succeeded h, s2))))"

text \<open>The two constructors: \<open>WSAStartup\<close> may fail, and a given socket is set up at once.\<close>

definition construct :: "bool \<Rightarrow> base_sock result" where
  "construct startup_ok = (if startup_ok then Inr new_sock else Inl (Thrown_Text ''WSAStartup error''))"

definition construct_on :: "bool \<Rightarrow> nat \<Rightarrow> setup_io \<Rightarrow> base_sock result" where
  "construct_on startup_ok h io =
     bind_result (construct startup_ok) (\<lambda>s.
       let (r, s1) = setup_socket io (s\<lparr>actual_socket := Some h\<rparr>)
       in if succeeded r then Inr s1 else Inl (Thrown_Text ''Setup failed''))"

definition closed :: "nat \<Rightarrow> base_sock \<Rightarrow> bool" where
  "closed so_error s \<longleftrightarrow> actual_socket s = None \<or> so_error \<noteq> 0"

section \<open>Receiving\<close>

text \<open>
  \<open>RecvPartial\<close> in its three parts: starting the overlapped read (skipped when one is pending),
  waiting for it, and taking its result. It returns the count (-1 for \<open>SOCKET_ERROR\<close>) and what was
  written where. A read delivers at most what its buffer holds, and fewer than \<open>2 ^ 31\<close> bytes.
\<close>

definition start_read :: "io_answer \<Rightarrow> nat \<Rightarrow> nat \<Rightarrow> base_sock \<Rightarrow> base_sock + (bool \<times> base_sock)" where
  "start_read a addr len s =
     (if recv_initiated s then Inr (False, s\<lparr>last_error := wsa_io_pending\<rparr>)
      else case io_reset_error a of
          Some e \<Rightarrow> Inl (s\<lparr>last_error := e\<rparr>)
        | None \<Rightarrow>
            Inr (io_started a,
              s\<lparr>recv_initiated := True, recv_target := (addr, len mod 2 ^ 32),
                last_error := io_start_error a\<rparr>))"

definition await_io :: "io_answer \<Rightarrow> bool \<Rightarrow> base_sock \<Rightarrow> bool \<times> base_sock" where
  "await_io a started s =
     (if \<not> started \<and> last_error s = wsa_io_pending
      then if io_wait a = 1 then (True, s\<lparr>last_error := 0\<rparr>)
           else if io_wait a = wait_timeout then (False, s\<lparr>last_error := error_timeout\<rparr>)
           else if io_wait a = wait_failed then (False, s\<lparr>last_error := io_wait_error a\<rparr>)
           else (False, s)
      else (started, s))"

definition finish_read :: "io_answer \<Rightarrow> base_sock \<Rightarrow> int \<times> (nat \<times> string) list \<times> base_sock" where
  "finish_read a s =
     (let s1 = s\<lparr>recv_initiated := False\<rparr>;
          data = take (min (io_count a) (min (snd (recv_target s)) (2 ^ 31 - 1))) (wire s)
      in if io_done a \<and> data \<noteq> []
         then (int (length data), [(fst (recv_target s), data)], s1\<lparr>wire := drop (length data) (wire s)\<rparr>)
         else if io_done_error a = 0 then (0, [], s1)
         else (-1, [], if last_error s1 = 0 then s1\<lparr>last_error := io_done_error a\<rparr> else s1))"

definition recv_partial :: "nat \<Rightarrow> nat \<Rightarrow> base_sock \<Rightarrow> int \<times> (nat \<times> string) list \<times> base_sock" where
  "recv_partial addr len s =
     (let (t, s1) = read_clock s;
          seconds_left = uint (recv_end_time s1) - int t
      in if seconds_left \<le> 0 then (-1, [], s1\<lparr>last_error := error_timeout\<rparr>)
         else let (a, s2) = next_recv s1 in
           case start_read a addr len s2 of
             Inl s3 \<Rightarrow> (-1, [], s3)
           | Inr (started, s3) \<Rightarrow>
               (let (completed, s4) = await_io a started s3
                in if completed then finish_read a s4 else (-1, [], s4)))"

definition sz_sub :: "nat \<Rightarrow> nat \<Rightarrow> nat" where
  "sz_sub a b = (a + 2 ^ 64 - b mod 2 ^ 64) mod 2 ^ 64"

function recv_loop ::
    "nat \<Rightarrow> nat \<Rightarrow> nat \<Rightarrow> nat \<Rightarrow> base_sock \<Rightarrow> int \<times> (nat \<times> string) list \<times> base_sock" where
  "recv_loop addr len minlen got s =
     (if got < minlen
      then case recv_partial (addr + got) (sz_sub len got) s of
          (r, ws, s1) \<Rightarrow>
            if r = -1 then (-1, ws, s1)
            else if r \<le> 0 then (int got, ws, s1)
            else (case recv_loop addr len minlen (got + nat r) s1 of
                    (r', ws', s2) \<Rightarrow> (r', ws @ ws', s2))
      else (int got, [], s))"
  by pat_completeness auto
termination
  by (relation "measure (\<lambda>(addr, len, minlen, got, s). minlen - got)") auto

declare recv_loop.simps [simp del]

definition recv :: "nat \<Rightarrow> nat \<Rightarrow> nat \<Rightarrow> base_sock \<Rightarrow> int \<times> (nat \<times> string) list \<times> base_sock" where
  "recv addr len minlen s =
     recv_loop addr len minlen 0 (if recv_timer_automatic s then start_recv_timer_internal s else s)"

text \<open>What a caller's buffer at an address holds after a list of writes.\<close>

fun apply_writes :: "nat \<Rightarrow> string \<Rightarrow> (nat \<times> string) list \<Rightarrow> string" where
  "apply_writes base buf [] = buf"
| "apply_writes base buf ((a, d) # ws) =
     apply_writes base
       (if base \<le> a \<and> a + length d \<le> base + length buf
        then take (a - base) buf @ d @ drop (a - base + length d) buf else buf) ws"

section \<open>Sending\<close>

definition start_write :: "io_answer \<Rightarrow> string \<Rightarrow> base_sock \<Rightarrow> nat \<times> base_sock" where
  "start_write a data s =
     (let n = min (io_count a) (min (length data mod 2 ^ 32) (2 ^ 31 - 1));
          accepted = (io_started a \<or> io_start_error a = wsa_io_pending)
      in (n, s\<lparr>last_error := io_start_error a, sent := sent s @ (if accepted then take n data else [])\<rparr>))"

definition finish_write :: "io_answer \<Rightarrow> nat \<Rightarrow> bool \<Rightarrow> base_sock \<Rightarrow> int \<times> base_sock" where
  "finish_write a n completed s =
     (if completed \<and> io_done a then (int n, s)
      else if completed \<and> io_done_error a = 0 then (0, s)
      else let s1 = (if completed \<and> last_error s = 0 then s\<lparr>last_error := io_done_error a\<rparr> else s)
           in (-1, if last_error s1 = wsaeconnreset then snd (disconnect True s1) else s1))"

definition send_partial :: "string \<Rightarrow> base_sock \<Rightarrow> int \<times> base_sock" where
  "send_partial data s =
     (let (a, s1) = next_send s in
      case io_reset_error a of
        Some e \<Rightarrow> (-1, s1\<lparr>last_error := e\<rparr>)
      | None \<Rightarrow>
          (let (n, s2) = start_write a data s1;
               (t, s3) = read_clock s2;
               seconds_left = uint (send_end_time s3) - int t
           in if seconds_left \<le> 0 then (-1, s3\<lparr>last_error := error_timeout\<rparr>)
              else let (completed, s4) = await_io a (io_started a) s3 in finish_write a n completed s4))"

function send_loop :: "string \<Rightarrow> nat \<Rightarrow> base_sock \<Rightarrow> int \<times> base_sock" where
  "send_loop data put s =
     (if put < length data
      then case send_partial (drop put data) s of
          (r, s1) \<Rightarrow>
            if r = -1 then (-1, s1)
            else if r \<le> 0 then (if put = 0 then (-1, s1) else (int put, s1))
            else send_loop data (put + nat r) s1
      else (int put, s))"
  by pat_completeness auto
termination
  by (relation "measure (\<lambda>(data, put, s). length data - put)") auto

declare send_loop.simps [simp del]

definition send :: "string \<Rightarrow> base_sock \<Rightarrow> int \<times> base_sock" where
  "send data s = send_loop data 0 (if send_timer_automatic s then start_send_timer_internal s else s)"

section \<open>The blocking read of a number of bytes\<close>

text \<open>
  \<open>ReceiveBytes\<close>: with no length it first polls \<open>FIONREAD\<close> (an answer is an error or the number of
  bytes ready) until something has arrived; \<open>None\<close> is a peer that never sends, which the code waits
  for without end. It then calls \<open>recv\<close> until the length is used up; each call grows the string by what
  is still missing and writes the next bytes at the end of the grown string.
\<close>

fun poll_ready :: "nat option list \<Rightarrow> nat option option" where
  "poll_ready [] = None"
| "poll_ready (None # as) = Some None"
| "poll_ready (Some n # as) = (if n = 0 then poll_ready as else Some (Some n))"

fun receive_chunks :: "nat \<Rightarrow> string option list \<Rightarrow> string \<Rightarrow> string option" where
  "receive_chunks max_recv [] ret = (if 0 < max_recv then None else Some ret)"
| "receive_chunks max_recv (c # cs) ret =
     (if 0 < max_recv
      then let ret1 = ret @ replicate max_recv (CHR 0x00) in
        case c of
          None \<Rightarrow> Some []
        | Some d \<Rightarrow>
            (let d' = take max_recv d; off = length ret1 - max_recv in
             if d' = [] then Some ret1
             else receive_chunks (max_recv - length d') cs
                    (take off ret1 @ d' @ drop (off + length d') ret1))
      else Some ret)"

definition receive_bytes :: "nat \<Rightarrow> nat option list \<Rightarrow> string option list \<Rightarrow> string option" where
  "receive_bytes max_recv polls chunks =
     (case (if max_recv = 0 then poll_ready polls else Some (Some max_recv)) of
        None \<Rightarrow> None
      | Some None \<Rightarrow> Some []
      | Some (Some n) \<Rightarrow> receive_chunks n chunks [])"

section \<open>Lemmas\<close>

lemma read_clock_frame:
  assumes "read_clock s = (t, s')"
  shows "wire s' = wire s \<and> sent s' = sent s \<and> recv_initiated s' = recv_initiated s
    \<and> recv_target s' = recv_target s \<and> actual_socket s' = actual_socket s \<and> last_error s' = last_error s
    \<and> recv_end_time s' = recv_end_time s \<and> recv_answers s' = recv_answers s"
  using assms by (auto simp: read_clock_def split: list.splits)

lemma next_recv_frame:
  assumes "next_recv s = (a, s')"
  shows "wire s' = wire s \<and> sent s' = sent s \<and> recv_initiated s' = recv_initiated s
    \<and> recv_target s' = recv_target s"
  using assms by (auto simp: next_recv_def split: list.splits)

lemma next_send_frame:
  assumes "next_send s = (a, s')"
  shows "wire s' = wire s \<and> sent s' = sent s \<and> recv_initiated s' = recv_initiated s"
  using assms by (auto simp: next_send_def split: list.splits)

lemma await_io_frame:
  assumes "await_io a b s = (c, s')"
  shows "wire s' = wire s \<and> sent s' = sent s \<and> recv_initiated s' = recv_initiated s
    \<and> recv_target s' = recv_target s"
  using assms by (auto simp: await_io_def split: if_splits)

lemma disconnect_frame: "disconnect b s = (h, s') \<Longrightarrow>
    wire s' = wire s \<and> sent s' = sent s \<and> recv_initiated s' = recv_initiated s"
  by (auto simp: disconnect_def Let_def close_and_invalidate_socket_def
      split: if_splits list.splits prod.splits)

lemma start_timer_frame [simp]:
  "wire (start_recv_timer_internal s) = wire s"
  "sent (start_recv_timer_internal s) = sent s"
  "recv_initiated (start_recv_timer_internal s) = recv_initiated s"
  "recv_target (start_recv_timer_internal s) = recv_target s"
  "wire (start_send_timer_internal s) = wire s"
  "sent (start_send_timer_internal s) = sent s"
  "recv_initiated (start_send_timer_internal s) = recv_initiated s"
  by (cases "read_clock s"; use read_clock_frame [of s] in
      \<open>simp add: start_recv_timer_internal_def start_send_timer_internal_def\<close>)+

lemma finish_read_cases:
  assumes "finish_read a s = (r, ws, s')"
  shows "sent s' = sent s \<and> \<not> recv_initiated s' \<and>
    ((r = -1 \<or> r = 0) \<and> ws = [] \<and> wire s' = wire s
     \<or> (\<exists>d. d \<noteq> [] \<and> r = int (length d) \<and> length d \<le> snd (recv_target s)
          \<and> ws = [(fst (recv_target s), d)] \<and> wire s = d @ wire s'))"
proof -
  define d where "d = take (min (io_count a) (min (snd (recv_target s)) (2 ^ 31 - 1))) (wire s)"
  have "length d \<le> snd (recv_target s)" by (simp add: d_def)
  moreover have "wire s = d @ drop (length d) (wire s)" by (simp add: d_def min_def)
  ultimately show ?thesis
    using assms unfolding finish_read_def d_def [symmetric] Let_def
    by (cases "io_done a \<and> d \<noteq> []") (auto split: if_splits)
qed

lemma recv_partial_fresh:
  assumes "\<not> recv_initiated s" and "recv_partial addr len s = (r, ws, s')"
  shows "sent s' = sent s \<and>
    (r = -1 \<and> ws = [] \<and> wire s' = wire s
     \<or> r = 0 \<and> ws = [] \<and> wire s' = wire s \<and> \<not> recv_initiated s'
     \<or> (\<exists>d. d \<noteq> [] \<and> r = int (length d) \<and> length d \<le> len \<and> ws = [(addr, d)]
          \<and> wire s = d @ wire s' \<and> \<not> recv_initiated s'))"
proof -
  obtain t s1 where c: "read_clock s = (t, s1)" by force
  obtain a s2 where n: "next_recv s1 = (a, s2)" by force
  note frames = read_clock_frame [OF c] next_recv_frame [OF n]
  have i: "\<not> recv_initiated s2" using assms(1) frames by simp
  show ?thesis
  proof (cases "uint (recv_end_time s1) - int t \<le> 0")
    case True
    then show ?thesis using assms(2) c frames by (auto simp: recv_partial_def)
  next
    case False
    show ?thesis
    proof (cases "io_reset_error a")
      case (Some e)
      then show ?thesis using assms(2) c n False i frames
        by (auto simp: recv_partial_def start_read_def)
    next
      case None
      define s3 where "s3 = s2\<lparr>recv_initiated := True, recv_target := (addr, len mod 2 ^ 32),
                last_error := io_start_error a\<rparr>"
      obtain b s4 where w: "await_io a (io_started a) s3 = (b, s4)" by force
      have f: "wire s4 = wire s" "sent s4 = sent s" "recv_target s4 = (addr, len mod 2 ^ 32)"
        using await_io_frame [OF w] frames by (simp_all add: s3_def)
      have eq: "(if b then finish_read a s4 else (-1, [], s4)) = (r, ws, s')"
        using assms(2) c n False i None w [unfolded s3_def]
        by (simp add: recv_partial_def start_read_def Let_def)
      show ?thesis
      proof (cases b)
        case True
        then have "finish_read a s4 = (r, ws, s')" using eq by simp
        from finish_read_cases [OF this] show ?thesis
          using f by (auto intro: order_trans [OF _ mod_less_eq_dividend])
      next
        case False
        then show ?thesis using eq f by auto
      qed
    qed
  qed
qed

lemma sz_sub_le: "b \<le> a \<Longrightarrow> a < 2 ^ 64 \<Longrightarrow> sz_sub a b = a - b"
proof -
  assume "b \<le> a" and "a < 2 ^ 64"
  then have "a + 2 ^ 64 - b mod 2 ^ 64 = (a - b) + 2 ^ 64" by simp
  then show ?thesis using \<open>a < 2 ^ 64\<close> by (simp add: sz_sub_def)
qed

lemma recv_loop_fresh:
  assumes "\<not> recv_initiated s" and "minlen \<le> len" and "len < 2 ^ 31" and "got \<le> len"
    and "recv_loop addr len minlen got s = (r, ws, s')"
  shows "sent s' = sent s \<and>
    (r = -1 \<and> (\<exists>d. wire s = d @ wire s')
     \<or> (\<exists>d. r = int (got + length d) \<and> got + length d \<le> len \<and> wire s = d @ wire s' \<and> \<not> recv_initiated s'
          \<and> (\<forall>buf. length buf = len \<longrightarrow>
               apply_writes addr buf ws = take got buf @ d @ drop (got + length d) buf)))"
  using assms
proof (induction addr len minlen got s arbitrary: r ws s' rule: recv_loop.induct)
  case (1 addr len minlen got s)
  show ?case
  proof (cases "got < minlen")
    case False
    then show ?thesis using "1.prems" by (subst (asm) recv_loop.simps) auto
  next
    case True
    obtain r1 ws1 s1 where p: "recv_partial (addr + got) (sz_sub len got) s = (r1, ws1, s1)"
      by (metis prod_cases3)
    have sub: "sz_sub len got = len - got" using "1.prems" by (intro sz_sub_le) auto
    note c = recv_partial_fresh [OF "1.prems"(1) p, unfolded sub]
    consider (fail) "r1 = -1" "wire s1 = wire s" "sent s1 = sent s"
      | (closed) "r1 = 0" "ws1 = []" "wire s1 = wire s" "sent s1 = sent s" "\<not> recv_initiated s1"
      | (data) d where "d \<noteq> []" "r1 = int (length d)" "length d \<le> len - got" "ws1 = [(addr + got, d)]"
          "wire s = d @ wire s1" "sent s1 = sent s" "\<not> recv_initiated s1"
      using c by blast
    then show ?thesis
    proof cases
      case fail
      then show ?thesis using "1.prems"(5) p True by (subst (asm) recv_loop.simps) auto
    next
      case closed
      then show ?thesis using "1.prems"(4,5) p True by (subst (asm) recv_loop.simps) auto
    next
      case data
      obtain r2 ws2 s2 where l: "recv_loop addr len minlen (got + length d) s1 = (r2, ws2, s2)"
        by (metis prod_cases3)
      have pos: "\<not> r1 = -1" "\<not> r1 \<le> 0" "nat r1 = length d" using data by auto
      have res: "r = r2" "ws = ws1 @ ws2" "s' = s2"
        using "1.prems"(5) p l True pos by (subst (asm) recv_loop.simps, simp)+
      have "got + length d \<le> len" using data "1.prems"(4) by simp
      with "1.IH" [OF True p [symmetric] refl pos(1,2), unfolded pos(3)] l data(7) "1.prems"(2,3)
      have ih: "sent s2 = sent s1 \<and>
        (r2 = -1 \<and> (\<exists>e. wire s1 = e @ wire s2)
         \<or> (\<exists>e. r2 = int (got + length d + length e) \<and> got + length d + length e \<le> len
              \<and> wire s1 = e @ wire s2 \<and> \<not> recv_initiated s2
              \<and> (\<forall>buf. length buf = len \<longrightarrow> apply_writes addr buf ws2 =
                   take (got + length d) buf @ e @ drop (got + length d + length e) buf)))"
        by blast
      from ih consider (lost) e where "sent s2 = sent s1" "r2 = -1" "wire s1 = e @ wire s2"
        | (more) e where "sent s2 = sent s1" "r2 = int (got + length d + length e)"
          "got + length d + length e \<le> len" "wire s1 = e @ wire s2" "\<not> recv_initiated s2"
          "\<forall>buf. length buf = len \<longrightarrow> apply_writes addr buf ws2 =
                   take (got + length d) buf @ e @ drop (got + length d + length e) buf"
        by blast
      then show ?thesis
      proof cases
        case lost
        then show ?thesis unfolding res using data(5,6) by simp
      next
        case more
        have "apply_writes addr buf (ws1 @ ws2) =
            take got buf @ (d @ e) @ drop (got + length (d @ e)) buf" if "length buf = len" for buf
          using that more(3,6) data by (auto simp: add.commute add.left_commute)
        moreover have "r2 = int (got + length (d @ e))" "got + length (d @ e) \<le> len"
            "wire s = (d @ e) @ wire s2" "sent s2 = sent s"
          using more data by simp_all
        ultimately show ?thesis
          unfolding res using more(5) by (intro conjI disjI2 exI [of _ "d @ e"]) (assumption | blast)+
      qed
    qed
  qed
qed

lemma recv_fresh:
  assumes "\<not> recv_initiated s" and "minlen \<le> len" and "len < 2 ^ 31"
    and "recv addr len minlen s = (r, ws, s')"
  shows "sent s' = sent s \<and>
    (r = -1 \<and> (\<exists>d. wire s = d @ wire s')
     \<or> (\<exists>d. r = int (length d) \<and> length d \<le> len \<and> wire s = d @ wire s' \<and> \<not> recv_initiated s'
          \<and> (\<forall>buf. length buf = len \<longrightarrow> apply_writes addr buf ws = d @ drop (length d) buf)))"
  using recv_loop_fresh [of "if recv_timer_automatic s then start_recv_timer_internal s else s"
      minlen len 0 addr r ws s'] assms
  by (simp add: recv_def split: if_splits)

lemma finish_write_frame:
  assumes "finish_write a n c s = (r, s')"
  shows "wire s' = wire s \<and> sent s' = sent s \<and> recv_initiated s' = recv_initiated s
    \<and> (r = -1 \<or> r = 0 \<or> r = int n \<and> c)"
proof -
  define u where "u = (if c \<and> last_error s = 0 then s\<lparr>last_error := io_done_error a\<rparr> else s)"
  have u: "wire u = wire s" "sent u = sent s" "recv_initiated u = recv_initiated s" by (simp_all add: u_def)
  obtain h v where d: "disconnect True u = (h, v)" by force
  from disconnect_frame [OF d] show ?thesis
    using assms u d unfolding finish_write_def u_def [symmetric] Let_def
    by (cases "c \<and> io_done a"; cases "c \<and> io_done_error a = 0") (auto split: if_splits)
qed

lemma start_write_frame:
  assumes "start_write a data s = (n, s')"
  shows "wire s' = wire s \<and> recv_initiated s' = recv_initiated s \<and> n \<le> length data
    \<and> sent s' = sent s @ (if io_started a \<or> io_start_error a = wsa_io_pending then take n data else [])
    \<and> last_error s' = io_start_error a"
proof -
  define k where "k = min (io_count a) (min (length data mod 2 ^ 32) (2 ^ 31 - 1))"
  have "k \<le> length data mod 2 ^ 32" unfolding k_def by (rule min.coboundedI2) (rule min.cobounded1)
  also have "\<dots> \<le> length data" by (rule mod_less_eq_dividend)
  finally have k: "k \<le> length data" .
  have "n = k" "s' = s\<lparr>last_error := io_start_error a, sent := sent s
      @ (if io_started a \<or> io_start_error a = wsa_io_pending then take k data else [])\<rparr>"
    using assms unfolding start_write_def k_def [symmetric] Let_def by simp_all
  with k show ?thesis by simp
qed

lemma send_partial_cases:
  assumes "send_partial data s = (r, s')"
  shows "wire s' = wire s \<and> recv_initiated s' = recv_initiated s \<and>
    ((r = -1 \<or> r = 0) \<and> (\<exists>p. prefix p data \<and> sent s' = sent s @ p)
     \<or> (\<exists>n > 0. r = int n \<and> n \<le> length data \<and> sent s' = sent s @ take n data))"
proof -
  obtain a s1 where n: "next_send s = (a, s1)" by force
  note f1 = next_send_frame [OF n]
  show ?thesis
  proof (cases "io_reset_error a")
    case (Some e)
    then show ?thesis using assms n f1 by (auto simp: send_partial_def)
  next
    case None
    obtain k s2 where w: "start_write a data s1 = (k, s2)" by force
    obtain t s3 where c: "read_clock s2 = (t, s3)" by force
    obtain b s4 where y: "await_io a (io_started a) s3 = (b, s4)" by force
    note f = f1 start_write_frame [OF w] read_clock_frame [OF c] await_io_frame [OF y]
    have acc: "b \<Longrightarrow> io_started a \<or> io_start_error a = wsa_io_pending"
      using y f by (auto simp: await_io_def split: if_splits)
    have eq: "(if uint (send_end_time s3) - int t \<le> 0 then (-1, s3\<lparr>last_error := error_timeout\<rparr>)
        else finish_write a k b s4) = (r, s')"
      using assms n None w c y by (simp add: send_partial_def split: if_splits)
    show ?thesis
    proof (cases "uint (send_end_time s3) - int t \<le> 0")
      case True
      then show ?thesis using eq f by (auto simp: take_is_prefix split: if_splits)
    next
      case False
      then have "finish_write a k b s4 = (r, s')" using eq by simp
      from finish_write_frame [OF this] f acc show ?thesis
        by (cases "k = 0") (auto simp: take_is_prefix split: if_splits)
    qed
  qed
qed

lemma send_loop_cases:
  assumes "put \<le> length data" and "send_loop data put s = (r, s')"
  shows "wire s' = wire s \<and> recv_initiated s' = recv_initiated s \<and>
    (\<exists>p. prefix p (drop put data) \<and> sent s' = sent s @ p
       \<and> (r = -1 \<or> int put \<le> r \<and> r \<le> int (length data))
       \<and> (r = int (length data) \<longrightarrow> p = drop put data))"
  using assms
proof (induction data put s arbitrary: r s' rule: send_loop.induct)
  case (1 data put s)
  show ?case
  proof (cases "put < length data")
    case False
    then show ?thesis using "1.prems" by (subst (asm) send_loop.simps) auto
  next
    case True
    obtain r1 s1 where p: "send_partial (drop put data) s = (r1, s1)" by force
    note c = send_partial_cases [OF p]
    show ?thesis
    proof (cases "r1 = -1 \<or> r1 \<le> 0")
      case stop: True
      then have "r = -1 \<or> r = int put" "s' = s1"
        using "1.prems"(2) p True by (subst (asm) send_loop.simps, auto split: if_splits)+
      then show ?thesis using c stop True by auto
    next
      case False
      then obtain n where n: "n > 0" "r1 = int n" "n \<le> length data - put"
          "sent s1 = sent s @ take n (drop put data)" using c by auto
      have l: "send_loop data (put + n) s1 = (r, s')"
        using "1.prems"(2) p True False n by (subst (asm) send_loop.simps) simp
      have "\<not> r1 = -1" "\<not> r1 \<le> 0" "put + nat r1 \<le> length data" using False n True by auto
      from "1.IH" [OF True p [symmetric] this] l n(2)
      obtain q where q: "wire s' = wire s1" "recv_initiated s' = recv_initiated s1"
          "prefix q (drop (put + n) data)" "sent s' = sent s1 @ q"
          "r = -1 \<or> int (put + n) \<le> r \<and> r \<le> int (length data)"
          "r = int (length data) \<longrightarrow> q = drop (put + n) data" by auto
      have d: "drop put data = take n (drop put data) @ drop (put + n) data"
        by (metis append_take_drop_id drop_drop add.commute)
      have "prefix (take n (drop put data) @ q) (drop put data)"
        using q(3) by (subst (2) d) simp
      then show ?thesis
        using q c n d by (intro conjI exI [of _ "take n (drop put data) @ q"]) auto
    qed
  qed
qed

lemma send_cases:
  assumes "send data s = (r, s')"
  shows "wire s' = wire s \<and> recv_initiated s' = recv_initiated s \<and>
    (\<exists>p. prefix p data \<and> sent s' = sent s @ p \<and> (r = -1 \<or> 0 \<le> r \<and> r \<le> int (length data))
       \<and> (r = int (length data) \<longrightarrow> p = data))"
  using send_loop_cases [of 0 data "if send_timer_automatic s then start_send_timer_internal s else s"] assms
  by (simp add: send_def split: if_splits)

section \<open>The socket as a byte stream\<close>

text \<open>
  The client's view: a read into a fresh buffer gives the bytes the buffer then holds, cut to the
  count returned; a write has succeeded when it returns the length it was given.
\<close>

definition recv_string :: "base_sock \<Rightarrow> nat \<Rightarrow> nat \<Rightarrow> string option \<times> base_sock" where
  "recv_string s len minlen =
     (case recv 0 len minlen s of
        (r, ws, s1) \<Rightarrow>
          (if r = -1 then None else Some (take (nat r) (apply_writes 0 (replicate len (CHR 0x00)) ws)), s1))"

definition send_string :: "base_sock \<Rightarrow> string \<Rightarrow> bool \<times> base_sock" where
  "send_string s data = (case send data s of (r, s1) \<Rightarrow> (r = int (length data), s1))"

lemma recv_string_fresh:
  assumes "\<not> recv_initiated s" and "m \<le> n" and "n < 2 ^ 31" and "recv_string s n m = (res, t)"
  shows "sent t = sent s \<and> (case res of None \<Rightarrow> \<exists>d. wire s = d @ wire t
    | Some d \<Rightarrow> \<not> recv_initiated t \<and> wire s = d @ wire t \<and> length d \<le> n)"
proof -
  obtain r ws u where r: "recv 0 n m s = (r, ws, u)" by (metis prod_cases3)
  have t: "t = u" and res: "res = (if r = -1 then None
      else Some (take (nat r) (apply_writes 0 (replicate n (CHR 0x00)) ws)))"
    using assms(4) r by (simp_all add: recv_string_def)
  from recv_fresh [OF assms(1-3) r] show ?thesis
    unfolding t res by auto
qed

interpretation sock_stream: byte_stream recv_string send_string wire sent "\<lambda>s. \<not> recv_initiated s"
proof unfold_locales
  show "\<not> recv_initiated t \<and> wire s = d @ wire t \<and> length d \<le> n \<and> sent t = sent s"
    if "\<not> recv_initiated s" "m \<le> n" "n < 2 ^ 31" "recv_string s n m = (Some d, t)" for s m n d t
    using recv_string_fresh [OF that] by simp
  show "sent t = sent s"
    if "\<not> recv_initiated s" "m \<le> n" "n < 2 ^ 31" "recv_string s n m = (None, t)" for s m n t
    using recv_string_fresh [OF that] by simp
  show "\<not> recv_initiated t \<and> sent t = sent s @ d \<and> wire t = wire s"
    if "\<not> recv_initiated s" "length d < 2 ^ 31" "send_string s d = (True, t)" for s d t
    using that send_cases by (auto simp: send_string_def split: prod.splits)
  show "\<exists>p. prefix p d \<and> sent t = sent s @ p"
    if "\<not> recv_initiated s" "length d < 2 ^ 31" "send_string s d = (False, t)" for s d t
    using that send_cases [of d s "fst (send d s)" t] by (auto simp: send_string_def split: prod.splits)
qed

section \<open>Properties\<close>

text \<open>
  C20. On a socket without a pending read, \<open>Recv\<close> either fails or returns the length of the next
  bytes of the stream, at most the buffer's length, and the caller's buffer holds exactly these bytes
  in front of what it held before: however the system splits the reads, no byte is lost, repeated or
  written outside the buffer's front.
\<close>

theorem recv_reads_stream:
  assumes "\<not> recv_initiated s" and "minlen \<le> len" and "len < 2 ^ 31" and "length buf = len"
    and "recv addr len minlen s = (r, ws, s')"
  shows "r = -1 \<or> (\<exists>d. r = int (length d) \<and> length d \<le> len \<and> wire s = d @ wire s'
    \<and> apply_writes addr buf ws = d @ drop (length d) buf \<and> \<not> recv_initiated s')"
  using recv_fresh [OF assms(1-3,5)] assms(4) by auto

definition ready_io :: "nat \<Rightarrow> io_answer" where
  "ready_io n = silent_io\<lparr>io_started := True, io_start_error := 0, io_done := True, io_count := n\<rparr>"

definition demo_sock :: "io_answer list \<Rightarrow> string \<Rightarrow> base_sock" where
  "demo_sock as w = new_sock\<lparr>recv_answers := as, wire := w\<rparr>"

lemma demo_recv:
  "recv 7 4 3 (demo_sock [ready_io 2, ready_io 9] ''abcdef'') =
     (4, [(7, ''ab''), (9, ''cd'')],
      (demo_sock [] ''ef'')\<lparr>recv_end_time := 1, recv_initiated := False, recv_target := (9, 2)\<rparr>)"
  by (simp add: recv_def recv_loop.simps [of _ _ _ 0] recv_loop.simps [of _ _ _ "Suc (Suc 0)"]
      recv_loop.simps [of _ _ _ "Suc (Suc (Suc (Suc 0)))"]
      recv_partial_def demo_sock_def new_sock_def start_recv_timer_internal_def read_clock_def next_recv_def
      start_read_def await_io_def finish_read_def ready_io_def silent_io_def sz_sub_def wsa_io_pending_def)

theorem recv_reads_stream_witness:
  "\<exists>d. (4::int) = int (length d) \<and> length d \<le> 4
     \<and> apply_writes 7 ''....'' [(7, ''ab''), (9, ''cd'')] = d @ drop (length d) ''....''"
  using recv_reads_stream [OF _ _ _ _ demo_recv, of "''....''"]
  by (auto simp: demo_sock_def new_sock_def intro!: exI [of _ "''abcd''"])


lemma demo_send:
  "send ''abc'' (new_sock\<lparr>send_answers := [ready_io 2, ready_io 5]\<rparr>) =
     (3, new_sock\<lparr>send_end_time := 1, sent := ''abc''\<rparr>)"
  by (simp add: send_def send_loop.simps [of _ 0] send_loop.simps [of _ "Suc (Suc 0)"]
      send_loop.simps [of _ "Suc (Suc (Suc 0))"]
      send_partial_def new_sock_def start_send_timer_internal_def read_clock_def next_send_def
      start_write_def await_io_def finish_write_def ready_io_def silent_io_def wsa_io_pending_def)


text \<open>
  A read that timed out stays pending with the buffer it was started on: when a later \<open>Recv\<close> with
  another buffer picks it up, it reports bytes received, but they are in the old buffer and the
  caller's own is unchanged.
\<close>

theorem recv_after_timeout_misses_buffer:
  assumes "recv_initiated s" and "recv_target s = (old, k)" and "old + k \<le> addr" and "0 < k"
    and "clock s = t # ts" and "int t < uint (recv_end_time s)" and "\<not> recv_timer_automatic s"
    and "recv_answers s = a # as" and "io_wait a = 1" and "io_done a" and "0 < io_count a"
    and "wire s \<noteq> []" and "recv addr len 1 s = (r, ws, s')" and "len < 2 ^ 31"
  shows "0 < r \<and> apply_writes addr buf ws = buf \<and> length (wire s') < length (wire s)"
proof -
  define d where "d = take (min (io_count a) (min k (2 ^ 31 - 1))) (wire s)"
  have d: "d \<noteq> []" "length d \<le> k" using assms(4,11,12) by (auto simp: d_def)
  have fin: "finish_read a x = (int (length d), [(old, d)],
      x\<lparr>recv_initiated := False, wire := drop (length d) (wire s)\<rparr>)"
    if "recv_target x = (old, k)" "wire x = wire s" for x
    using assms(10) d(1) by (simp only: finish_read_def Let_def that fst_conv snd_conv d_def [symmetric]) simp
  define x where "x = s\<lparr>clock := ts, recv_answers := as, last_error := 0\<rparr>"
  have "recv_partial addr len s = finish_read a x"
    using assms(1,5-9) by (simp add: recv_partial_def read_clock_def next_recv_def start_read_def await_io_def x_def)
  then obtain u where p: "recv_partial addr len s = (int (length d), [(old, d)], u)"
      and w: "wire u = drop (length d) (wire s)"
    using fin [of x] assms(2) by (simp add: x_def)
  have l: "recv_loop addr len 1 (length d) u = (int (length d), [], u)"
    using d(1) by (subst recv_loop.simps) (cases d; simp)
  have "recv addr len 1 s = (int (length d), [(old, d)], u)"
    using p l d(1) assms(7,14) by (simp add: recv_def recv_loop.simps [of _ _ _ 0] sz_sub_le)
  then have "r = int (length d)" "ws = [(old, d)]" "s' = u" using assms(13) by auto
  then show ?thesis using w d assms(3,12) by (cases d) (auto simp: less_diff_conv)
qed

lemma demo_stale:
  "recv 50 4 1 (new_sock\<lparr>recv_initiated := True, recv_target := (10, 4), clock := [5], recv_end_time := 9,
       recv_timer_automatic := False, recv_answers := [(ready_io 3)\<lparr>io_wait := 1\<rparr>], wire := ''abc''\<rparr>) =
     (3, [(10, ''abc'')], new_sock\<lparr>recv_initiated := False, recv_target := (10, 4), recv_end_time := 9,
       recv_timer_automatic := False\<rparr>)"
  by (simp add: recv_def recv_loop.simps [of _ _ _ 0] recv_loop.simps [of _ _ _ 3]
      recv_partial_def new_sock_def read_clock_def next_recv_def
      start_read_def await_io_def finish_read_def ready_io_def silent_io_def sz_sub_def wsa_io_pending_def)

theorem recv_after_timeout_misses_buffer_witness:
  "0 < (3::int) \<and> apply_writes 50 ''....'' [(10, ''abc'')] = ''....'' \<and> length [] < length ''abc''"
  using recv_after_timeout_misses_buffer [OF _ _ _ _ _ _ _ _ _ _ _ _ demo_stale, of 10 4 5 "[]" _ "[]" "''....''"]
  by (simp add: new_sock_def ready_io_def)

text \<open>
  When a send is answered by a connection reset, \<open>SendPartial\<close> closes the socket, and this resets
  the error: the caller sees a failure with the error code of success.
\<close>

theorem send_reset_reports_success:
  assumes "send_answers s = a # as" and "io_reset_error a = None" and "\<not> io_started a"
    and "io_start_error a = wsaeconnreset" and "clock s = t # ts" and "int t < uint (send_end_time s)"
    and "close_answers s = []"
  shows "\<exists>s'. send_partial data s = (-1, s') \<and> last_error s' = 0 \<and> actual_socket s' = None"
  using assms
  by (simp add: send_partial_def next_send_def start_write_def read_clock_def await_io_def finish_write_def
      disconnect_def close_and_invalidate_socket_def Let_def wsaeconnreset_def wsa_io_pending_def)

theorem send_reset_reports_success_witness:
  "\<exists>s'. send_partial ''x'' (new_sock\<lparr>actual_socket := Some 3, clock := [1], send_end_time := 5,
        send_answers := [silent_io\<lparr>io_start_error := wsaeconnreset\<rparr>]\<rparr>) = (-1, s')
     \<and> last_error s' = 0 \<and> actual_socket s' = None"
  by (rule send_reset_reports_success [of _ "silent_io\<lparr>io_start_error := wsaeconnreset\<rparr>" "[]" 1 "[]"])
    (simp_all add: silent_io_def new_sock_def)

text \<open>
  \<open>CBaseSock::ReceiveBytes\<close> is right when one \<open>recv\<close> call delivers everything. When two calls share
  the length, the string is grown twice: the result has the first piece, then as many NUL bytes as were
  missing, then the second piece.
\<close>

theorem receive_bytes_pieces:
  assumes "d \<noteq> []" and "e \<noteq> []"
  shows "receive_bytes (length d) polls (Some d # cs) = Some d
    \<and> receive_bytes (length d + length e) polls (Some d # Some e # cs) =
        Some (d @ replicate (length e) (CHR 0x00) @ e)"
proof -
  have stop: "receive_chunks 0 cs r = Some r" for cs r by (cases cs) auto
  show ?thesis using assms by (simp add: receive_bytes_def Let_def stop)
qed

theorem receive_bytes_pieces_witness:
  "receive_bytes 5 [] [Some ''ab'', Some ''cde''] = Some (''ab'' @ replicate 3 (CHR 0x00) @ ''cde'')"
  using receive_bytes_pieces [of "''ab''" "''cde''" "[]" "[]"] by (simp add: numeral_eq_Suc)

end
