(* ===== verification/Socks5.thy ===== *)
theory Socks5 imports BaseSock LuaValue ProxyUrl begin

text \<open>
  The SOCKS5 client of \<open>socket/Dial.cpp\<close>: the deadline arithmetic, the two helpers that send all and
  receive exactly, the CONNECT request and \<open>Socks5Handshake\<close>. Each step runs on the socket model and
  the steady clock, gives a value or the \<open>DialError\<close> thrown, and always the state it leaves. The
  name services of Windows are a parameter. The lemmas show the bytes exchanged, that nothing behind
  the reply is read, and that credentials reach the wire only when the proxy asks for them and never
  an error.
\<close>

section \<open>Steps that may throw\<close>

record dial_state =
  sock :: base_sock
  steady :: "nat list"

type_synonym ('a, 's) acting = "'s \<Rightarrow> 'a result \<times> 's"

type_synonym 'a dialing = "('a, dial_state) acting"

definition return_dial :: "'a \<Rightarrow> ('a, 's) acting" where
  "return_dial x st = (Inr x, st)"

definition throw_dial :: "error \<Rightarrow> ('a, 's) acting" where
  "throw_dial e st = (Inl e, st)"

definition bind_dial :: "('a, 's) acting \<Rightarrow> ('a \<Rightarrow> ('b, 's) acting) \<Rightarrow> ('b, 's) acting" where
  "bind_dial m f st = (case m st of (Inl e, st') \<Rightarrow> (Inl e, st') | (Inr x, st') \<Rightarrow> f x st')"

definition lift_result :: "'a result \<Rightarrow> ('a, 's) acting" where
  "lift_result r st = (r, st)"

definition dial_error :: "string \<Rightarrow> string \<Rightarrow> error" where
  "dial_error code msg = Dial_Error code (''['' @ code @ ''] '' @ msg)"

record dial_options =
  dial_host :: wstring
  dial_port :: u16
  dial_ssl :: bool
  dial_sni :: wstring
  dial_proxy :: "proxy_target option"
  dial_ca_file :: string
  dial_tls_verify :: bool
  dial_tls_check_revocation :: bool
  dial_connect_timeout_ms :: int
  dial_total_timeout_ms :: int

section \<open>Deadlines\<close>

text \<open>Whole seconds, rounded up, at least one; the sum is computed in \<open>int\<close> and the division truncates.\<close>

definition seconds :: "int \<Rightarrow> int" where
  "seconds milliseconds =
     (let x = to_int32 (milliseconds + 999) in max 1 (if x < 0 then - (- x div 1000) else x div 1000))"

definition read_steady :: "dial_state \<Rightarrow> nat \<times> dial_state" where
  "read_steady st = (case steady st of [] \<Rightarrow> (0, st) | t # ts \<Rightarrow> (t, st\<lparr>steady := ts\<rparr>))"

definition remaining_ms :: "dial_options \<Rightarrow> nat \<Rightarrow> int dialing" where
  "remaining_ms opts started st =
     (if dial_total_timeout_ms opts \<le> 0 then (Inr (dial_connect_timeout_ms opts), st)
      else let (now, st1) = read_steady st;
               left = dial_total_timeout_ms opts - (int now - int started)
           in if left \<le> 0
              then (Inl (dial_error ''timeout'' (''the total timeout of ''
                      @ int_str (dial_total_timeout_ms opts) @ '' ms expired before connecting'')), st1)
              else (Inr (min (dial_connect_timeout_ms opts) left), st1))"

definition set_timeouts :: "int \<Rightarrow> dial_state \<Rightarrow> dial_state" where
  "set_timeouts ms st =
     st\<lparr>sock := set_recv_timeout_seconds (seconds ms) True
                 (set_send_timeout_seconds (seconds ms) True (sock st))\<rparr>"

definition arm :: "dial_options \<Rightarrow> nat \<Rightarrow> unit dialing" where
  "arm opts started =
     bind_dial (remaining_ms opts started) (\<lambda>ms st. (Inr (), set_timeouts ms st))"

section \<open>Exact sends and receives\<close>

definition send_all :: "dial_options \<Rightarrow> nat \<Rightarrow> string \<Rightarrow> string \<Rightarrow> unit dialing" where
  "send_all opts started bytes what =
     bind_dial (arm opts started) (\<lambda>_ st.
       let (sent, s1) = send bytes (sock st); st1 = st\<lparr>sock := s1\<rparr> in
       if sent \<noteq> to_int32 (int (length bytes))
       then (Inl (dial_error ''proxy_protocol_error'' (''could not send the '' @ what
               @ '' to the SOCKS5 proxy ('' @ int_str sent @ '' of '' @ nat_str (length bytes)
               @ '' bytes, error '' @ nat_str (last_error s1) @ '')'')), st1)
       else (Inr (), st1))"

definition recv_exact :: "dial_options \<Rightarrow> nat \<Rightarrow> nat \<Rightarrow> string \<Rightarrow> string dialing" where
  "recv_exact opts started count what =
     (if count = 0 then return_dial []
      else bind_dial (arm opts started) (\<lambda>_ st.
        let (received, ws, s1) = recv 0 count count (sock st);
            st1 = st\<lparr>sock := s1\<rparr>;
            buffer = apply_writes 0 (replicate count (CHR 0x00)) ws
        in if received = -1
           then if last_error s1 = error_timeout \<or> last_error s1 = 10060
                then (Inl (dial_error ''proxy_timeout''
                        (''the SOCKS5 proxy did not send the '' @ what @ '' in time'')), st1)
                else (Inl (dial_error ''proxy_closed''
                        (''the SOCKS5 proxy closed the connection during the '' @ what)), st1)
           else if received \<noteq> int count
           then (Inl (dial_error ''proxy_closed''
                   (''the SOCKS5 proxy closed the connection during the '' @ what
                    @ '' ('' @ int_str received @ '' of '' @ nat_str count
                    @ '' bytes, error '' @ nat_str (last_error s1) @ '')'')), st1)
           else (Inr buffer, st1)))"

section \<open>The request\<close>

record addr_entry =
  ai_family :: nat
  ai_addr :: "string option"
  ai_addrlen :: nat

record name_api =
  texts :: text_api
  inet_pton4 :: "wstring \<Rightarrow> string option"
  get_addr_info :: "wstring \<Rightarrow> addr_entry list option"

definition af_inet :: nat where "af_inet = 2"
definition af_inet6 :: nat where "af_inet6 = 23"

definition entry_address :: "nat \<Rightarrow> addr_entry \<Rightarrow> string option" where
  "entry_address family entry =
     (if ai_family entry \<noteq> family then None
      else case ai_addr entry of
          None \<Rightarrow> None
        | Some addr \<Rightarrow>
            (let wanted = (if family = af_inet then 4 else 16) in
             if ai_addrlen entry < wanted then None
             else Some (substr addr (if family = af_inet then 4 else 8) wanted)))"

definition resolve_locally :: "name_api \<Rightarrow> wstring \<Rightarrow> string option" where
  "resolve_locally api host =
     (case get_addr_info api host of
        None \<Rightarrow> None
      | Some entries \<Rightarrow>
          (case List.map_filter (entry_address af_inet) entries
                @ List.map_filter (entry_address af_inet6) entries of
             [] \<Rightarrow> None | a # _ \<Rightarrow> Some a))"

definition endpoint :: "text_api \<Rightarrow> wstring \<Rightarrow> u16 \<Rightarrow> string" where
  "endpoint api host port = utf8 api host @ '':'' @ nat_str (unat port)"

definition connect_request :: "name_api \<Rightarrow> proxy_target \<Rightarrow> wstring \<Rightarrow> u16 \<Rightarrow> string result" where
  "connect_request api target host port =
     bind_result
       (if remote_dns target
        then let name = utf8 (texts api) host in
          if name = [] \<or> 255 < length name
          then Inl (dial_error ''proxy_target_name_invalid''
                 (''the target host name must be 1-255 bytes for socks5h, this one is '' @ nat_str (length name)))
          else Inr (chr_of 3 # chr_of (length name) # name)
        else case inet_pton4 api host of
            Some v4 \<Rightarrow> Inr (chr_of 1 # v4)
          | None \<Rightarrow>
              (case resolve_locally api host of
                 None \<Rightarrow> Inl (dial_error ''proxy_dns_failed'' (''could not resolve ''
                           @ endpoint (texts api) host port
                           @ '' locally for a socks5 proxy request; socks5h:// lets the proxy resolve it instead''))
               | Some resolved \<Rightarrow> Inr ((if length resolved = 4 then chr_of 1 else chr_of 4) # resolved)))
       (\<lambda>address. Inr ([chr_of 5, chr_of 1, chr_of 0] @ address
          @ [chr_of (unat (drop_bit 8 port AND 0xFF)), chr_of (unat (port AND 0xFF))]))"

definition reply_text :: "nat \<Rightarrow> string" where
  "reply_text code =
     (if code = 1 then ''the SOCKS5 proxy reported a general failure''
      else if code = 2 then ''the SOCKS5 proxy refused this connection (not allowed by ruleset)''
      else if code = 3 then ''the SOCKS5 proxy reported the network as unreachable''
      else if code = 4 then ''the SOCKS5 proxy could not reach the host (its own DNS or route failed)''
      else if code = 5 then ''the target refused the connection through the SOCKS5 proxy''
      else if code = 6 then ''the SOCKS5 proxy reported the TTL expired''
      else if code = 7 then ''the SOCKS5 proxy does not support the CONNECT command''
      else if code = 8 then ''the SOCKS5 proxy does not support the address type asked for''
      else ''the SOCKS5 proxy answered with an unknown reply code '' @ nat_str code)"

definition reply_code :: "nat \<Rightarrow> string" where
  "reply_code code =
     (if code = 1 then ''proxy_general_failure''
      else if code = 2 then ''proxy_not_allowed''
      else if code = 3 then ''proxy_network_unreachable''
      else if code = 4 then ''proxy_host_unreachable''
      else if code = 5 then ''proxy_target_refused''
      else if code = 6 then ''proxy_ttl_expired''
      else if code = 7 then ''proxy_command_unsupported''
      else if code = 8 then ''proxy_address_type_unsupported''
      else ''proxy_reply_unknown'')"

section \<open>The handshake\<close>

definition proxy_where :: "text_api \<Rightarrow> proxy_target \<Rightarrow> string" where
  "proxy_where api t =
     ''the SOCKS5 proxy at '' @ utf8 api (proxy_host t) @ '':'' @ nat_str (unat (proxy_port t))"

definition greeting :: "proxy_target \<Rightarrow> string" where
  "greeting t =
     chr_of 5 # (if has_credentials t then [chr_of 2, chr_of 0, chr_of 2] else [chr_of 1, chr_of 0])"

definition negotiate :: "text_api \<Rightarrow> proxy_target \<Rightarrow> dial_options \<Rightarrow> nat \<Rightarrow> nat dialing" where
  "negotiate api t opts started =
     bind_dial (send_all opts started (greeting t) ''method list'') (\<lambda>_.
     bind_dial (recv_exact opts started 2 ''method reply'') (\<lambda>choice.
       let version = byte (choice ! 0); method = byte (choice ! 1) in
       if version \<noteq> 5 then throw_dial (dial_error ''proxy_protocol_error'' (proxy_where api t @ '' is not SOCKS5''))
       else if method = 255 then throw_dial (dial_error ''proxy_no_acceptable_auth''
              (proxy_where api t @ '' accepts no authentication method this client offers''))
       else if method \<noteq> 0 \<and> method \<noteq> 2 then throw_dial (dial_error ''proxy_no_acceptable_auth''
              (proxy_where api t @ '' chose an authentication method this client does not support''))
       else return_dial method))"

definition authentication :: "proxy_target \<Rightarrow> string" where
  "authentication t =
     chr_of 1 # chr_of (length (proxy_user t)) # proxy_user t
     @ chr_of (length (proxy_password t)) # proxy_password t"

definition authenticate :: "text_api \<Rightarrow> proxy_target \<Rightarrow> dial_options \<Rightarrow> nat \<Rightarrow> unit dialing" where
  "authenticate api t opts started =
     (if \<not> has_credentials t
      then throw_dial (dial_error ''proxy_no_acceptable_auth''
             (proxy_where api t @ '' requires a username and password, and none were given''))
      else bind_dial (send_all opts started (authentication t) ''credentials'') (\<lambda>_.
           bind_dial (recv_exact opts started 2 ''authentication reply'') (\<lambda>verdict.
             if byte (verdict ! 0) \<noteq> 1 then throw_dial (dial_error ''proxy_protocol_error''
                  (proxy_where api t @ '' answered the RFC 1929 authentication with a bad version''))
             else if byte (verdict ! 1) \<noteq> 0 then throw_dial (dial_error ''proxy_auth_failed''
                  (proxy_where api t @ '' rejected the supplied username and password''))
             else return_dial ())))"

definition bound_length :: "text_api \<Rightarrow> proxy_target \<Rightarrow> dial_options \<Rightarrow> nat \<Rightarrow> nat \<Rightarrow> nat dialing" where
  "bound_length api t opts started atyp =
     (if atyp = 1 then return_dial 4
      else if atyp = 4 then return_dial 16
      else if atyp = 3
      then bind_dial (recv_exact opts started 1 ''CONNECT reply'') (\<lambda>len.
             if byte (len ! 0) = 0 then throw_dial (dial_error ''proxy_protocol_error''
                  (proxy_where api t @ '' answered a CONNECT with an empty bound address''))
             else return_dial (byte (len ! 0)))
      else throw_dial (dial_error ''proxy_protocol_error''
             (proxy_where api t @ '' answered with an unknown address type'')))"

definition read_reply :: "text_api \<Rightarrow> proxy_target \<Rightarrow> dial_options \<Rightarrow> nat \<Rightarrow> unit dialing" where
  "read_reply api t opts started =
     bind_dial (recv_exact opts started 4 ''CONNECT reply'') (\<lambda>header.
       let code = byte (header ! 1) in
       if byte (header ! 0) \<noteq> 5 then throw_dial (dial_error ''proxy_protocol_error''
            (proxy_where api t @ '' answered a CONNECT with a bad version''))
       else if code \<noteq> 0 then throw_dial (dial_error (reply_code code)
            (proxy_where api t @ '': '' @ reply_text code))
       else bind_dial (bound_length api t opts started (byte (header ! 3))) (\<lambda>n.
            bind_dial (recv_exact opts started n ''CONNECT reply'') (\<lambda>_.
            bind_dial (recv_exact opts started 2 ''CONNECT reply'') (\<lambda>_. return_dial ()))))"

definition socks5_handshake ::
    "name_api \<Rightarrow> proxy_target \<Rightarrow> dial_options \<Rightarrow> nat \<Rightarrow> wstring \<Rightarrow> u16 \<Rightarrow> unit dialing" where
  "socks5_handshake api t opts started host port =
     bind_dial (negotiate (texts api) t opts started) (\<lambda>method.
     bind_dial (if method = 2 then authenticate (texts api) t opts started else return_dial ()) (\<lambda>_.
     bind_dial (lift_result (connect_request api t host port)) (\<lambda>request.
     bind_dial (send_all opts started request ''CONNECT request'') (\<lambda>_.
       read_reply (texts api) t opts started))))"

section \<open>Lemmas on the steps\<close>

lemma bind_dial_Inr:
  "bind_dial m f st = (Inr y, st') \<longleftrightarrow> (\<exists>x st1. m st = (Inr x, st1) \<and> f x st1 = (Inr y, st'))"
  by (auto simp: bind_dial_def split: prod.splits sum.splits)

lemma bind_dial_cases:
  assumes "bind_dial m f st = (r, st')"
  obtains (error) e where "m st = (Inl e, st')" "r = Inl e"
    | (ok) x st1 where "m st = (Inr x, st1)" "f x st1 = (r, st')"
  using assms by (cases "m st"; cases "fst (m st)") (auto simp: bind_dial_def)

lemma dial_simps [simp]:
  "return_dial x st = (Inr x, st)"
  "throw_dial e st = (Inl e, st)"
  "lift_result r st = (r, st)"
  by (simp_all add: return_dial_def throw_dial_def lift_result_def)

text \<open>A socket is usable when no read is pending on it; arming a step changes timers only.\<close>

abbreviation usable :: "dial_state \<Rightarrow> bool" where
  "usable st \<equiv> \<not> recv_initiated (sock st)"

lemma set_timeouts_frame [simp]:
  "wire (sock (set_timeouts ms st)) = wire (sock st)"
  "sent (sock (set_timeouts ms st)) = sent (sock st)"
  "recv_initiated (sock (set_timeouts ms st)) = recv_initiated (sock st)"
  by (simp_all add: set_timeouts_def set_recv_timeout_seconds_def set_send_timeout_seconds_def Let_def)

lemma remaining_frame: "remaining_ms opts t0 st = (r, st') \<Longrightarrow> sock st' = sock st"
  by (auto simp: remaining_ms_def read_steady_def Let_def split: if_splits list.splits prod.splits)

lemma arm_frame:
  assumes "arm opts t0 st = (r, st')"
  shows "wire (sock st') = wire (sock st) \<and> sent (sock st') = sent (sock st)
    \<and> recv_initiated (sock st') = recv_initiated (sock st)"
  using assms unfolding arm_def
  by (rule bind_dial_cases) (auto dest: remaining_frame)

lemma int32_length: "n < 2 ^ 31 \<Longrightarrow> to_int32 (int n) = int n"
  by (rule to_int32_id) auto

lemma send_all_cases:
  assumes "usable st" and "length bytes < 2 ^ 31" and "send_all opts t0 bytes what st = (r, st')"
  shows "\<exists>p. prefix p bytes \<and> sent (sock st') = sent (sock st) @ p
    \<and> (r = Inr () \<longrightarrow> p = bytes \<and> wire (sock st') = wire (sock st) \<and> usable st')"
  using assms(3) unfolding send_all_def
proof (cases rule: bind_dial_cases)
  case (error e)
  then show ?thesis using arm_frame [OF error(1)] by auto
next
  case (ok x st1)
  note a = arm_frame [OF ok(1)]
  obtain n s1 where s: "send bytes (sock st1) = (n, s1)" by force
  have st': "sock st' = s1" "r = Inr () \<Longrightarrow> n = int (length bytes)"
    using ok(2) s assms(2) by (auto simp: Let_def int32_length split: if_splits)
  have "\<not> recv_initiated (sock st1)" using a assms(1) by simp
  note ready = this
  show ?thesis
  proof (cases "n = int (length bytes)")
    case True
    then have "send_string (sock st1) bytes = (True, s1)" using s by (simp add: send_string_def)
    from sock_stream.send_done [OF ready assms(2) this] show ?thesis using a st' by auto
  next
    case False
    then have "send_string (sock st1) bytes = (False, s1)" using s by (simp add: send_string_def)
    from sock_stream.send_fail [OF ready assms(2) this] show ?thesis using a st' False by auto
  qed
qed

lemma recv_exact_cases:
  assumes "usable st" and "count < 2 ^ 31" and "recv_exact opts t0 count what st = (r, st')"
  shows "sent (sock st') = sent (sock st)
    \<and> (\<forall>b. r = Inr b \<longrightarrow> length b = count \<and> wire (sock st) = b @ wire (sock st') \<and> usable st')"
proof (cases "count = 0")
  case True
  then show ?thesis using assms by (auto simp: recv_exact_def)
next
  case False
  show ?thesis
    using assms(3) unfolding recv_exact_def if_not_P [OF False]
  proof (cases rule: bind_dial_cases)
    case (error e)
    then show ?thesis using arm_frame [OF error(1)] by auto
  next
    case (ok x st1)
    note a = arm_frame [OF ok(1)]
    have ready: "\<not> recv_initiated (sock st1)" using a assms(1) by simp
    obtain n ws s1 where s: "recv 0 count count (sock st1) = (n, ws, s1)" by (metis prod_cases3)
    let ?buf = "apply_writes 0 (replicate count (CHR 0x00)) ws"
    have st': "sock st' = s1" "\<And>b. r = Inr b \<Longrightarrow> n = int count \<and> b = ?buf"
      using ok(2) s by (auto simp: Let_def split: if_splits)
    note f = recv_fresh [OF ready order.refl assms(2) s]
    show ?thesis
    proof (cases "\<exists>b. r = Inr b")
      case True
      then obtain b where b: "r = Inr b" "n = int count" "b = ?buf" using st'(2) by blast
      then have "n \<noteq> -1" by simp
      with f obtain d where d: "n = int (length d)" "wire (sock st1) = d @ wire s1" "\<not> recv_initiated s1"
          "\<forall>buf. length buf = count \<longrightarrow> apply_writes 0 buf ws = d @ drop (length d) buf"
          "sent s1 = sent (sock st1)"
        by blast
      have "?buf = d" using d(4) [rule_format, of "replicate count (CHR 0x00)"] d(1) b(2) by simp
      then show ?thesis using a st'(1) b d(1-3,5) by simp
    next
      case False
      moreover have "sent s1 = sent (sock st1)" using f by (rule conjunct1)
      ultimately show ?thesis using a st'(1) by simp
    qed
  qed
qed

section \<open>What each phase sends and consumes\<close>

lemma two_bytes: "length b = 2 \<Longrightarrow> b = [b ! 0, b ! 1]"
  by (cases b; cases "tl b") auto

lemma byte_eq_chr: "n < 256 \<Longrightarrow> byte c = n \<longleftrightarrow> c = chr_of n"
  by (metis byte_chr_of chr_of_byte mod_less)

lemma negotiate_cases:
  assumes "usable st" and "negotiate api t opts t0 st = (r, st')"
  shows "\<exists>p. prefix p (greeting t) \<and> sent (sock st') = sent (sock st) @ p
    \<and> (\<forall>m. r = Inr m \<longrightarrow> p = greeting t \<and> (m = 0 \<or> m = 2)
         \<and> wire (sock st) = [chr_of 5, chr_of m] @ wire (sock st') \<and> usable st')"
  using assms(2) unfolding negotiate_def
proof (cases rule: bind_dial_cases)
  case (error e)
  have "length (greeting t) < 2 ^ 31" by (simp add: greeting_def)
  from send_all_cases [OF assms(1) this error(1)] error(2) show ?thesis by auto
next
  case (ok u st1)
  have "length (greeting t) < 2 ^ 31" by (simp add: greeting_def)
  from send_all_cases [OF assms(1) this ok(1)]
  have s: "sent (sock st1) = sent (sock st) @ greeting t" "wire (sock st1) = wire (sock st)" "usable st1"
    by auto
  from ok(2) show ?thesis
  proof (cases rule: bind_dial_cases)
    case (error e)
    with recv_exact_cases [OF s(3) _ error(1)] s show ?thesis by auto
  next
    case (ok c st2)
    have c: "length c = 2" "wire (sock st1) = c @ wire (sock st2)" "usable st2"
        "sent (sock st2) = sent (sock st1)"
      using recv_exact_cases [OF s(3) _ ok(1)] by auto
    have st': "st' = st2" using ok(2) by (auto simp: Let_def split: if_splits)
    have "c = [chr_of 5, chr_of m] \<and> (m = 0 \<or> m = 2)" if "r = Inr m" for m
      using ok(2) that two_bytes [OF c(1)] by (auto simp: Let_def byte_eq_chr split: if_splits)
    then show ?thesis using s c st' by (intro exI [of _ "greeting t"]) auto
  qed
qed

lemma authenticate_cases:
  assumes "usable st" and "length (authentication t) < 2 ^ 31" and "authenticate api t opts t0 st = (r, st')"
  shows "\<exists>p. prefix p (authentication t) \<and> sent (sock st') = sent (sock st) @ p
    \<and> (\<not> has_credentials t \<longrightarrow> p = [])
    \<and> (r = Inr () \<longrightarrow> p = authentication t \<and> has_credentials t
         \<and> wire (sock st) = [chr_of 1, chr_of 0] @ wire (sock st') \<and> usable st')"
proof (cases "has_credentials t")
  case False
  then show ?thesis using assms(3) by (auto simp: authenticate_def)
next
  case True
  show ?thesis
    using assms(3) unfolding authenticate_def if_not_P [OF iffD2 [OF not_not True]]
  proof (cases rule: bind_dial_cases)
    case (error e)
    from send_all_cases [OF assms(1,2) error(1)] error(2) True show ?thesis by auto
  next
    case (ok u st1)
    from send_all_cases [OF assms(1,2) ok(1)]
    have s: "sent (sock st1) = sent (sock st) @ authentication t" "wire (sock st1) = wire (sock st)" "usable st1"
      by auto
    from ok(2) show ?thesis
    proof (cases rule: bind_dial_cases)
      case (error e)
      with recv_exact_cases [OF s(3) _ error(1)] s True show ?thesis by auto
    next
      case (ok c st2)
      have c: "length c = 2" "wire (sock st1) = c @ wire (sock st2)" "usable st2"
          "sent (sock st2) = sent (sock st1)"
        using recv_exact_cases [OF s(3) _ ok(1)] by auto
      have st': "st' = st2" using ok(2) by (auto split: if_splits)
      have "r = Inr () \<Longrightarrow> c = [chr_of 1, chr_of 0]"
        using ok(2) two_bytes [OF c(1)] by (auto simp: byte_eq_chr split: if_splits)
      then show ?thesis using s c st' True by (intro exI [of _ "authentication t"]) auto
    qed
  qed
qed

text \<open>The reply to a CONNECT, as RFC 1928 lays it out: header, bound address by its type, port.\<close>

definition reply_shape :: "string \<Rightarrow> bool" where
  "reply_shape rep \<longleftrightarrow> 4 \<le> length rep \<and> byte (rep ! 0) = 5 \<and> byte (rep ! 1) = 0
     \<and> (byte (rep ! 3) = 1 \<and> length rep = 10
        \<or> byte (rep ! 3) = 4 \<and> length rep = 22
        \<or> byte (rep ! 3) = 3 \<and> 5 \<le> length rep \<and> byte (rep ! 4) \<noteq> 0 \<and> length rep = 7 + byte (rep ! 4))"

lemma bound_length_cases:
  assumes "usable st" and "bound_length api t opts t0 atyp st = (r, st')"
  shows "sent (sock st') = sent (sock st) \<and>
    (\<forall>n. r = Inr n \<longrightarrow> usable st' \<and> n < 256 \<and> (\<exists>l. wire (sock st) = l @ wire (sock st')
       \<and> (atyp = 1 \<and> l = [] \<and> n = 4 \<or> atyp = 4 \<and> l = [] \<and> n = 16
          \<or> atyp = 3 \<and> n \<noteq> 0 \<and> l = [chr_of n])))"
proof (cases "atyp = 3")
  case False
  then show ?thesis using assms by (auto simp: bound_length_def split: if_splits)
next
  case True
  have "bind_dial (recv_exact opts t0 1 ''CONNECT reply'') (\<lambda>len.
             if byte (len ! 0) = 0 then throw_dial (dial_error ''proxy_protocol_error''
                  (proxy_where api t @ '' answered a CONNECT with an empty bound address''))
             else return_dial (byte (len ! 0))) st = (r, st')"
    using assms(2) True by (simp add: bound_length_def)
  then show ?thesis
  proof (cases rule: bind_dial_cases)
    case (error e)
    with recv_exact_cases [OF assms(1) _ error(1)] show ?thesis by simp
  next
    case (ok c st2)
    have c: "length c = 1" "wire (sock st) = c @ wire (sock st2)" "usable st2"
        "sent (sock st2) = sent (sock st)"
      using recv_exact_cases [OF assms(1) _ ok(1)] by auto
    then obtain x where "c = [x]" by (cases c) auto
    then show ?thesis using ok(2) c True by (auto split: if_splits)
  qed
qed

lemma read_reply_cases:
  assumes "usable st" and "read_reply api t opts t0 st = (r, st')"
  shows "sent (sock st') = sent (sock st) \<and>
    (r = Inr () \<longrightarrow> usable st' \<and> (\<exists>rep. reply_shape rep \<and> wire (sock st) = rep @ wire (sock st')))"
  using assms(2) unfolding read_reply_def
proof (cases rule: bind_dial_cases)
  case (error e)
  with recv_exact_cases [OF assms(1) _ error(1)] show ?thesis by simp
next
  case (ok h st1)
  have h: "length h = 4" "wire (sock st) = h @ wire (sock st1)" "usable st1"
      "sent (sock st1) = sent (sock st)"
    using recv_exact_cases [OF assms(1) _ ok(1)] by auto
  show ?thesis
  proof (cases "byte (h ! 0) = 5 \<and> byte (h ! 1) = 0")
    case False
    then show ?thesis using ok(2) h by (auto simp: Let_def split: if_splits)
  next
    case True
    then have "bind_dial (bound_length api t opts t0 (byte (h ! 3))) (\<lambda>n.
            bind_dial (recv_exact opts t0 n ''CONNECT reply'') (\<lambda>_.
            bind_dial (recv_exact opts t0 2 ''CONNECT reply'') (\<lambda>_. return_dial ()))) st1 = (r, st')"
      using ok(2) by (simp add: Let_def)
    then show ?thesis
    proof (cases rule: bind_dial_cases)
      case (error e)
      with bound_length_cases [OF h(3) error(1)] h show ?thesis by simp
    next
      case (ok n st2)
      note b = bound_length_cases [OF h(3) ok(1)]
      then obtain l where l: "wire (sock st1) = l @ wire (sock st2)" "usable st2" "n < 256"
          "sent (sock st2) = sent (sock st1)"
          "byte (h ! 3) = 1 \<and> l = [] \<and> n = 4 \<or> byte (h ! 3) = 4 \<and> l = [] \<and> n = 16
           \<or> byte (h ! 3) = 3 \<and> n \<noteq> 0 \<and> l = [chr_of n]" by auto
      have n: "n < 2 ^ 31" using l(3) by simp
      from ok(2) show ?thesis
      proof (cases rule: bind_dial_cases)
        case (error e)
        with recv_exact_cases [OF l(2) n error(1)] h l show ?thesis by simp
      next
        case (ok a st3)
        have a: "length a = n" "wire (sock st2) = a @ wire (sock st3)" "usable st3"
            "sent (sock st3) = sent (sock st2)"
          using recv_exact_cases [OF l(2) n ok(1)] by auto
        from ok(2) show ?thesis
        proof (cases rule: bind_dial_cases)
          case (error e)
          with recv_exact_cases [OF a(3) _ error(1)] h l a show ?thesis by simp
        next
          case (ok p st4)
          have p: "length p = 2" "wire (sock st3) = p @ wire (sock st4)" "usable st4"
              "sent (sock st4) = sent (sock st3)"
            using recv_exact_cases [OF a(3) _ ok(1)] by auto
          have "reply_shape (h @ l @ a @ p)"
            using l(5,3) True h(1) a(1) p(1) by (auto simp: reply_shape_def nth_append)
          then show ?thesis
            using ok(2) h l a p by (intro conjI impI exI [of _ "h @ l @ a @ p"]) auto
        qed
      qed
    qed
  qed
qed

section \<open>Properties of the handshake\<close>

definition request_bytes :: "name_api \<Rightarrow> proxy_target \<Rightarrow> wstring \<Rightarrow> u16 \<Rightarrow> string" where
  "request_bytes api t host port = (case connect_request api t host port of Inl e \<Rightarrow> [] | Inr q \<Rightarrow> q)"

lemma handshake_tail:
  assumes "usable st" and "length (request_bytes api t host port) < 2 ^ 31"
    and "bind_dial (lift_result (connect_request api t host port)) (\<lambda>request.
     bind_dial (send_all opts t0 request ''CONNECT request'') (\<lambda>_.
       read_reply (texts api) t opts t0)) st = (r, st')"
  shows "\<exists>p. prefix p (request_bytes api t host port) \<and> sent (sock st') = sent (sock st) @ p
    \<and> (r = Inr () \<longrightarrow> p = request_bytes api t host port \<and> usable st'
         \<and> (\<exists>rep. reply_shape rep \<and> wire (sock st) = rep @ wire (sock st')))"
  using assms(3)
proof (cases rule: bind_dial_cases)
  case (error e)
  then show ?thesis by simp
next
  case (ok q st1)
  then have q: "request_bytes api t host port = q" "st1 = st" by (simp_all add: request_bytes_def)
  from ok(2) show ?thesis
  proof (cases rule: bind_dial_cases)
    case (error e)
    with send_all_cases [OF assms(1) assms(2) [unfolded q]] q show ?thesis by fastforce
  next
    case (ok u st2)
    from send_all_cases [OF assms(1) assms(2) [unfolded q] ok(1) [unfolded q(2)]]
    have s: "sent (sock st2) = sent (sock st) @ q" "wire (sock st2) = wire (sock st)" "usable st2" by auto
    from read_reply_cases [OF s(3) ok(2)] s q show ?thesis by (intro exI [of _ q]) auto
  qed
qed

definition auth_bytes :: "proxy_target \<Rightarrow> nat \<Rightarrow> string" where
  "auth_bytes t m = (if m = 2 then authentication t else [])"

lemma handshake_cases:
  assumes "usable st" and "length (authentication t) < 2 ^ 31" and "length (request_bytes api t host port) < 2 ^ 31"
    and "socks5_handshake api t opts t0 host port st = (r, st')"
  shows "\<exists>p. sent (sock st') = sent (sock st) @ p
    \<and> (prefix p (greeting t)
       \<or> (\<exists>m w. (m = 0 \<or> m = 2) \<and> wire (sock st) = [chr_of 5, chr_of m] @ w
            \<and> (m = 2 \<and> \<not> has_credentials t \<longrightarrow> p = greeting t)
            \<and> prefix p (greeting t @ auth_bytes t m @ request_bytes api t host port)))
    \<and> (r = Inr () \<longrightarrow> usable st' \<and> (\<exists>m rep. (m = 0 \<or> m = 2 \<and> has_credentials t)
         \<and> p = greeting t @ auth_bytes t m @ request_bytes api t host port
         \<and> reply_shape rep
         \<and> wire (sock st) = [chr_of 5, chr_of m] @ (if m = 2 then [chr_of 1, chr_of 0] else [])
              @ rep @ wire (sock st')))"
  using assms(4) unfolding socks5_handshake_def
proof (cases rule: bind_dial_cases)
  case (error e)
  with negotiate_cases [OF assms(1) error(1)] show ?thesis by auto
next
  case (ok m st1)
  from negotiate_cases [OF assms(1) ok(1)]
  have n: "sent (sock st1) = sent (sock st) @ greeting t" "m = 0 \<or> m = 2"
      "wire (sock st) = [chr_of 5, chr_of m] @ wire (sock st1)" "usable st1" by auto
  from ok(2) show ?thesis
  proof (cases rule: bind_dial_cases)
    case (error e)
    then have m: "m = 2" "authenticate (texts api) t opts t0 st1 = (Inl e, st')"
      by (auto split: if_splits)
    from authenticate_cases [OF n(4) assms(2) m(2)] obtain p where
        p: "prefix p (authentication t)" "sent (sock st') = sent (sock st1) @ p" "\<not> has_credentials t \<longrightarrow> p = []"
      by blast
    have "prefix (greeting t @ p) (greeting t @ auth_bytes t m @ request_bytes api t host port)"
      using p(1) m(1) by (simp add: auth_bytes_def prefix_append)
    then show ?thesis using n p error(2) by (intro exI [of _ "greeting t @ p"]) auto
  next
    case (ok u st2)
    have a: "sent (sock st2) = sent (sock st1) @ auth_bytes t m \<and> usable st2
        \<and> wire (sock st1) = (if m = 2 then [chr_of 1, chr_of 0] else []) @ wire (sock st2)
        \<and> (m = 2 \<longrightarrow> has_credentials t)"
    proof (cases "m = 2")
      case True
      then have "authenticate (texts api) t opts t0 st1 = (Inr u, st2)" using ok(1) by simp
      from authenticate_cases [OF n(4) assms(2) this] obtain p where
          "sent (sock st2) = sent (sock st1) @ p" "p = authentication t" "has_credentials t"
          "wire (sock st1) = [chr_of 1, chr_of 0] @ wire (sock st2)" "usable st2" by auto
      then show ?thesis using True by (simp add: auth_bytes_def)
    next
      case False
      then show ?thesis using ok(1) n(4) by (simp add: auth_bytes_def)
    qed
    note a = conjunct1 [OF a] conjunct1 [OF conjunct2 [OF a]]
      conjunct1 [OF conjunct2 [OF conjunct2 [OF a]]] conjunct2 [OF conjunct2 [OF conjunct2 [OF a]]]
    from handshake_tail [OF a(2) assms(3) ok(2)] obtain p where
        p: "prefix p (request_bytes api t host port)" "sent (sock st') = sent (sock st2) @ p"
        "r = Inr () \<longrightarrow> p = request_bytes api t host port \<and> usable st'
           \<and> (\<exists>rep. reply_shape rep \<and> wire (sock st2) = rep @ wire (sock st'))" by blast
    have pre: "prefix (greeting t @ auth_bytes t m @ p)
        (greeting t @ auth_bytes t m @ request_bytes api t host port)" using p(1) by simp
    have out: "sent (sock st') = sent (sock st) @ greeting t @ auth_bytes t m @ p"
      using n(1) a(1) p(2) by simp
    have cred: "\<not> (m = 2 \<and> \<not> has_credentials t)" using a(4) by blast
    have reply: "\<exists>rep. reply_shape rep \<and> wire (sock st) = [chr_of 5, chr_of m]
          @ (if m = 2 then [chr_of 1, chr_of 0] else []) @ rep @ wire (sock st')" if "r = Inr ()"
      using p(3) that n(3) a(3) by auto
    show ?thesis
    proof (intro exI [of _ "greeting t @ auth_bytes t m @ p"] conjI impI)
      show "sent (sock st') = sent (sock st) @ greeting t @ auth_bytes t m @ p" by (rule out)
      show "prefix (greeting t @ auth_bytes t m @ p) (greeting t) \<or>
        (\<exists>m' w. (m' = 0 \<or> m' = 2) \<and> wire (sock st) = [chr_of 5, chr_of m'] @ w
            \<and> (m' = 2 \<and> \<not> has_credentials t \<longrightarrow> greeting t @ auth_bytes t m @ p = greeting t)
            \<and> prefix (greeting t @ auth_bytes t m @ p)
                 (greeting t @ auth_bytes t m' @ request_bytes api t host port))"
        by (rule disjI2, rule exI [of _ m], rule exI [of _ "wire (sock st1)"], intro conjI)
          (rule n(2), rule n(3), use cred in blast, rule pre)
    next
      assume "r = Inr ()"
      then show "usable st'" using p(3) by blast
    next
      assume "r = Inr ()"
      from reply [OF this] obtain rep where "reply_shape rep"
          "wire (sock st) = [chr_of 5, chr_of m] @ (if m = 2 then [chr_of 1, chr_of 0] else []) @ rep @ wire (sock st')"
        by blast
      moreover have "p = request_bytes api t host port" using p(3) \<open>r = Inr ()\<close> by blast
      moreover have "m = 0 \<or> m = 2 \<and> has_credentials t" using n(2) cred by blast
      ultimately show "\<exists>m' rep. (m' = 0 \<or> m' = 2 \<and> has_credentials t)
         \<and> greeting t @ auth_bytes t m @ p = greeting t @ auth_bytes t m' @ request_bytes api t host port
         \<and> reply_shape rep
         \<and> wire (sock st) = [chr_of 5, chr_of m'] @ (if m' = 2 then [chr_of 1, chr_of 0] else [])
              @ rep @ wire (sock st')"
        by (intro exI [of _ m] exI [of _ rep]) simp
    qed
  qed
qed

text \<open>
  C24. A handshake that succeeds has put exactly three messages on the wire, the greeting, the
  credentials when and only when the proxy chose method 2, and the CONNECT request; and it has consumed
  exactly the proxy's answers: the method choice, the verdict when there was one, and one reply of the
  form of RFC 1928. What follows the reply is the target's data and is left unread.
\<close>

theorem socks5_exchange:
  assumes "usable st" and "length (proxy_user t) \<le> 255" and "length (proxy_password t) \<le> 255"
    and "length (request_bytes api t host port) < 2 ^ 31"
    and "socks5_handshake api t opts t0 host port st = (Inr (), st')"
  shows "\<exists>m rep. (m = 0 \<or> m = 2 \<and> has_credentials t) \<and> reply_shape rep
    \<and> sent (sock st') = sent (sock st) @ greeting t @ auth_bytes t m @ request_bytes api t host port
    \<and> wire (sock st) = [chr_of 5, chr_of m] @ (if m = 2 then [chr_of 1, chr_of 0] else [])
         @ rep @ wire (sock st')"
proof -
  have "length (authentication t) < 2 ^ 31" using assms(2,3) by (simp add: authentication_def)
  from handshake_cases [OF assms(1) this assms(4,5)] obtain p where
      p: "sent (sock st') = sent (sock st) @ p"
      "\<exists>m rep. (m = 0 \<or> m = 2 \<and> has_credentials t)
         \<and> p = greeting t @ auth_bytes t m @ request_bytes api t host port
         \<and> reply_shape rep
         \<and> wire (sock st) = [chr_of 5, chr_of m] @ (if m = 2 then [chr_of 1, chr_of 0] else [])
              @ rep @ wire (sock st')"
    by (elim exE conjE) (rule that, assumption, drule mp, rule refl, erule conjunct2)
  from p(2) show ?thesis unfolding p(1) by (elim exE conjE) (intro exI conjI; (assumption | simp))
qed

text \<open>
  C26. The user name and the password reach the wire only when the proxy's method choice is 5, 2 and
  credentials were given: in every other case, whatever happens and however the handshake ends, the
  bytes sent are a prefix of the greeting and the CONNECT request.
\<close>

theorem socks5_credentials_only_on_request:
  assumes "usable st" and "length (proxy_user t) \<le> 255" and "length (proxy_password t) \<le> 255"
    and "length (request_bytes api t host port) < 2 ^ 31"
    and "socks5_handshake api t opts t0 host port st = (r, st')"
    and "\<not> prefix [chr_of 5, chr_of 2] (wire (sock st)) \<or> \<not> has_credentials t"
  shows "\<exists>p. sent (sock st') = sent (sock st) @ p \<and> prefix p (greeting t @ request_bytes api t host port)"
proof -
  have "length (authentication t) < 2 ^ 31" using assms(2,3) by (simp add: authentication_def)
  from handshake_cases [OF assms(1) this assms(4,5)] obtain p where
      p: "sent (sock st') = sent (sock st) @ p"
      "prefix p (greeting t)
       \<or> (\<exists>m w. (m = 0 \<or> m = 2) \<and> wire (sock st) = [chr_of 5, chr_of m] @ w
            \<and> (m = 2 \<and> \<not> has_credentials t \<longrightarrow> p = greeting t)
            \<and> prefix p (greeting t @ auth_bytes t m @ request_bytes api t host port))"
    by (elim exE conjE) (rule that)
  have "prefix p (greeting t @ request_bytes api t host port)"
  proof (cases "prefix p (greeting t)")
    case True
    then show ?thesis by (auto simp: prefix_def)
  next
    case False
    with p(2) obtain m w where m: "m = 0 \<or> m = 2" "wire (sock st) = [chr_of 5, chr_of m] @ w"
        "m = 2 \<and> \<not> has_credentials t \<longrightarrow> p = greeting t"
        "prefix p (greeting t @ auth_bytes t m @ request_bytes api t host port)" by blast
    have "m \<noteq> 2"
    proof
      assume "m = 2"
      then have "prefix [chr_of 5, chr_of 2] (wire (sock st))" using m(2) by simp
      then have "p = greeting t" using assms(6) m(3) \<open>m = 2\<close> by blast
      then show False using False by simp
    qed
    then show ?thesis using m(4) by (simp add: auth_bytes_def)
  qed
  with p(1) show ?thesis by blast
qed

section \<open>Credentials do not influence anything but the wire\<close>

text \<open>
  Every operation of the socket commutes with replacing what has been sent, and a send depends on
  its data only through the length.
\<close>

definition resent :: "string \<Rightarrow> base_sock \<Rightarrow> base_sock" where
  "resent y s = s\<lparr>sent := y\<rparr>"

lemma resent_fields [simp]:
  "sent (resent y s) = y"
  "wire (resent y s) = wire s"
  "last_error (resent y s) = last_error s"
  "recv_initiated (resent y s) = recv_initiated s"
  "recv_target (resent y s) = recv_target s"
  "actual_socket (resent y s) = actual_socket s"
  "recv_end_time (resent y s) = recv_end_time s"
  "send_end_time (resent y s) = send_end_time s"
  "recv_timer_automatic (resent y s) = recv_timer_automatic s"
  "send_timer_automatic (resent y s) = send_timer_automatic s"
  "recv_timeout_seconds (resent y s) = recv_timeout_seconds s"
  "send_timeout_seconds (resent y s) = send_timeout_seconds s"
  "clock (resent y s) = clock s"
  "recv_answers (resent y s) = recv_answers s"
  "send_answers (resent y s) = send_answers s"
  "close_answers (resent y s) = close_answers s"
  by (simp_all add: resent_def)

lemma resent_updates [simp]:
  "(resent y s)\<lparr>clock := a\<rparr> = resent y (s\<lparr>clock := a\<rparr>)"
  "(resent y s)\<lparr>last_error := b\<rparr> = resent y (s\<lparr>last_error := b\<rparr>)"
  "(resent y s)\<lparr>recv_answers := c\<rparr> = resent y (s\<lparr>recv_answers := c\<rparr>)"
  "(resent y s)\<lparr>send_answers := c\<rparr> = resent y (s\<lparr>send_answers := c\<rparr>)"
  "(resent y s)\<lparr>close_answers := d\<rparr> = resent y (s\<lparr>close_answers := d\<rparr>)"
  "(resent y s)\<lparr>actual_socket := e\<rparr> = resent y (s\<lparr>actual_socket := e\<rparr>)"
  "(resent y s)\<lparr>recv_initiated := f\<rparr> = resent y (s\<lparr>recv_initiated := f\<rparr>)"
  "(resent y s)\<lparr>recv_target := g\<rparr> = resent y (s\<lparr>recv_target := g\<rparr>)"
  "(resent y s)\<lparr>wire := h\<rparr> = resent y (s\<lparr>wire := h\<rparr>)"
  "(resent y s)\<lparr>recv_end_time := i\<rparr> = resent y (s\<lparr>recv_end_time := i\<rparr>)"
  "(resent y s)\<lparr>send_end_time := i\<rparr> = resent y (s\<lparr>send_end_time := i\<rparr>)"
  "(resent y s)\<lparr>recv_timeout_seconds := j\<rparr> = resent y (s\<lparr>recv_timeout_seconds := j\<rparr>)"
  "(resent y s)\<lparr>send_timeout_seconds := j\<rparr> = resent y (s\<lparr>send_timeout_seconds := j\<rparr>)"
  "(resent y s)\<lparr>recv_timer_automatic := k\<rparr> = resent y (s\<lparr>recv_timer_automatic := k\<rparr>)"
  "(resent y s)\<lparr>send_timer_automatic := k\<rparr> = resent y (s\<lparr>send_timer_automatic := k\<rparr>)"
  "resent y (resent z s) = resent y s"
  by (simp_all add: resent_def)

lemma resent_read_clock [simp]: "read_clock (resent y s) = apsnd (resent y) (read_clock s)"
  by (simp add: read_clock_def split: list.split)

lemma resent_next_recv [simp]: "next_recv (resent y s) = apsnd (resent y) (next_recv s)"
  by (simp add: next_recv_def split: list.split)

lemma resent_next_send [simp]: "next_send (resent y s) = apsnd (resent y) (next_send s)"
  by (simp add: next_send_def split: list.split)

lemma resent_await [simp]: "await_io a b (resent y s) = apsnd (resent y) (await_io a b s)"
  by (simp add: await_io_def)

lemma resent_disconnect [simp]: "disconnect b (resent y s) = apsnd (resent y) (disconnect b s)"
  by (simp add: disconnect_def close_and_invalidate_socket_def Let_def split: list.split prod.split)

lemma resent_timers [simp]:
  "start_recv_timer_internal (resent y s) = resent y (start_recv_timer_internal s)"
  "start_send_timer_internal (resent y s) = resent y (start_send_timer_internal s)"
  by (simp_all add: start_recv_timer_internal_def start_send_timer_internal_def split: prod.split)

lemma resent_finish_write [simp]: "finish_write a n c (resent y s) = apsnd (resent y) (finish_write a n c s)"
  by (simp add: finish_write_def Let_def)

lemma resent_start_write:
  "length d = length e \<Longrightarrow> start_write a d s = (k, u) \<Longrightarrow> \<exists>z. start_write a e (resent y s) = (k, resent z u)"
  by (auto simp: start_write_def Let_def resent_def)

lemma resent_send_partial:
  assumes "length d = length e" and "send_partial d s = (r, u)"
  shows "\<exists>z. send_partial e (resent y s) = (r, resent z u)"
proof -
  obtain a s1 where n: "next_send s = (a, s1)" by force
  obtain k s2 where w: "start_write a d s1 = (k, s2)" by force
  obtain z where z: "start_write a e (resent y s1) = (k, resent z s2)"
    using resent_start_write [OF assms(1) w] by blast
  obtain i s3 where c: "read_clock s2 = (i, s3)" by force
  obtain b s4 where b: "await_io a (io_started a) s3 = (b, s4)" by force
  show ?thesis
    using assms(2) n w z c b
    by (cases "io_reset_error a"; cases "uint (send_end_time s3) - int i \<le> 0")
      (auto simp: send_partial_def)
qed

lemma resent_send_loop:
  "length d = length e \<Longrightarrow> send_loop d put s = (r, u) \<Longrightarrow> \<exists>z. send_loop e put (resent y s) = (r, resent z u)"
proof (induction d put s arbitrary: y rule: send_loop.induct)
  case (1 d put s)
  show ?case
  proof (cases "put < length d")
    case False
    then have "r = int put" "u = s"
      using "1.prems"(2) send_loop.simps [of d put s] by simp_all
    then show ?thesis using False "1.prems"(1)
      by (simp add: send_loop.simps [of e put "resent y s"]) blast
  next
    case True
    obtain r1 s1 where p: "send_partial (drop put d) s = (r1, s1)" by force
    obtain z where z: "send_partial (drop put e) (resent y s) = (r1, resent z s1)"
      using resent_send_partial [of "drop put d" "drop put e", OF _ p] "1.prems"(1) by auto
    show ?thesis
    proof (cases "r1 = -1 \<or> r1 \<le> 0")
      case stop: True
      then show ?thesis using p z True "1.prems"
        by (auto simp: send_loop.simps [of d put s] send_loop.simps [of e put "resent y s"] split: if_splits)
    next
      case False
      then have l: "send_loop d (put + nat r1) s1 = (r, u)"
        using p True "1.prems"(2) by (simp add: send_loop.simps [of d put s])
      have "\<exists>x. send_loop e (put + nat r1) (resent z s1) = (r, resent x u)"
        using "1.IH" [OF True p [symmetric] _ _ "1.prems"(1) l] False by simp
      then show ?thesis using z True False "1.prems"(1)
        by (simp add: send_loop.simps [of e put "resent y s"])
    qed
  qed
qed

lemma resent_send:
  "length d = length e \<Longrightarrow> send d s = (r, u) \<Longrightarrow> \<exists>z. send e (resent y s) = (r, resent z u)"
  using resent_send_loop [of d e 0 "if send_timer_automatic s then start_send_timer_internal s else s" r u y]
  unfolding send_def by (cases "send_timer_automatic s") simp_all

lemma resent_finish_read [simp]:
  "finish_read a (resent y s) = apsnd (apsnd (resent y)) (finish_read a s)"
  by (simp add: finish_read_def Let_def)

lemma resent_start_read:
  "start_read a addr len (resent y s) =
     (case start_read a addr len s of Inl u \<Rightarrow> Inl (resent y u) | Inr (b, u) \<Rightarrow> Inr (b, resent y u))"
  by (simp add: start_read_def split: option.split)

lemma resent_recv_partial [simp]:
  "recv_partial addr len (resent y s) = apsnd (apsnd (resent y)) (recv_partial addr len s)"
proof -
  obtain t s1 where c: "read_clock s = (t, s1)" by force
  obtain a s2 where n: "next_recv s1 = (a, s2)" by force
  show ?thesis
  proof (cases "start_read a addr len s2")
    case (Inl u)
    then show ?thesis using c n by (simp add: recv_partial_def resent_start_read)
  next
    case (Inr p)
    then obtain b u where p: "p = (b, u)" by force
    obtain d v where "await_io a b u = (d, v)" by force
    then show ?thesis using c n Inr p by (simp add: recv_partial_def resent_start_read)
  qed
qed

lemma resent_recv_loop:
  "recv_loop addr len minlen got (resent y s) = apsnd (apsnd (resent y)) (recv_loop addr len minlen got s)"
proof (induction addr len minlen got s rule: recv_loop.induct)
  case (1 addr len minlen got s)
  obtain r ws s1 where p: "recv_partial (addr + got) (sz_sub len got) s = (r, ws, s1)"
    by (metis prod_cases3)
  show ?case
  proof (cases "got < minlen \<and> r \<noteq> -1 \<and> \<not> r \<le> 0")
    case True
    obtain r2 ws2 s2 where l: "recv_loop addr len minlen (got + nat r) s1 = (r2, ws2, s2)"
      by (metis prod_cases3)
    have "recv_loop addr len minlen (got + nat r) (resent y s1) = (r2, ws2, resent y s2)"
      using "1.IH" [OF _ p [symmetric] refl] True l by simp
    then show ?thesis using True p l
      by (simp add: recv_loop.simps [of addr len minlen got s] recv_loop.simps [of addr len minlen got "resent y s"])
  next
    case False
    then show ?thesis using p
      by (auto simp: recv_loop.simps [of addr len minlen got s] recv_loop.simps [of addr len minlen got "resent y s"])
  qed
qed

lemma resent_recv [simp]:
  "recv addr len minlen (resent y s) = apsnd (apsnd (resent y)) (recv addr len minlen s)"
  by (simp add: recv_def resent_recv_loop)

definition redial :: "string \<Rightarrow> dial_state \<Rightarrow> dial_state" where
  "redial y st = st\<lparr>sock := resent y (sock st)\<rparr>"

text \<open>Two steps that behave alike on states that differ at most in what has been sent.\<close>

definition blind :: "'a dialing \<Rightarrow> 'a dialing \<Rightarrow> bool" where
  "blind m n \<longleftrightarrow> (\<forall>st y. \<exists>z. n (redial y st) = apsnd (redial z) (m st))"

lemma blind_bind:
  assumes "blind m n" and "\<And>x. blind (f x) (g x)"
  shows "blind (bind_dial m f) (bind_dial n g)"
  unfolding blind_def
proof (intro allI)
  fix st y
  obtain r s1 where m: "m st = (r, s1)" by force
  obtain z where "n (redial y st) = (r, redial z s1)" using assms(1) m unfolding blind_def by (metis apsnd_conv)
  then show "\<exists>z. bind_dial n g (redial y st) = apsnd (redial z) (bind_dial m f st)"
    using assms(2) [unfolded blind_def] m by (cases r) (auto simp: bind_dial_def)
qed

lemma blind_simple [intro]:
  "blind (return_dial x) (return_dial x)"
  "blind (throw_dial e) (throw_dial e)"
  "blind (lift_result r) (lift_result r)"
  by (auto simp: blind_def)

lemma redial_simps [simp]:
  "sock (redial y st) = resent y (sock st)"
  "(redial y st)\<lparr>sock := resent z s\<rparr> = redial z (st\<lparr>sock := s\<rparr>)"
  "steady (redial y st) = steady st"
  "(redial y st)\<lparr>steady := ts\<rparr> = redial y (st\<lparr>steady := ts\<rparr>)"
  by (simp_all add: redial_def)

lemma blind_arm: "blind (arm opts t0) (arm opts t0)"
  unfolding arm_def
proof (rule blind_bind)
  show "blind (remaining_ms opts t0) (remaining_ms opts t0)"
    by (auto simp: blind_def remaining_ms_def read_steady_def Let_def split: list.split)
  show "blind (\<lambda>st. (Inr (), set_timeouts ms st)) (\<lambda>st. (Inr (), set_timeouts ms st))" for ms
    by (auto simp: blind_def set_timeouts_def set_recv_timeout_seconds_def set_send_timeout_seconds_def Let_def)
qed

lemma blind_send_all:
  assumes "length b = length c"
  shows "blind (send_all opts t0 b w) (send_all opts t0 c w)"
  unfolding send_all_def
proof (rule blind_bind [OF blind_arm])
  show "blind (\<lambda>st. let (sent, s1) = send b (sock st); st1 = st\<lparr>sock := s1\<rparr> in
       if sent \<noteq> to_int32 (int (length b))
       then (Inl (dial_error ''proxy_protocol_error'' (''could not send the '' @ w
               @ '' to the SOCKS5 proxy ('' @ int_str sent @ '' of '' @ nat_str (length b)
               @ '' bytes, error '' @ nat_str (last_error s1) @ '')'')), st1)
       else (Inr (), st1))
     (\<lambda>st. let (sent, s1) = send c (sock st); st1 = st\<lparr>sock := s1\<rparr> in
       if sent \<noteq> to_int32 (int (length c))
       then (Inl (dial_error ''proxy_protocol_error'' (''could not send the '' @ w
               @ '' to the SOCKS5 proxy ('' @ int_str sent @ '' of '' @ nat_str (length c)
               @ '' bytes, error '' @ nat_str (last_error s1) @ '')'')), st1)
       else (Inr (), st1))"
    unfolding blind_def
  proof (intro allI)
    fix st :: dial_state and y
    obtain r u where s: "send b (sock st) = (r, u)" by force
    obtain z where z: "send c (resent y (sock st)) = (r, resent z u)"
      using resent_send [OF assms s] by blast
    show "\<exists>z. (let (sent, s1) = send c (sock (redial y st)); st1 = (redial y st)\<lparr>sock := s1\<rparr> in
       if sent \<noteq> to_int32 (int (length c))
       then (Inl (dial_error ''proxy_protocol_error'' (''could not send the '' @ w
               @ '' to the SOCKS5 proxy ('' @ int_str sent @ '' of '' @ nat_str (length c)
               @ '' bytes, error '' @ nat_str (last_error s1) @ '')'')), st1)
       else (Inr (), st1)) = apsnd (redial z) (let (sent, s1) = send b (sock st); st1 = st\<lparr>sock := s1\<rparr> in
       if sent \<noteq> to_int32 (int (length b))
       then (Inl (dial_error ''proxy_protocol_error'' (''could not send the '' @ w
               @ '' to the SOCKS5 proxy ('' @ int_str sent @ '' of '' @ nat_str (length b)
               @ '' bytes, error '' @ nat_str (last_error s1) @ '')'')), st1)
       else (Inr (), st1))"
      using s z assms by (intro exI [of _ z]) (simp add: Let_def)
  qed
qed

lemma blind_recv_exact: "blind (recv_exact opts t0 n w) (recv_exact opts t0 n w)"
proof (cases "n = 0")
  case True
  then show ?thesis by (simp add: recv_exact_def blind_simple)
next
  case False
  then show ?thesis unfolding recv_exact_def if_not_P [OF False]
    by (intro blind_bind [OF blind_arm]) (auto simp: blind_def Let_def split: prod.split)
qed

lemmas blind_intros = blind_bind blind_simple blind_send_all blind_recv_exact

lemma blind_negotiate:
  assumes "greeting t = greeting u" and "proxy_where api t = proxy_where api u"
  shows "blind (negotiate api t opts t0) (negotiate api u opts t0)"
  unfolding negotiate_def assms Let_def by (intro blind_intros refl) (auto intro: blind_simple)

lemma blind_authenticate:
  assumes "has_credentials t = has_credentials u" and "length (authentication t) = length (authentication u)"
    and "proxy_where api t = proxy_where api u"
  shows "blind (authenticate api t opts t0) (authenticate api u opts t0)"
proof (cases "has_credentials u")
  case True
  then show ?thesis
    unfolding authenticate_def assms(1,3) using assms(2)
    by (simp, intro blind_intros) (auto intro: blind_simple)
qed (simp add: authenticate_def assms blind_simple)

lemma blind_read_reply:
  assumes "proxy_where api t = proxy_where api u"
  shows "blind (read_reply api t opts t0) (read_reply api u opts t0)"
proof -
  have "blind (bound_length api t opts t0 a) (bound_length api u opts t0 a)" for a
    unfolding bound_length_def assms
    by (auto intro!: blind_simple blind_bind blind_recv_exact)
  then show ?thesis
    unfolding read_reply_def assms Let_def by (auto intro!: blind_simple blind_bind blind_recv_exact)
qed

text \<open>
  C27. The outcome of the handshake does not depend on the bytes of the credentials: two proxy settings
  that differ only in user names and passwords of the same lengths give the same result, error text
  included, and leave the same state except for what has been sent. So no error, and nothing the
  caller sees, tells anything about them but their lengths.
\<close>

theorem socks5_errors_hide_credentials:
  assumes "length (proxy_user t) = length user" and "length (proxy_password t) = length password"
  shows "\<exists>z. socks5_handshake api (t\<lparr>proxy_user := user, proxy_password := password\<rparr>) opts t0 host port st =
    apsnd (redial z) (socks5_handshake api t opts t0 host port st)"
proof -
  let ?u = "t\<lparr>proxy_user := user, proxy_password := password\<rparr>"
  have w: "proxy_where x t = proxy_where x ?u" for x by (simp add: proxy_where_def)
  have "blind (socks5_handshake api t opts t0 host port) (socks5_handshake api ?u opts t0 host port)"
    unfolding socks5_handshake_def
  proof (intro blind_bind)
    show "blind (negotiate (texts api) t opts t0) (negotiate (texts api) ?u opts t0)"
      by (rule blind_negotiate) (simp_all add: w greeting_def)
    show "blind (if m = 2 then authenticate (texts api) t opts t0 else return_dial ())
        (if m = 2 then authenticate (texts api) ?u opts t0 else return_dial ())" for m
      using blind_authenticate [of t ?u "texts api" opts t0] w assms
      by (auto simp: authentication_def blind_simple)
    show "blind (lift_result (connect_request api t host port)) (lift_result (connect_request api ?u host port))"
      by (simp add: connect_request_def blind_simple)
    show "blind (send_all opts t0 q ''CONNECT request'') (send_all opts t0 q ''CONNECT request'')" for q
      by (rule blind_send_all) simp
    show "blind (read_reply (texts api) t opts t0) (read_reply (texts api) ?u opts t0)"
      by (rule blind_read_reply) (rule w)
  qed
  then have "\<exists>z. socks5_handshake api ?u opts t0 host port (redial (sent (sock st)) st) =
      apsnd (redial z) (socks5_handshake api t opts t0 host port st)"
    by (simp add: blind_def)
  moreover have "redial (sent (sock st)) st = st" by (simp add: redial_def resent_def)
  ultimately show ?thesis by simp
qed

section \<open>A cooperative proxy\<close>

lemma seconds_range: "1 \<le> seconds ms \<and> seconds ms < 2 ^ 31"
proof -
  have "x div 1000 < 2 ^ 31" if "x < 2 ^ 31" "0 \<le> x" for x :: int
    using that by simp
  moreover have "- (- x div 1000) \<le> 1" if "x < 0" for x :: int
    using that by (simp add: pos_imp_zdiv_nonneg_iff)
  ultimately show ?thesis
    using to_int32_range [of "ms + 999"] by (auto simp: seconds_def Let_def)
qed

text \<open>A system that answers at once and completes every request of up to 600 bytes.\<close>

definition prompt :: "nat \<Rightarrow> nat \<Rightarrow> dial_state \<Rightarrow> bool" where
  "prompt i j st \<longleftrightarrow> usable st \<and> clock (sock st) = []
     \<and> recv_answers (sock st) = replicate i (ready_io 600) \<and> send_answers (sock st) = replicate j (ready_io 600)"

lemma arm_prompt:
  assumes "dial_total_timeout_ms opts \<le> 0"
  shows "arm opts t0 st = (Inr (), set_timeouts (dial_connect_timeout_ms opts) st)"
  using assms by (simp add: arm_def bind_dial_def remaining_ms_def)

lemma uint_seconds: "uint (word_of_int (seconds ms) :: u32) = seconds ms"
  using seconds_range [of ms] by (simp add: uint_word_of_int)

lemma seconds_not: "seconds ms \<noteq> -1" "0 < seconds ms" "\<not> seconds ms \<le> 0" "seconds ms \<noteq> 0"
  using seconds_range [of ms] by auto

lemma prompt_read:
  assumes "\<not> recv_initiated s" and "clock s = []" and "recv_answers s = ready_io 600 # as"
    and "wire s = b @ w" and "length b = n" and "0 < n" and "n \<le> 600"
    and "recv_timer_automatic s" and "recv_timeout_seconds s = seconds ms"
  shows "\<exists>s'. recv 0 n n s = (int n, [(0, b)], s') \<and> \<not> recv_initiated s' \<and> clock s' = []
    \<and> recv_answers s' = as \<and> send_answers s' = send_answers s \<and> wire s' = w"
proof -
  have m: "n mod 4294967296 = n" using assms(7) by simp
  have t: "take (min 600 (min n 2147483647)) (b @ w) = b" "b \<noteq> []"
    using assms(5-7) by (auto simp: min_def)
  let ?s = "start_recv_timer_internal s"
  have s: "?s = s\<lparr>recv_end_time := word_of_int (seconds ms)\<rparr>"
    using assms by (simp add: start_recv_timer_internal_def read_clock_def)
  have "\<exists>s'. recv_partial 0 n ?s = (int n, [(0, b)], s') \<and> \<not> recv_initiated s' \<and> clock s' = []
    \<and> recv_answers s' = as \<and> send_answers s' = send_answers s \<and> wire s' = w"
    using assms(1-6) t m
    by (simp add: s recv_partial_def read_clock_def next_recv_def uint_seconds seconds_not start_read_def
        await_io_def finish_read_def ready_io_def silent_io_def Let_def)
  then obtain s' where p: "recv_partial 0 n ?s = (int n, [(0, b)], s')" "\<not> recv_initiated s'" "clock s' = []"
      "recv_answers s' = as" "send_answers s' = send_answers s" "wire s' = w" by blast
  have "recv_loop 0 n n n s' = (int n, [], s')" by (subst recv_loop.simps) simp
  then have "recv 0 n n s = (int n, [(0, b)], s')"
    using p(1) assms(6-8) by (simp add: recv_def recv_loop.simps [of _ _ _ 0] sz_sub_le)
  with p show ?thesis by blast
qed

lemma prompt_recv:
  assumes "dial_total_timeout_ms opts \<le> 0" and "prompt (Suc i) j st"
    and "wire (sock st) = b @ w" and "length b = n" and "0 < n" and "n \<le> 600"
  shows "\<exists>st'. recv_exact opts t0 n what st = (Inr b, st') \<and> prompt i j st' \<and> wire (sock st') = w"
proof -
  let ?u = "set_timeouts (dial_connect_timeout_ms opts) st"
  have "\<exists>s'. recv 0 n n (sock ?u) = (int n, [(0, b)], s') \<and> \<not> recv_initiated s' \<and> clock s' = []
    \<and> recv_answers s' = replicate i (ready_io 600) \<and> send_answers s' = send_answers (sock ?u) \<and> wire s' = w"
    using assms(2-6) seconds_not
    by (intro prompt_read) (auto simp: prompt_def set_timeouts_def set_recv_timeout_seconds_def
        set_send_timeout_seconds_def Let_def)
  then obtain s' where r: "recv 0 n n (sock ?u) = (int n, [(0, b)], s')" "\<not> recv_initiated s'" "clock s' = []"
      "recv_answers s' = replicate i (ready_io 600)" "send_answers s' = send_answers (sock ?u)" "wire s' = w"
    by blast
  have "send_answers (sock ?u) = replicate j (ready_io 600)"
    using assms(2) by (simp add: prompt_def set_timeouts_def set_recv_timeout_seconds_def
        set_send_timeout_seconds_def Let_def)
  then show ?thesis
    using r assms(4,5) arm_prompt [OF assms(1), of t0 st]
    by (simp add: recv_exact_def bind_dial_def prompt_def)
qed

lemma prompt_write:
  assumes "clock s = []" and "send_answers s = ready_io 600 # as" and "0 < length d" and "length d \<le> 600"
    and "send_timer_automatic s" and "send_timeout_seconds s = seconds ms"
  shows "\<exists>s'. send d s = (int (length d), s') \<and> recv_initiated s' = recv_initiated s \<and> clock s' = []
    \<and> recv_answers s' = recv_answers s \<and> send_answers s' = as \<and> wire s' = wire s"
proof -
  have m: "length d mod 4294967296 = length d" using assms(4) by simp
  have k: "min 600 (min (length d) 2147483647) = length d" using assms(4) by simp
  let ?s = "start_send_timer_internal s"
  have s: "?s = s\<lparr>send_end_time := word_of_int (seconds ms)\<rparr>"
    using assms by (simp add: start_send_timer_internal_def read_clock_def)
  have "\<exists>s'. send_partial d ?s = (int (length d), s') \<and> recv_initiated s' = recv_initiated s \<and> clock s' = []
    \<and> recv_answers s' = recv_answers s \<and> send_answers s' = as \<and> wire s' = wire s"
    using assms(1,2) m k
    by (simp add: s send_partial_def read_clock_def next_send_def uint_seconds seconds_not start_write_def
        await_io_def finish_write_def ready_io_def silent_io_def Let_def)
  then obtain s' where p: "send_partial d ?s = (int (length d), s')" "recv_initiated s' = recv_initiated s"
      "clock s' = []" "recv_answers s' = recv_answers s" "send_answers s' = as" "wire s' = wire s" by blast
  have "send_loop d (length d) s' = (int (length d), s')" by (subst send_loop.simps) simp
  then have "send d s = (int (length d), s')"
    using p(1) assms(3,5) by (simp add: send_def send_loop.simps [of _ 0])
  with p show ?thesis by blast
qed

lemma prompt_send:
  assumes "dial_total_timeout_ms opts \<le> 0" and "prompt i (Suc j) st"
    and "0 < length d" and "length d \<le> 600"
  shows "\<exists>st'. send_all opts t0 d what st = (Inr (), st') \<and> prompt i j st' \<and> wire (sock st') = wire (sock st)"
proof -
  let ?u = "set_timeouts (dial_connect_timeout_ms opts) st"
  have u: "clock (sock ?u) = []" "send_answers (sock ?u) = ready_io 600 # replicate j (ready_io 600)"
      "send_timer_automatic (sock ?u)" "send_timeout_seconds (sock ?u) = seconds (dial_connect_timeout_ms opts)"
      "recv_answers (sock ?u) = replicate i (ready_io 600)" "\<not> recv_initiated (sock ?u)"
    using assms(2) seconds_not by (auto simp: prompt_def set_timeouts_def set_recv_timeout_seconds_def
        set_send_timeout_seconds_def Let_def)
  from prompt_write [OF u(1,2) assms(3,4) u(3,4)] obtain s' where
      r: "send d (sock ?u) = (int (length d), s')" "recv_initiated s' = recv_initiated (sock ?u)" "clock s' = []"
      "recv_answers s' = recv_answers (sock ?u)" "send_answers s' = replicate j (ready_io 600)"
      "wire s' = wire (sock ?u)" by blast
  have "to_int32 (int (length d)) = int (length d)" using assms(4) by (intro int32_length) simp
  then show ?thesis
    using r u arm_prompt [OF assms(1), of t0 st] by (simp add: send_all_def bind_dial_def prompt_def)
qed

lemma reply_split:
  assumes "reply_shape rep"
  obtains h l a p where "rep = h @ l @ a @ p" "length h = 4" "length p = 2" "byte (h ! 0) = 5" "byte (h ! 1) = 0"
    "a \<noteq> []" "length a \<le> 255"
    "byte (h ! 3) = 1 \<and> l = [] \<and> length a = 4 \<or> byte (h ! 3) = 4 \<and> l = [] \<and> length a = 16
     \<or> byte (h ! 3) = 3 \<and> l = [chr_of (length a)]"
proof -
  have len: "4 \<le> length rep" using assms by (simp add: reply_shape_def)
  let ?h = "take 4 rep"
  have h: "length ?h = 4" "byte (?h ! 0) = 5" "byte (?h ! 1) = 0" "?h ! 3 = rep ! 3"
    using assms by (auto simp: reply_shape_def)
  consider (v4) "byte (rep ! 3) = 1" "length rep = 10" | (v6) "byte (rep ! 3) = 4" "length rep = 22"
    | (name) "byte (rep ! 3) = 3" "byte (rep ! 4) \<noteq> 0" "length rep = 7 + byte (rep ! 4)"
    using assms by (auto simp: reply_shape_def)
  then show ?thesis
  proof cases
    case v4
    show ?thesis
      by (rule that [of ?h "[]" "take 4 (drop 4 rep)" "drop 8 rep"])
        (use h v4 in \<open>auto simp: append_take_drop_id [of 4 "drop 4 rep", simplified]\<close>)
  next
    case v6
    show ?thesis
      by (rule that [of ?h "[]" "take 16 (drop 4 rep)" "drop 20 rep"])
        (use h v6 in \<open>auto simp: append_take_drop_id [of 16 "drop 4 rep", simplified]\<close>)
  next
    case name
    let ?n = "byte (rep ! 4)"
    have "drop 4 rep = rep ! 4 # drop 5 rep" using name(3) by (simp add: Cons_nth_drop_Suc [symmetric])
    moreover have "drop 5 rep = take ?n (drop 5 rep) @ drop (5 + ?n) rep"
      by (metis append_take_drop_id drop_drop add.commute)
    ultimately have "rep = ?h @ [rep ! 4] @ take ?n (drop 5 rep) @ drop (5 + ?n) rep"
      by (metis append_take_drop_id append_Cons append_Nil)
    moreover have "length (take ?n (drop 5 rep)) = ?n" using name(3) by simp
    ultimately show ?thesis
      using h name byte_less [of "rep ! 4"]
      by (intro that [of ?h "[rep ! 4]" "take ?n (drop 5 rep)" "drop (5 + ?n) rep"]) auto
  qed
qed

lemma cooperative_reply:
  assumes "dial_total_timeout_ms opts \<le> 0" and "prompt (4 + i) j st"
    and "wire (sock st) = rep @ w" and "reply_shape rep"
  shows "\<exists>st'. read_reply api t opts t0 st = (Inr (), st') \<and> wire (sock st') = w"
proof -
  from assms(4) obtain h l a p where r: "rep = h @ l @ a @ p" "length h = 4" "length p = 2"
      "byte (h ! 0) = 5" "byte (h ! 1) = 0" "a \<noteq> []" "length a \<le> 255"
      "byte (h ! 3) = 1 \<and> l = [] \<and> length a = 4 \<or> byte (h ! 3) = 4 \<and> l = [] \<and> length a = 16
       \<or> byte (h ! 3) = 3 \<and> l = [chr_of (length a)]"
    by (rule reply_split)
  have "prompt (Suc (3 + i)) j st" "wire (sock st) = h @ (l @ a @ p @ w)"
    using assms(2,3) r(1) by (simp_all add: add.commute)
  from prompt_recv [OF assms(1) this r(2)] obtain st1 where
      s1: "recv_exact opts t0 4 ''CONNECT reply'' st = (Inr h, st1)" "prompt (3 + i) j st1"
      "wire (sock st1) = l @ a @ p @ w" by auto
  have "\<exists>st2. bound_length api t opts t0 (byte (h ! 3)) st1 = (Inr (length a), st2)
      \<and> (\<exists>k. prompt (Suc (Suc k)) j st2) \<and> wire (sock st2) = a @ p @ w"
  proof (cases "byte (h ! 3) = 3")
    case False
    then show ?thesis using r(8) s1 by (auto simp: bound_length_def numeral_3_eq_3)
  next
    case True
    then have l: "l = [chr_of (length a)]" using r(8) by auto
    have "prompt (Suc (2 + i)) j st1" using s1(2) by (simp add: numeral_3_eq_3 numeral_2_eq_2)
    from prompt_recv [OF assms(1) this s1(3) [unfolded l], of 1 t0 "''CONNECT reply''"] l obtain st2 where
        "recv_exact opts t0 1 ''CONNECT reply'' st1 = (Inr l, st2)" "prompt (2 + i) j st2"
        "wire (sock st2) = a @ p @ w" by auto
    then show ?thesis
      using True l r(6,7) by (auto simp: bound_length_def bind_dial_def numeral_2_eq_2)
  qed
  then obtain st2 k where s2: "bound_length api t opts t0 (byte (h ! 3)) st1 = (Inr (length a), st2)"
      "prompt (Suc (Suc k)) j st2" "wire (sock st2) = a @ p @ w" by blast
  from prompt_recv [OF assms(1) s2(2,3) refl] r(6,7) obtain st3 where
      s3: "recv_exact opts t0 (length a) ''CONNECT reply'' st2 = (Inr a, st3)" "prompt (Suc k) j st3"
      "wire (sock st3) = p @ w" by fastforce
  from prompt_recv [OF assms(1) s3(2,3) r(3)] obtain st4 where
      s4: "recv_exact opts t0 2 ''CONNECT reply'' st3 = (Inr p, st4)" "wire (sock st4) = w" by auto
  show ?thesis
    using r(4,5) s4(2)
    by (simp add: read_reply_def bind_dial_def s1(1) Let_def bind_dial_def s2(1)
        bind_dial_def s3(1) s4(1))
qed

lemma cooperative_handshake:
  assumes "dial_total_timeout_ms opts \<le> 0" and "prompt 6 3 st"
    and "m = 0 \<or> m = 2 \<and> has_credentials t" and "reply_shape rep"
    and "wire (sock st) = [chr_of 5, chr_of m] @ (if m = 2 then [chr_of 1, chr_of 0] else []) @ rep @ w"
    and "length (proxy_user t) \<le> 255" and "length (proxy_password t) \<le> 255"
    and "connect_request api t host port = Inr q" and "q \<noteq> []" and "length q \<le> 600"
  shows "\<exists>st'. socks5_handshake api t opts t0 host port st = (Inr (), st') \<and> wire (sock st') = w"
proof -
  have p: "prompt (Suc 5) (Suc 2) st" using assms(2) by simp
  have "0 < length (greeting t)" "length (greeting t) \<le> 600" by (simp_all add: greeting_def)
  from prompt_send [OF assms(1) p this] obtain s1 where
      s1: "send_all opts t0 (greeting t) ''method list'' st = (Inr (), s1)" "prompt (Suc 5) 2 s1"
      "wire (sock s1) = wire (sock st)" by blast
  have "wire (sock s1) = [chr_of 5, chr_of m] @ ((if m = 2 then [chr_of 1, chr_of 0] else []) @ rep @ w)"
    using s1(3) assms(5) by simp
  from prompt_recv [OF assms(1) s1(2) this, of 2 t0 "''method reply''"] obtain s2 where
      s2: "recv_exact opts t0 2 ''method reply'' s1 = (Inr [chr_of 5, chr_of m], s2)" "prompt 5 2 s2"
      "wire (sock s2) = (if m = 2 then [chr_of 1, chr_of 0] else []) @ rep @ w" by auto
  have n: "negotiate (texts api) t opts t0 st = (Inr m, s2)"
    using assms(3) by (auto simp: negotiate_def bind_dial_def s1(1) s2(1) Let_def)
  have "\<exists>s4 i j. (if m = 2 then authenticate (texts api) t opts t0 else return_dial ()) s2 = (Inr (), s4)
      \<and> prompt (4 + i) (Suc j) s4 \<and> wire (sock s4) = rep @ w"
  proof (cases "m = 2")
    case False
    then show ?thesis using s2
      by (intro exI [of _ s2] exI [of _ 1]) (simp add: numeral_2_eq_2)
  next
    case True
    have "0 < length (authentication t)" "length (authentication t) \<le> 600"
      using assms(6,7) by (simp_all add: authentication_def)
    from prompt_send [OF assms(1) _ this, of 5 1 s2] s2(2) obtain s3 where
        s3: "send_all opts t0 (authentication t) ''credentials'' s2 = (Inr (), s3)" "prompt (Suc 4) 1 s3"
        "wire (sock s3) = wire (sock s2)" by (auto simp: numeral_2_eq_2)
    have "wire (sock s3) = [chr_of 1, chr_of 0] @ (rep @ w)" using s3(3) s2(3) True by simp
    from prompt_recv [OF assms(1) s3(2) this, of 2 t0 "''authentication reply''"] obtain s4 where
        s4: "recv_exact opts t0 2 ''authentication reply'' s3 = (Inr [chr_of 1, chr_of 0], s4)" "prompt 4 1 s4"
        "wire (sock s4) = rep @ w" by auto
    have "authenticate (texts api) t opts t0 s2 = (Inr (), s4)"
      using assms(3) True
      by (simp add: authenticate_def bind_dial_def s3(1) s4(1))
    with s4 True show ?thesis by (intro exI [of _ s4] exI [of _ 0]) simp
  qed
  then obtain s4 i j where s4: "(if m = 2 then authenticate (texts api) t opts t0 else return_dial ()) s2 = (Inr (), s4)"
      "prompt (4 + i) (Suc j) s4" "wire (sock s4) = rep @ w" by blast
  have "0 < length q" using assms(9) by simp
  from prompt_send [OF assms(1) s4(2) this assms(10)] obtain s5 where
      s5: "send_all opts t0 q ''CONNECT request'' s4 = (Inr (), s5)" "prompt (4 + i) j s5"
      "wire (sock s5) = rep @ w" using s4(3) by auto
  from cooperative_reply [OF assms(1) s5(2,3) assms(4)] obtain s6 where
      s6: "read_reply (texts api) t opts t0 s5 = (Inr (), s6)" "wire (sock s6) = w" by blast
  show ?thesis
    using s6 by (simp add: socks5_handshake_def bind_dial_def n s4(1) assms(8) s5(1) del: if_split)
qed

text \<open>
  C25. With a proxy that answers well and a system that completes what it is asked, the handshake
  succeeds: whatever method it may choose and whatever type the bound address has, it returns normally
  and leaves the target's bytes as the next ones to read.
\<close>

theorem socks5_succeeds:
  assumes "dial_total_timeout_ms opts \<le> 0" and "prompt 6 3 st"
    and "m = 0 \<or> m = 2 \<and> has_credentials t" and "reply_shape rep"
    and "wire (sock st) = [chr_of 5, chr_of m] @ (if m = 2 then [chr_of 1, chr_of 0] else []) @ rep @ w"
    and "length (proxy_user t) \<le> 255" and "length (proxy_password t) \<le> 255"
    and "connect_request api t host port = Inr q" and "q \<noteq> []" and "length q \<le> 600"
  shows "\<exists>st'. socks5_handshake api t opts t0 host port st = (Inr (), st') \<and> wire (sock st') = w"
  using assms by (rule cooperative_handshake)

section \<open>A concrete run\<close>

definition demo_target :: proxy_target where
  "demo_target = \<lparr>proxy_host = [112], proxy_port = 1080, remote_dns = True, proxy_user = ''u'',
     proxy_password = ''pw'', has_credentials = True\<rparr>"

definition demo_options :: dial_options where
  "demo_options = \<lparr>dial_host = [104], dial_port = 80, dial_ssl = False, dial_sni = [],
     dial_proxy = Some demo_target, dial_ca_file = [], dial_tls_verify = True,
     dial_tls_check_revocation = True, dial_connect_timeout_ms = 30000, dial_total_timeout_ms = 0\<rparr>"

definition demo_names :: name_api where
  "demo_names = \<lparr>texts = demo_text, inet_pton4 = (\<lambda>h. None), get_addr_info = (\<lambda>h. None)\<rparr>"

definition demo_dial :: "string \<Rightarrow> dial_state" where
  "demo_dial w = \<lparr>sock = new_sock\<lparr>recv_answers := replicate 6 (ready_io 600),
     send_answers := replicate 3 (ready_io 600), wire := w\<rparr>, steady = []\<rparr>"

definition demo_reply :: string where
  "demo_reply = map chr_of [5, 0, 0, 1, 127, 0, 0, 1, 4, 56]"

lemma demo_request:
  "connect_request demo_names demo_target [104] 80 = Inr (map chr_of [5, 1, 0, 3, 1, 104, 0, 80])"
  by code_simp

lemma demo_reply_shape: "reply_shape demo_reply"
  by code_simp

lemma demo_handshake:
  assumes "m = 0 \<or> m = 2"
    and "w = [chr_of 5, chr_of m] @ (if m = 2 then [chr_of 1, chr_of 0] else []) @ demo_reply @ ''GET''"
  shows "\<exists>st'. socks5_handshake demo_names demo_target demo_options 0 [104] 80 (demo_dial w) = (Inr (), st')
    \<and> wire (sock st') = ''GET''"
  by (rule cooperative_handshake [OF _ _ _ demo_reply_shape _ _ _ demo_request])
    (use assms in \<open>auto simp: demo_options_def demo_dial_def prompt_def new_sock_def demo_target_def\<close>)

lemma demo_usable: "usable (demo_dial w)" "sent (sock (demo_dial w)) = []" "wire (sock (demo_dial w)) = w"
  by (simp_all add: demo_dial_def new_sock_def)

lemma demo_request_bytes: "request_bytes demo_names demo_target [104] 80 = map chr_of [5, 1, 0, 3, 1, 104, 0, 80]"
  by (simp add: request_bytes_def demo_request)

lemma demo_sizes:
  "length (proxy_user demo_target) \<le> 255" "length (proxy_password demo_target) \<le> 255"
  "length (request_bytes demo_names demo_target [104] 80) < 2 ^ 31"
  by (simp_all add: demo_request_bytes) (simp_all add: demo_target_def)

theorem socks5_succeeds_witness:
  "\<exists>st'. socks5_handshake demo_names demo_target demo_options 0 [104] 80
      (demo_dial ([chr_of 5, chr_of 2, chr_of 1, chr_of 0] @ demo_reply @ ''GET'')) = (Inr (), st')
    \<and> wire (sock st') = ''GET''"
  by (rule socks5_succeeds [OF _ _ _ demo_reply_shape _ _ _ demo_request, of _ _ 2])
    (auto simp: demo_options_def demo_dial_def prompt_def new_sock_def demo_target_def)

theorem socks5_exchange_witness:
  "\<exists>(st' :: dial_state) m rep. reply_shape rep
    \<and> sent (sock st') = greeting demo_target @ auth_bytes demo_target m @ map chr_of [5, 1, 0, 3, 1, 104, 0, 80]"
proof -
  let ?w = "[chr_of 5, chr_of 2] @ (if (2::nat) = 2 then [chr_of 1, chr_of 0] else []) @ demo_reply @ ''GET''"
  obtain st' where "socks5_handshake demo_names demo_target demo_options 0 [104] 80 (demo_dial ?w) = (Inr (), st')"
    using demo_handshake [of 2 ?w] by blast
  from socks5_exchange [OF demo_usable(1) demo_sizes this] show ?thesis
    unfolding demo_usable demo_request_bytes by fastforce
qed

theorem socks5_credentials_only_on_request_witness:
  "\<exists>st' :: dial_state. prefix (sent (sock st')) (greeting demo_target @ map chr_of [5, 1, 0, 3, 1, 104, 0, 80])"
proof -
  let ?w = "[chr_of 5, chr_of 0] @ (if (0::nat) = 2 then [chr_of 1, chr_of 0] else []) @ demo_reply @ ''GET''"
  obtain st' where "socks5_handshake demo_names demo_target demo_options 0 [104] 80 (demo_dial ?w) = (Inr (), st')"
    using demo_handshake [of 0 ?w] by blast
  moreover have "chr_of 0 \<noteq> chr_of 2" by code_simp
  ultimately show ?thesis
    using socks5_credentials_only_on_request [OF demo_usable(1) demo_sizes, of demo_options 0 ?w "Inr ()" st']
    by (auto simp: demo_usable demo_request_bytes)
qed

theorem socks5_errors_hide_credentials_witness:
  "\<exists>z. socks5_handshake demo_names (demo_target\<lparr>proxy_user := ''x'', proxy_password := ''yz''\<rparr>) demo_options 0
        [104] 80 (demo_dial []) =
    apsnd (redial z) (socks5_handshake demo_names demo_target demo_options 0 [104] 80 (demo_dial []))"
  by (rule socks5_errors_hide_credentials) (simp_all add: demo_target_def)

end
