(* ===== verification/Base64.thy ===== *)
theory Base64 imports CppString begin

text \<open>
  \<open>misc/base64.cpp\<close>: encoding with both alphabets, the line-broken forms, and decoding. The loop
  counter of the encoder is a 32-bit \<open>unsigned int\<close> although the length is a \<open>size_t\<close>, so the loop is
  a partial function whose result is \<open>None\<close> when it never ends; the lemmas show it ends below four
  gigabytes. Decoding reads one position past the end of an incomplete group, which in a
  \<open>std::string\<close> is its terminating NUL.
\<close>

section \<open>The alphabet\<close>

definition base64_chars :: "bool \<Rightarrow> string" where
  "base64_chars url =
     ''ABCDEFGHIJKLMNOPQRSTUVWXYZ'' @ ''abcdefghijklmnopqrstuvwxyz'' @ ''0123456789''
     @ (if url then ''-_'' else ''+/'')"

definition pos_of_char :: "char \<Rightarrow> nat result" where
  "pos_of_char c =
     (if 65 \<le> byte c \<and> byte c \<le> 90 then Inr (byte c - 65)
      else if 97 \<le> byte c \<and> byte c \<le> 122 then Inr (byte c - 97 + (90 - 65) + 1)
      else if 48 \<le> byte c \<and> byte c \<le> 57 then Inr (byte c - 48 + (90 - 65) + (122 - 97) + 2)
      else if c = CHR ''+'' \<or> c = CHR ''-'' then Inr 62
      else if c = CHR ''/'' \<or> c = CHR ''_'' then Inr 63
      else Inl (Thrown_Text ''If input is correct, this line should never be reached.''))"

section \<open>Encoding\<close>

definition sextet :: "bool \<Rightarrow> nat \<Rightarrow> char" where
  "sextet url i = base64_chars url ! i"

text \<open>One turn of the loop at position \<open>pos\<close>; \<open>b\<close> reads a byte of the input.\<close>

definition encode_group :: "bool \<Rightarrow> string \<Rightarrow> nat \<Rightarrow> string" where
  "encode_group url s pos =
     (let b = (\<lambda>i. byte (s ! (pos + i))); trailing = (if url then CHR ''.'' else CHR ''='') in
      sextet url (drop_bit 2 (b 0 AND 0xfc)) #
      (if pos + 1 < length s
       then sextet url (push_bit 4 (b 0 AND 0x03) + drop_bit 4 (b 1 AND 0xf0)) #
            (if pos + 2 < length s
             then [sextet url (push_bit 2 (b 1 AND 0x0f) + drop_bit 6 (b 2 AND 0xc0)),
                   sextet url (b 2 AND 0x3f)]
             else [sextet url (push_bit 2 (b 1 AND 0x0f)), trailing])
       else [sextet url (push_bit 4 (b 0 AND 0x03)), trailing, trailing]))"

partial_function (option) encode_loop :: "bool \<Rightarrow> string \<Rightarrow> nat \<Rightarrow> string \<Rightarrow> string option" where
  "encode_loop url s pos ret =
     (if pos < length s then encode_loop url s ((pos + 3) mod 2 ^ 32) (ret @ encode_group url s pos)
      else Some ret)"

definition base64_encode :: "string \<Rightarrow> bool \<Rightarrow> string option" where
  "base64_encode s url = encode_loop url s 0 []"

text \<open>The lengths given to \<open>insert_linebreaks\<close> are 64 and 76, so the distance is positive.\<close>

function insert_loop :: "nat \<Rightarrow> string \<Rightarrow> nat \<Rightarrow> string" where
  "insert_loop distance str pos =
     (if pos < length str \<and> 0 < distance
      then insert_loop distance (take pos str @ [CHR 0x0A] @ drop pos str) (pos + distance + 1)
      else str)"
  by pat_completeness auto
termination
  by (relation "measure (\<lambda>(d, s, p). length s - p)") auto

declare insert_loop.simps [simp del]

definition insert_linebreaks :: "string \<Rightarrow> nat \<Rightarrow> string" where
  "insert_linebreaks str distance = (if str = [] then [] else insert_loop distance str distance)"

definition encode_with_line_breaks :: "nat \<Rightarrow> string \<Rightarrow> string option" where
  "encode_with_line_breaks line_length s =
     map_option (\<lambda>e. insert_linebreaks e line_length) (base64_encode s False)"

definition base64_encode_pem :: "string \<Rightarrow> string option" where
  "base64_encode_pem s = encode_with_line_breaks 64 s"

definition base64_encode_mime :: "string \<Rightarrow> string option" where
  "base64_encode_mime s = encode_with_line_breaks 76 s"

section \<open>Decoding\<close>

definition char_at :: "string \<Rightarrow> nat \<Rightarrow> char result" where
  "char_at s i =
     (if i < length s then Inr (s ! i) else if i = length s then Inr (CHR 0x00) else Inl Undefined)"

definition pos_at :: "string \<Rightarrow> nat \<Rightarrow> nat result" where
  "pos_at s i = bind_result (char_at s i) pos_of_char"

definition is_padding :: "char \<Rightarrow> bool" where
  "is_padding c \<longleftrightarrow> c = CHR ''='' \<or> c = CHR ''.''"

definition decode_group :: "string \<Rightarrow> nat \<Rightarrow> string result" where
  "decode_group s pos =
     bind_result (pos_at s (pos + 1)) (\<lambda>p1.
     bind_result (pos_at s pos) (\<lambda>p0.
     let c0 = chr_of (push_bit 2 p0 + drop_bit 4 (p1 AND 0x30)) in
     bind_result (char_at s (pos + 2)) (\<lambda>x2.
       if is_padding x2 then Inr [c0]
       else bind_result (pos_of_char x2) (\<lambda>p2.
         let c1 = chr_of (push_bit 4 (p1 AND 0x0f) + drop_bit 2 (p2 AND 0x3c)) in
         bind_result (char_at s (pos + 3)) (\<lambda>x3.
           if is_padding x3 then Inr [c0, c1]
           else bind_result (pos_of_char x3) (\<lambda>p3.
             Inr [c0, c1, chr_of (push_bit 6 (p2 AND 0x03) + p3)]))))))"

function decode_loop64 :: "string \<Rightarrow> nat \<Rightarrow> string result" where
  "decode_loop64 s pos =
     (if pos < length s
      then bind_result (decode_group s pos) (\<lambda>g.
           bind_result (decode_loop64 s (pos + 4)) (\<lambda>r. Inr (g @ r)))
      else Inr [])"
  by pat_completeness auto
termination
  by (relation "measure (\<lambda>(s, p). length s - p)") auto

declare decode_loop64.simps [simp del]

definition base64_decode :: "string \<Rightarrow> bool \<Rightarrow> string result" where
  "base64_decode s remove_linebreaks =
     (if remove_linebreaks
      then if s = [] then Inr [] else decode_loop64 (List.filter (\<lambda>c. c \<noteq> CHR 0x0A) s) 0
      else decode_loop64 s 0)"

section \<open>Bits as arithmetic\<close>

lemma and_low:
  "(b :: nat) AND 0x03 = b mod 4" "b AND 0x0f = b mod 16" "b AND 0x3f = b mod 64"
  using take_bit_eq_mask [of 2 b] take_bit_eq_mask [of 4 b] take_bit_eq_mask [of 6 b]
  by (simp_all add: mask_eq_exp_minus_1 take_bit_eq_mod)

lemma and_high:
  "(b :: nat) < 256 \<Longrightarrow> drop_bit 2 (b AND 0xfc) = b div 4"
  "b < 256 \<Longrightarrow> drop_bit 4 (b AND 0xf0) = b div 16"
  "b < 256 \<Longrightarrow> drop_bit 6 (b AND 0xc0) = b div 64"
  "drop_bit 4 (b AND 0x30) = b div 16 mod 4"
  "drop_bit 2 (b AND 0x3c) = b div 4 mod 16"
proof -
  have d: "drop_bit 2 (b AND 0xfc) = drop_bit 2 b AND 63" "drop_bit 4 (b AND 0xf0) = drop_bit 4 b AND 15"
    "drop_bit 6 (b AND 0xc0) = drop_bit 6 b AND 3" "drop_bit 4 (b AND 0x30) = drop_bit 4 b AND 3"
    "drop_bit 2 (b AND 0x3c) = drop_bit 2 b AND 15"
    by (simp_all add: drop_bit_and)
  have e: "drop_bit 2 b = b div 4" "drop_bit 4 b = b div 16" "drop_bit 6 b = b div 64"
    by (simp_all add: drop_bit_eq_div)
  show "drop_bit 4 (b AND 0x30) = b div 16 mod 4" "drop_bit 2 (b AND 0x3c) = b div 4 mod 16"
    unfolding d e and_low by (rule refl)+
  assume "b < 256"
  then show "drop_bit 2 (b AND 0xfc) = b div 4" "drop_bit 4 (b AND 0xf0) = b div 16"
      "drop_bit 6 (b AND 0xc0) = b div 64"
    unfolding d e and_low by (auto intro: mod_less less_mult_imp_div_less)
qed

lemma push_pow: "push_bit 2 (n :: nat) = n * 4" "push_bit 4 n = n * 16" "push_bit 6 n = n * 64"
  by (simp_all add: push_bit_eq_mult)

lemma sextet_pos: "i < 64 \<Longrightarrow> pos_of_char (sextet url i) = Inr i \<and> \<not> is_padding (sextet url i)
    \<and> sextet url i \<noteq> CHR 0x0A"
proof -
  have "list_all (\<lambda>u. list_all (\<lambda>i. pos_of_char (sextet u i) = Inr i \<and> \<not> is_padding (sextet u i)
      \<and> sextet u i \<noteq> CHR 0x0A) [0..<64]) [True, False]"
    by code_simp
  then show "i < 64 \<Longrightarrow> ?thesis" by (cases url) (auto simp: list_all_iff)
qed

section \<open>The encoder ends and the decoder inverts it\<close>

text \<open>The encoding by groups of three, without a loop counter.\<close>

fun encode_groups :: "bool \<Rightarrow> string \<Rightarrow> string" where
  "encode_groups url [] = []"
| "encode_groups url [a] = encode_group url [a] 0"
| "encode_groups url [a, b] = encode_group url [a, b] 0"
| "encode_groups url (a # b # c # s) = encode_group url [a, b, c] 0 @ encode_groups url s"

lemma encode_group_arith:
  "encode_group url s pos =
     (let b = (\<lambda>i. byte (s ! (pos + i))); trailing = (if url then CHR ''.'' else CHR ''='') in
      sextet url (b 0 div 4) #
      (if pos + 1 < length s
       then sextet url (b 0 mod 4 * 16 + b 1 div 16) #
            (if pos + 2 < length s
             then [sextet url (b 1 mod 16 * 4 + b 2 div 64), sextet url (b 2 mod 64)]
             else [sextet url (b 1 mod 16 * 4), trailing])
       else [sextet url (b 0 mod 4 * 16), trailing, trailing]))"
  unfolding encode_group_def Let_def and_low and_high(1-3) [OF byte_less] push_pow by simp

lemma decode_group_arith:
  "decode_group s pos =
     bind_result (pos_at s (pos + 1)) (\<lambda>p1.
     bind_result (pos_at s pos) (\<lambda>p0.
     let c0 = chr_of (p0 * 4 + p1 div 16 mod 4) in
     bind_result (char_at s (pos + 2)) (\<lambda>x2.
       if is_padding x2 then Inr [c0]
       else bind_result (pos_of_char x2) (\<lambda>p2.
         let c1 = chr_of (p1 mod 16 * 16 + p2 div 4 mod 16) in
         bind_result (char_at s (pos + 3)) (\<lambda>x3.
           if is_padding x3 then Inr [c0, c1]
           else bind_result (pos_of_char x3) (\<lambda>p3.
             Inr [c0, c1, chr_of (p2 mod 4 * 64 + p3)]))))))"
  unfolding decode_group_def and_low and_high(4,5) push_pow by simp

lemma encode_group_drop:
  "pos < length s \<Longrightarrow> encode_group url s pos = encode_group url (take 3 (drop pos s)) 0"
  by (simp add: encode_group_arith Let_def less_diff_conv)

lemma encode_groups_step:
  "s \<noteq> [] \<Longrightarrow> encode_groups url s = encode_group url (take 3 s) 0 @ encode_groups url (drop 3 s)"
  by (cases "(url, s)" rule: encode_groups.cases) auto

lemma encode_loop_eq:
  "length s < 2 ^ 32 - 3 \<Longrightarrow> encode_loop url s pos ret = Some (ret @ encode_groups url (drop pos s))"
proof (induction "length s - pos" arbitrary: pos ret rule: less_induct)
  case less
  show ?case
  proof (cases "pos < length s")
    case False
    then show ?thesis by (simp add: encode_loop.simps)
  next
    case True
    then have m: "(pos + 3) mod 2 ^ 32 = pos + 3" using less.prems by simp
    have "encode_loop url s pos ret = encode_loop url s (pos + 3) (ret @ encode_group url s pos)"
      using True m by (subst encode_loop.simps) simp
    also have "\<dots> = Some ((ret @ encode_group url s pos) @ encode_groups url (drop (pos + 3) s))"
      using True less.prems by (intro less.hyps) auto
    also have "(ret @ encode_group url s pos) @ encode_groups url (drop (pos + 3) s) = ret @ encode_groups url (drop pos s)"
      using encode_groups_step [of "drop pos s" url] encode_group_drop [OF True, of url] True
      by (simp add: add.commute)
    finally show ?thesis .
  qed
qed

lemma base64_encode_eq: "length s < 2 ^ 32 - 3 \<Longrightarrow> base64_encode s url = Some (encode_groups url s)"
  by (simp add: base64_encode_def encode_loop_eq)

lemma length_encode_group: "length (encode_group url s 0) = 4"
  by (simp add: encode_group_def Let_def)

lemma pos_at_sextet:
  "j < length s \<Longrightarrow> s ! j = sextet url i \<Longrightarrow> i < 64 \<Longrightarrow> pos_at s j = Inr i"
  using sextet_pos [of i url] by (simp add: pos_at_def char_at_def)

lemma join_bytes:
  fixes a b c :: nat
  assumes "a < 256" and "b < 256" and "c < 256"
  shows "a div 4 < 64" "a mod 4 * 16 + b div 16 < 64" "b mod 16 * 4 + c div 64 < 64" "c mod 64 < 64"
    "a mod 4 * 16 < 64" "b mod 16 * 4 < 64"
    "a div 4 * 4 + (a mod 4 * 16 + b div 16) div 16 mod 4 = a"
    "a div 4 * 4 + a mod 4 * 16 div 16 mod 4 = a"
    "(a mod 4 * 16 + b div 16) mod 16 * 16 + (b mod 16 * 4 + c div 64) div 4 mod 16 = b"
    "(a mod 4 * 16 + b div 16) mod 16 * 16 + b mod 16 * 4 div 4 mod 16 = b"
    "(b mod 16 * 4 + c div 64) mod 4 * 64 + c mod 64 = c"
proof -
  have q: "b div 16 < 16" "c div 64 < 4" "a mod 4 < 4" "b mod 16 < 16"
    using assms by (auto intro: less_mult_imp_div_less)
  show "a div 4 < 64" "c mod 64 < 64" using assms by (auto intro: less_mult_imp_div_less)
  show "a mod 4 * 16 + b div 16 < 64" "b mod 16 * 4 + c div 64 < 64" "a mod 4 * 16 < 64" "b mod 16 * 4 < 64"
    using q by linarith+
  have d: "(x * k + y) div k = x \<and> (x * k + y) mod k = y" if "y < k" for x y k :: nat using that by simp
  show "a div 4 * 4 + (a mod 4 * 16 + b div 16) div 16 mod 4 = a"
    using d [OF q(1), of "a mod 4"] by simp
  show "a div 4 * 4 + a mod 4 * 16 div 16 mod 4 = a" by simp
  show "(a mod 4 * 16 + b div 16) mod 16 * 16 + (b mod 16 * 4 + c div 64) div 4 mod 16 = b"
    using d [OF q(1), of "a mod 4"] d [OF q(2), of "b mod 16"] by simp
  show "(a mod 4 * 16 + b div 16) mod 16 * 16 + b mod 16 * 4 div 4 mod 16 = b"
    using d [OF q(1), of "a mod 4"] by simp
  show "(b mod 16 * 4 + c div 64) mod 4 * 64 + c mod 64 = c"
    using d [OF q(2), of "b mod 16"] by simp
qed

lemma decode_group_forms:
  assumes "pos_at s (pos + 1) = Inr p1" and "pos_at s pos = Inr p0" and "char_at s (pos + 2) = Inr x2"
  shows "is_padding x2 \<Longrightarrow> decode_group s pos = Inr [chr_of (p0 * 4 + p1 div 16 mod 4)]"
    and "\<not> is_padding x2 \<Longrightarrow> pos_of_char x2 = Inr p2 \<Longrightarrow> char_at s (pos + 3) = Inr x3 \<Longrightarrow> is_padding x3 \<Longrightarrow>
      decode_group s pos = Inr [chr_of (p0 * 4 + p1 div 16 mod 4), chr_of (p1 mod 16 * 16 + p2 div 4 mod 16)]"
    and "\<not> is_padding x2 \<Longrightarrow> pos_of_char x2 = Inr p2 \<Longrightarrow> char_at s (pos + 3) = Inr x3 \<Longrightarrow> \<not> is_padding x3 \<Longrightarrow>
      pos_of_char x3 = Inr p3 \<Longrightarrow>
      decode_group s pos = Inr [chr_of (p0 * 4 + p1 div 16 mod 4), chr_of (p1 mod 16 * 16 + p2 div 4 mod 16),
        chr_of (p2 mod 4 * 64 + p3)]"
  using assms by (simp_all add: decode_group_arith)

lemma decode_group_encoded:
  assumes "s = pre @ encode_group url t 0 @ post" and "pos = length pre" and "t \<noteq> []" and "length t \<le> 3"
  shows "decode_group s pos = Inr t"
proof -
  let ?g = "encode_group url t 0" and ?pad = "if url then CHR ''.'' else CHR ''=''"
  have nth: "char_at s (pos + i) = Inr (?g ! i)" if "i < 4" for i
    using that assms(1,2) length_encode_group [of url t] by (simp add: char_at_def nth_append)
  have at: "pos_at s (pos + i) = Inr n" if "i < 4" "?g ! i = sextet url n" "n < 64" for i n
    using nth [OF that(1)] that(2) sextet_pos [OF that(3), of url] by (simp add: pos_at_def)
  have pad: "is_padding ?pad" by (simp add: is_padding_def)
  have zero: "pos_at s (pos + 0) = pos_at s pos" by simp
  consider (one) a where "t = [a]" | (two) a b where "t = [a, b]" | (three) a b c where "t = [a, b, c]"
    using assms(3,4) by (cases t; cases "tl t"; cases "tl (tl t)") auto
  then show ?thesis
  proof cases
    case one
    note j = join_bytes [of "byte a" 0 0, OF byte_less zero_less_numeral zero_less_numeral]
    have g: "?g = [sextet url (byte a div 4), sextet url (byte a mod 4 * 16), ?pad, ?pad]"
      using one by (simp add: encode_group_arith Let_def)
    have "decode_group s pos = Inr [chr_of (byte a div 4 * 4 + byte a mod 4 * 16 div 16 mod 4)]"
      using decode_group_forms(1) [OF at [of 1] at [of 0, unfolded zero] nth [of 2], OF _ _ j(5) _ _ j(1)]
      by (simp add: g pad)
    then show ?thesis unfolding one j(8) by simp
  next
    case two
    note j = join_bytes [of "byte a" "byte b" 0, OF byte_less byte_less zero_less_numeral]
    have g: "?g = [sextet url (byte a div 4), sextet url (byte a mod 4 * 16 + byte b div 16),
        sextet url (byte b mod 16 * 4), ?pad]"
      using two by (simp add: encode_group_arith Let_def)
    have "decode_group s pos = Inr [chr_of (byte a div 4 * 4 + (byte a mod 4 * 16 + byte b div 16) div 16 mod 4),
        chr_of ((byte a mod 4 * 16 + byte b div 16) mod 16 * 16 + byte b mod 16 * 4 div 4 mod 16)]"
      using decode_group_forms(2) [OF at [of 1] at [of 0, unfolded zero] nth [of 2], OF _ _ j(2) _ _ j(1),
          of "byte b mod 16 * 4" ?pad] sextet_pos [OF j(6), of url] nth [of 3]
      by (simp add: g pad)
    then show ?thesis unfolding two j(7,10) by simp
  next
    case three
    note j = join_bytes [of "byte a" "byte b" "byte c", OF byte_less byte_less byte_less]
    have g: "?g = [sextet url (byte a div 4), sextet url (byte a mod 4 * 16 + byte b div 16),
        sextet url (byte b mod 16 * 4 + byte c div 64), sextet url (byte c mod 64)]"
      using three by (simp add: encode_group_arith Let_def)
    have "decode_group s pos = Inr [chr_of (byte a div 4 * 4 + (byte a mod 4 * 16 + byte b div 16) div 16 mod 4),
        chr_of ((byte a mod 4 * 16 + byte b div 16) mod 16 * 16 + (byte b mod 16 * 4 + byte c div 64) div 4 mod 16),
        chr_of ((byte b mod 16 * 4 + byte c div 64) mod 4 * 64 + byte c mod 64)]"
      using decode_group_forms(3) [OF at [of 1] at [of 0, unfolded zero] nth [of 2], OF _ _ j(2) _ _ j(1),
          of "byte b mod 16 * 4 + byte c div 64" "sextet url (byte c mod 64)" "byte c mod 64"]
        sextet_pos [OF j(3), of url] sextet_pos [OF j(4), of url] nth [of 3]
      by (simp add: g)
    then show ?thesis unfolding three j(7,9,11) by simp
  qed
qed

lemma sextet_plain: "i < 64 \<Longrightarrow> CHR 0x0A \<noteq> sextet url i"
  using sextet_pos [of i url] by metis

lemma encode_group_plain: "CHR 0x0A \<notin> set (encode_group url s pos)"
proof -
  note j = join_bytes(1-6) [OF byte_less byte_less byte_less]
  show ?thesis
    unfolding encode_group_arith Let_def
    by (auto dest!: sextet_plain [THEN notE, rotated] intro: j)
qed

lemma encode_groups_plain: "CHR 0x0A \<notin> set (encode_groups url s)"
  by (induction url s rule: encode_groups.induct) (simp_all add: encode_group_plain)

lemma decode_loop_groups:
  "decode_loop64 (pre @ encode_groups url t) (length pre) = Inr t"
proof (induction url t arbitrary: pre rule: encode_groups.induct)
  case (1 url)
  show ?case by (simp add: decode_loop64.simps)
next
  case (2 url a)
  have g: "decode_group (pre @ encode_group url [a] 0 @ []) (length pre) = Inr [a]"
    by (rule decode_group_encoded [where url = url and post = "[]"]) simp_all
  then show ?case
    by (simp add: length_encode_group decode_loop64.simps [of _ "length pre"] decode_loop64.simps [of _ "length pre + 4"])
next
  case (3 url a b)
  have g: "decode_group (pre @ encode_group url [a, b] 0 @ []) (length pre) = Inr [a, b]"
    by (rule decode_group_encoded [where url = url and post = "[]"]) simp_all
  then show ?case
    by (simp add: length_encode_group decode_loop64.simps [of _ "length pre"] decode_loop64.simps [of _ "length pre + 4"])
next
  case (4 url a b c s)
  let ?g = "encode_group url [a, b, c] 0"
  have g: "decode_group (pre @ ?g @ encode_groups url s) (length pre) = Inr [a, b, c]"
    by (rule decode_group_encoded [OF refl]) simp_all
  have "decode_loop64 ((pre @ ?g) @ encode_groups url s) (length (pre @ ?g)) = Inr s" by (rule "4.IH")
  then show ?case using g
    by (simp add: length_encode_group decode_loop64.simps [of _ "length pre"])
qed

lemma filter_insert_loop:
  "List.filter (\<lambda>c. c \<noteq> CHR 0x0A) (insert_loop d s pos) = List.filter (\<lambda>c. c \<noteq> CHR 0x0A) s"
proof (induction d s pos rule: insert_loop.induct)
  case (1 d s pos)
  have "List.filter (\<lambda>c. c \<noteq> CHR 0x0A) (take pos s @ drop pos s) = List.filter (\<lambda>c. c \<noteq> CHR 0x0A) s" by simp
  then show ?case using 1 by (subst insert_loop.simps) (simp del: append_take_drop_id)
qed

section \<open>Properties\<close>

text \<open>
  C30. Decoding inverts encoding, for both alphabets and any byte string below four gigabytes, and
  the encoder's loop ends there although its counter has only 32 bits.
\<close>

theorem base64_round_trip:
  assumes "length s < 2 ^ 32 - 3"
  shows "\<exists>e. base64_encode s url = Some e \<and> base64_decode e False = Inr s"
  using decode_loop_groups [of "[]" url s] base64_encode_eq [OF assms, of url]
  by (simp add: base64_decode_def)

theorem base64_round_trip_witness:
  "\<exists>e. base64_encode [chr_of 0, chr_of 255, chr_of 62, chr_of 10] True = Some e
     \<and> base64_decode e False = Inr [chr_of 0, chr_of 255, chr_of 62, chr_of 10]"
  by (rule base64_round_trip) simp

text \<open>
  The line-broken forms (PEM at 64, MIME at 76 characters) decode to the original as well, when
  the decoder is told to remove line breaks.
\<close>

theorem base64_lines_round_trip:
  assumes "length s < 2 ^ 32 - 3" and "0 < d"
  shows "\<exists>e. encode_with_line_breaks d s = Some e \<and> base64_decode e True = Inr s"
proof -
  let ?e = "encode_groups False s"
  let ?p = "\<lambda>c. c \<noteq> CHR 0x0A"
  have "List.filter ?p (insert_linebreaks ?e d) = ?e"
    using encode_groups_plain [of False s] by (auto simp: insert_linebreaks_def filter_insert_loop filter_id_conv)
  moreover have "decode_loop64 ?e 0 = Inr s" using decode_loop_groups [of "[]" False s] by simp
  moreover have "insert_linebreaks ?e d = [] \<Longrightarrow> ?e = []" using calculation(1) by simp
  ultimately show ?thesis
    using base64_encode_eq [OF assms(1), of False]
    by (auto simp: encode_with_line_breaks_def base64_decode_def decode_loop64.simps)
qed

theorem base64_lines_round_trip_witness:
  "\<exists>e. encode_with_line_breaks 4 ''hello'' = Some e \<and> base64_decode e True = Inr ''hello''"
  by (rule base64_lines_round_trip) simp_all

end
