(* ===== verification/Rfc1321.thy ===== *)
theory Rfc1321 imports Prelude begin

text \<open>
  MD5 as RFC 1321 states it, written from the RFC and not from \<open>misc/md5.cpp\<close>: the padding by the
  lengths it must reach, the table \<open>T\<close>, the four auxiliary functions, and the 64 operations with their
  message index and shift given as functions of the number of the operation. \<open>Md5\<close> shows that the
  program computes this digest.
\<close>

type_synonym regs = "u32 \<times> u32 \<times> u32 \<times> u32"

section \<open>Padding\<close>

text \<open>
  One byte \<open>0x80\<close>, then the fewest zeros after which the length is 56 modulo 64, then the length of the
  message in bits as eight bytes, the low one first.
\<close>

definition rfc_zeros :: "nat \<Rightarrow> nat" where
  "rfc_zeros n = hd (filter (\<lambda>k. (n + 1 + k) mod 64 = 56) [0..<64])"

definition rfc_length :: "nat \<Rightarrow> string" where
  "rfc_length n = map (\<lambda>i. chr_of (8 * n div 256 ^ i)) [0..<8]"

definition rfc_padded :: "string \<Rightarrow> string" where
  "rfc_padded m = m @ [chr_of 0x80] @ replicate (rfc_zeros (length m)) (chr_of 0) @ rfc_length (length m)"

section \<open>The operations\<close>

definition rfc_word :: "string \<Rightarrow> nat \<Rightarrow> u32" where
  "rfc_word b k = of_nat (byte (b ! (4 * k)) + 256 * byte (b ! (4 * k + 1)) + 65536 * byte (b ! (4 * k + 2))
     + 16777216 * byte (b ! (4 * k + 3)))"

text \<open>The table \<open>T\<close>: the entry \<open>i\<close> is the integer part of \<open>2 ^ 32\<close> times the absolute sine of \<open>i + 1\<close> radians.\<close>

definition rfc_T :: "u32 list" where
  "rfc_T =
    [0xd76aa478, 0xe8c7b756, 0x242070db, 0xc1bdceee,
     0xf57c0faf, 0x4787c62a, 0xa8304613, 0xfd469501,
     0x698098d8, 0x8b44f7af, 0xffff5bb1, 0x895cd7be,
     0x6b901122, 0xfd987193, 0xa679438e, 0x49b40821,
     0xf61e2562, 0xc040b340, 0x265e5a51, 0xe9b6c7aa,
     0xd62f105d, 0x02441453, 0xd8a1e681, 0xe7d3fbc8,
     0x21e1cde6, 0xc33707d6, 0xf4d50d87, 0x455a14ed,
     0xa9e3e905, 0xfcefa3f8, 0x676f02d9, 0x8d2a4c8a,
     0xfffa3942, 0x8771f681, 0x6d9d6122, 0xfde5380c,
     0xa4beea44, 0x4bdecfa9, 0xf6bb4b60, 0xbebfbc70,
     0x289b7ec6, 0xeaa127fa, 0xd4ef3085, 0x04881d05,
     0xd9d4d039, 0xe6db99e5, 0x1fa27cf8, 0xc4ac5665,
     0xf4292244, 0x432aff97, 0xab9423a7, 0xfc93a039,
     0x655b59c3, 0x8f0ccc92, 0xffeff47d, 0x85845dd1,
     0x6fa87e4f, 0xfe2ce6e0, 0xa3014314, 0x4e0811a1,
     0xf7537e82, 0xbd3af235, 0x2ad7d2bb, 0xeb86d391]"

definition rfc_shifts :: "nat list list" where
  "rfc_shifts = [[7, 12, 17, 22], [5, 9, 14, 20], [4, 11, 16, 23], [6, 10, 15, 21]]"

definition rfc_aux :: "nat \<Rightarrow> u32 \<Rightarrow> u32 \<Rightarrow> u32 \<Rightarrow> u32" where
  "rfc_aux i x y z =
     (if i < 16 then (x AND y) OR (NOT x AND z)
      else if i < 32 then (x AND z) OR (y AND NOT z)
      else if i < 48 then x XOR y XOR z
      else y XOR (x OR NOT z))"

definition rfc_index :: "nat \<Rightarrow> nat" where
  "rfc_index i =
     (if i < 16 then i else if i < 32 then (5 * i + 1) mod 16 else if i < 48 then (3 * i + 5) mod 16
      else 7 * i mod 16)"

definition rfc_shift :: "nat \<Rightarrow> nat" where
  "rfc_shift i = rfc_shifts ! (i div 16) ! (i mod 4)"

text \<open>The operation \<open>i\<close> on the register that is due; the registers are turned for the next one.\<close>

definition rfc_op :: "string \<Rightarrow> nat \<Rightarrow> regs \<Rightarrow> regs" where
  "rfc_op block i r =
     (case r of (a, b, c, d) \<Rightarrow>
        (d, b + word_rotl (rfc_shift i) (a + rfc_aux i b c d + rfc_word block (rfc_index i) + rfc_T ! i), b, c))"

definition rfc_block :: "string \<Rightarrow> regs \<Rightarrow> regs" where
  "rfc_block block r =
     (case (r, fold (rfc_op block) [0..<64] r) of ((a, b, c, d), (a', b', c', d')) \<Rightarrow> (a + a', b + b', c + c', d + d'))"

section \<open>The digest\<close>

text \<open>The registers start as the bytes \<open>01 23 45 67 89 ab cd ef fe dc ba 98 76 54 32 10\<close>, low byte first.\<close>

definition rfc_start :: regs where
  "rfc_start =
     (let b = map chr_of [0x01, 0x23, 0x45, 0x67, 0x89, 0xab, 0xcd, 0xef, 0xfe, 0xdc, 0xba, 0x98, 0x76, 0x54, 0x32, 0x10]
      in (rfc_word b 0, rfc_word b 1, rfc_word b 2, rfc_word b 3))"

definition rfc_blocks :: "string \<Rightarrow> string list" where
  "rfc_blocks p = map (\<lambda>j. take 64 (drop (64 * j) p)) [0..<length p div 64]"

definition rfc_bytes :: "u32 \<Rightarrow> nat list" where
  "rfc_bytes w = map (\<lambda>i. unat w div 256 ^ i mod 256) [0..<4]"

definition rfc_hex :: "nat \<Rightarrow> string" where
  "rfc_hex n = [''0123456789abcdef'' ! (n div 16), ''0123456789abcdef'' ! (n mod 16)]"

definition rfc_md5 :: "string \<Rightarrow> string" where
  "rfc_md5 m =
     (case fold rfc_block (rfc_blocks (rfc_padded m)) rfc_start of (a, b, c, d) \<Rightarrow>
        concat (map rfc_hex (concat (map rfc_bytes [a, b, c, d]))))"

section \<open>The padding reaches whole blocks\<close>

lemma rfc_zeros_eq: "rfc_zeros n = (if n mod 64 < 56 then 55 - n mod 64 else 119 - n mod 64)"
proof -
  have l: "[0..<64] = [0..<k] @ k # [Suc k..<64]" if "k < 64" for k :: nat
    using that by (metis less_imp_le_nat upt_add_eq_append upt_conv_Cons le0 le_add_diff_inverse)
  define k where "k = (if n mod 64 < 56 then 55 - n mod 64 else 119 - n mod 64)"
  define r where "r = n mod 64"
  have r: "r < 64" by (simp add: r_def)
  have kr: "k = (if r < 56 then 55 - r else 119 - r)" by (simp add: k_def r_def)
  have k: "k < 64" using r by (auto simp: kr)
  have eq: "(n + 1 + j) mod 64 = (r + 1 + j) mod 64" for j by (metis add.assoc mod_add_left_eq r_def)
  have low: "x mod 64 = x" if "x < 64" for x :: nat using that by simp
  have high: "x mod 64 = x - 64" if "64 \<le> x" "x < 128" for x :: nat
    using that low [of "x - 64"] by (simp add: le_mod_geq)
  have "(n + 1 + k) mod 64 = 56"
  proof (cases "r < 56")
    case True
    then have "r + 1 + k = 56" by (simp add: kr)
    then show ?thesis unfolding eq by simp
  next
    case False
    then have "r + 1 + k = 120" using r by (simp add: kr)
    then show ?thesis unfolding eq by simp
  qed
  moreover have "(n + 1 + j) mod 64 \<noteq> 56" if "j < k" for j
  proof (cases "r + 1 + j < 64")
    case True
    have "r + 1 + j \<noteq> 56" using that r unfolding kr by (simp split: if_splits)
    then show ?thesis unfolding eq low [OF True] .
  next
    case False
    then have h: "64 \<le> r + 1 + j" "r + 1 + j < 128" "r + 1 + j \<noteq> 120" using that r unfolding kr by (simp_all split: if_splits)
    then show ?thesis unfolding eq high [OF h(1,2)] by simp
  qed
  ultimately have "filter (\<lambda>k. (n + 1 + k) mod 64 = 56) [0..<64] = k # filter (\<lambda>k. (n + 1 + k) mod 64 = 56) [Suc k..<64]"
    unfolding l [OF k] by (simp add: filter_empty_conv del: One_nat_def)
  then show ?thesis by (simp add: rfc_zeros_def k_def)
qed

lemma length_rfc_padded: "64 dvd length (rfc_padded m)"
proof -
  define r where "r = length m mod 64"
  have r: "r < 64" by (simp add: r_def)
  have "length (rfc_padded m) = length m + 9 + rfc_zeros (length m)"
    by (simp add: rfc_padded_def rfc_length_def)
  then have "length (rfc_padded m) mod 64 = (r + (9 + rfc_zeros (length m))) mod 64"
    unfolding r_def by (simp add: add.assoc mod_add_left_eq)
  also have "\<dots> = 0" using r unfolding rfc_zeros_eq r_def [symmetric] by auto
  finally show ?thesis by (simp add: dvd_eq_mod_eq_0)
qed

section \<open>Words\<close>

lemma word_rotl_u32:
  assumes "0 < n" and "n < 32"
  shows "word_rotl n x = push_bit n x OR drop_bit (32 - n) (x :: u32)"
proof (rule bit_word_eqI)
  fix i
  assume "i < LENGTH(32)"
  then have i: "i < 32" by simp
  define m where "m = 32 - n"
  have nm: "n = 32 - m" "m < 32" "0 < m" using assms by (simp_all add: m_def)
  have l: "bit (word_rotl n x) i \<longleftrightarrow> bit x ((i + m) mod 32)"
    using assms i by (simp add: bit_word_rotl_iff m_def)
  have r: "bit (push_bit n x OR drop_bit (32 - n) x) i \<longleftrightarrow> n \<le> i \<and> bit x (i - n) \<or> bit x (m + i)"
    using i by (simp add: bit_simps m_def [symmetric])
  have out: "\<not> bit x j" if "32 \<le> j" for j using that by (simp add: impossible_bit)
  show "bit (word_rotl n x) i \<longleftrightarrow> bit (push_bit n x OR drop_bit (32 - n) x) i"
  proof (cases "n \<le> i")
    case True
    then have "(i + m) mod 32 = i - n" "32 \<le> m + i" using i nm by (simp_all add: mod_if)
    then show ?thesis unfolding l r using True out by simp
  next
    case False
    then have "(i + m) mod 32 = m + i" using i nm by simp
    then show ?thesis unfolding l r using False by simp
  qed
qed

end
