(* ===== verification/Md5.thy ===== *)
theory Md5 imports CppString Rfc1321 begin

text \<open>
  \<open>misc/md5.cpp\<close>: the class \<open>MD5\<close> with its buffered \<open>update\<close>, \<open>finalize\<close> and \<open>hexdigest\<close>. The
  registers and the message words are 32-bit words; the two counters and the lengths are 32-bit
  unsigned numbers written out with their wrap-around. The loop over whole blocks compares
  \<open>i + blocksize\<close> in 32 bits, so it is a partial function. The lemmas show that the buffered
  computation is that of the padded message, cut into blocks and folded over the registers, and that
  this is the digest \<open>Rfc1321\<close> defines; the test vector \<open>abc\<close> of the RFC is evaluated in the kernel.
\<close>

record md5 =
  md5_finalized :: bool
  md5_buffer :: string
  count_lo :: nat
  count_hi :: nat
  md5_regs :: regs
  md5_digest :: string

section \<open>One block\<close>

definition md5_F :: "u32 \<Rightarrow> u32 \<Rightarrow> u32 \<Rightarrow> u32" where
  "md5_F x y z = (x AND y) OR (NOT x AND z)"

definition md5_G :: "u32 \<Rightarrow> u32 \<Rightarrow> u32 \<Rightarrow> u32" where
  "md5_G x y z = (x AND z) OR (y AND NOT z)"

definition md5_H :: "u32 \<Rightarrow> u32 \<Rightarrow> u32 \<Rightarrow> u32" where
  "md5_H x y z = x XOR y XOR z"

definition md5_I :: "u32 \<Rightarrow> u32 \<Rightarrow> u32 \<Rightarrow> u32" where
  "md5_I x y z = y XOR (x OR NOT z)"

definition rotate_left :: "u32 \<Rightarrow> nat \<Rightarrow> u32" where
  "rotate_left x n = push_bit n x OR drop_bit (32 - n) x"

text \<open>
  The calls \<open>FF (a, b, c, d, ...)\<close>, \<open>FF (d, a, b, c, ...)\<close>, \<open>FF (c, d, a, b, ...)\<close>,
  \<open>FF (b, c, d, a, ...)\<close> assign the registers in turn: each call is the same step on the quadruple
  turned by one place, and four of them bring it back. A table has the message word, the shift
  and the constant of each call.
\<close>

definition md5_step :: "(u32 \<Rightarrow> u32 \<Rightarrow> u32 \<Rightarrow> u32) \<Rightarrow> u32 list \<Rightarrow> nat \<times> nat \<times> u32 \<Rightarrow> regs \<Rightarrow> regs" where
  "md5_step f x p r =
     (case (p, r) of ((k, s, ac), (a, b, c, d)) \<Rightarrow>
        (d, rotate_left (a + f b c d + x ! k + ac) s + b, b, c))"

definition round1 :: "(nat \<times> nat \<times> u32) list" where
  "round1 =
    [(0, 7, 0xd76aa478), (1, 12, 0xe8c7b756), (2, 17, 0x242070db), (3, 22, 0xc1bdceee),
     (4, 7, 0xf57c0faf), (5, 12, 0x4787c62a), (6, 17, 0xa8304613), (7, 22, 0xfd469501),
     (8, 7, 0x698098d8), (9, 12, 0x8b44f7af), (10, 17, 0xffff5bb1), (11, 22, 0x895cd7be),
     (12, 7, 0x6b901122), (13, 12, 0xfd987193), (14, 17, 0xa679438e), (15, 22, 0x49b40821)]"

definition round2 :: "(nat \<times> nat \<times> u32) list" where
  "round2 =
    [(1, 5, 0xf61e2562), (6, 9, 0xc040b340), (11, 14, 0x265e5a51), (0, 20, 0xe9b6c7aa),
     (5, 5, 0xd62f105d), (10, 9, 0x2441453), (15, 14, 0xd8a1e681), (4, 20, 0xe7d3fbc8),
     (9, 5, 0x21e1cde6), (14, 9, 0xc33707d6), (3, 14, 0xf4d50d87), (8, 20, 0x455a14ed),
     (13, 5, 0xa9e3e905), (2, 9, 0xfcefa3f8), (7, 14, 0x676f02d9), (12, 20, 0x8d2a4c8a)]"

definition round3 :: "(nat \<times> nat \<times> u32) list" where
  "round3 =
    [(5, 4, 0xfffa3942), (8, 11, 0x8771f681), (11, 16, 0x6d9d6122), (14, 23, 0xfde5380c),
     (1, 4, 0xa4beea44), (4, 11, 0x4bdecfa9), (7, 16, 0xf6bb4b60), (10, 23, 0xbebfbc70),
     (13, 4, 0x289b7ec6), (0, 11, 0xeaa127fa), (3, 16, 0xd4ef3085), (6, 23, 0x4881d05),
     (9, 4, 0xd9d4d039), (12, 11, 0xe6db99e5), (15, 16, 0x1fa27cf8), (2, 23, 0xc4ac5665)]"

definition round4 :: "(nat \<times> nat \<times> u32) list" where
  "round4 =
    [(0, 6, 0xf4292244), (7, 10, 0x432aff97), (14, 15, 0xab9423a7), (5, 21, 0xfc93a039),
     (12, 6, 0x655b59c3), (3, 10, 0x8f0ccc92), (10, 15, 0xffeff47d), (1, 21, 0x85845dd1),
     (8, 6, 0x6fa87e4f), (15, 10, 0xfe2ce6e0), (6, 15, 0xa3014314), (13, 21, 0x4e0811a1),
     (4, 6, 0xf7537e82), (11, 10, 0xbd3af235), (2, 15, 0x2ad7d2bb), (9, 21, 0xeb86d391)]"

definition byte_word :: "char \<Rightarrow> u32" where
  "byte_word c = word_of_nat (byte c)"

fun md5_decode :: "string \<Rightarrow> u32 list" where
  "md5_decode (a # b # c # d # r) =
     (byte_word a OR push_bit 8 (byte_word b) OR push_bit 16 (byte_word c) OR push_bit 24 (byte_word d))
     # md5_decode r"
| "md5_decode s = []"

definition md5_encode :: "u32 list \<Rightarrow> string" where
  "md5_encode ws = concat (map (\<lambda>w. [chr_of (unat (w AND 0xff)), chr_of (unat (drop_bit 8 w AND 0xff)),
     chr_of (unat (drop_bit 16 w AND 0xff)), chr_of (unat (drop_bit 24 w AND 0xff))]) ws)"

definition transform :: "string \<Rightarrow> regs \<Rightarrow> regs" where
  "transform block st =
     (let x = md5_decode block;
          r1 = fold (md5_step md5_F x) round1 st;
          r2 = fold (md5_step md5_G x) round2 r1;
          r3 = fold (md5_step md5_H x) round3 r2;
          r4 = fold (md5_step md5_I x) round4 r3
      in case (st, r4) of ((s0, s1, s2, s3), (a, b, c, d)) \<Rightarrow> (s0 + a, s1 + b, s2 + c, s3 + d))"

section \<open>The stream\<close>

definition md5_init :: md5 where
  "md5_init = \<lparr>md5_finalized = False, md5_buffer = replicate 64 (CHR 0x00), count_lo = 0, count_hi = 0,
     md5_regs = (0x67452301, 0xefcdab89, 0x98badcfe, 0x10325476), md5_digest = replicate 16 (CHR 0x00)\<rparr>"

definition write_at :: "string \<Rightarrow> nat \<Rightarrow> string \<Rightarrow> string" where
  "write_at buf i d = take i buf @ d @ drop (i + length d) buf"

partial_function (option) md5_chunks :: "string \<Rightarrow> nat \<Rightarrow> regs \<Rightarrow> (nat \<times> regs) option" where
  "md5_chunks input i st =
     (if (i + 64) mod 2 ^ 32 \<le> length input
      then md5_chunks input ((i + 64) mod 2 ^ 32) (transform (take 64 (drop i input)) st)
      else Some (i, st))"

definition md5_update :: "string \<Rightarrow> md5 \<Rightarrow> md5 option" where
  "md5_update input m =
     (let len = length input;
          index = count_lo m div 8 mod 64;
          bits = 8 * len mod 2 ^ 32;
          lo = (count_lo m + bits) mod 2 ^ 32;
          hi = (count_hi m + (if lo < bits then 1 else 0) + len div 2 ^ 29) mod 2 ^ 32;
          m1 = m\<lparr>count_lo := lo, count_hi := hi\<rparr>;
          firstpart = 64 - index
      in if firstpart \<le> len
         then let buf = write_at (md5_buffer m) index (take firstpart input) in
           (case md5_chunks input firstpart (transform buf (md5_regs m)) of
              None \<Rightarrow> None
            | Some (i, st) \<Rightarrow> Some (m1\<lparr>md5_buffer := write_at buf 0 (drop i input), md5_regs := st\<rparr>))
         else Some (m1\<lparr>md5_buffer := write_at (md5_buffer m) index input\<rparr>))"

definition md5_padding :: string where
  "md5_padding = CHR 0x80 # replicate 63 (CHR 0x00)"

definition pad_length :: "nat \<Rightarrow> nat" where
  "pad_length index = (if index < 56 then 56 - index else 120 - index)"

definition md5_finalize :: "md5 \<Rightarrow> md5 option" where
  "md5_finalize m =
     (if md5_finalized m then Some m
      else let bits = md5_encode [of_nat (count_lo m), of_nat (count_hi m)];
               index = count_lo m div 8 mod 64
           in Option.bind (md5_update (take (pad_length index) md5_padding) m) (\<lambda>m1.
              Option.bind (md5_update bits m1) (\<lambda>m2. case md5_regs m2 of (a, b, c, d) \<Rightarrow>
                Some (m2\<lparr>md5_digest := md5_encode [a, b, c, d], md5_buffer := replicate 64 (CHR 0x00),
                  count_lo := 0, count_hi := 0, md5_finalized := True\<rparr>))))"

definition hex2 :: "char \<Rightarrow> string" where
  "hex2 c = [digit_chr (byte c div 16), digit_chr (byte c mod 16)]"

definition hexdigest :: "md5 \<Rightarrow> string" where
  "hexdigest m = (if \<not> md5_finalized m then [] else concat (map hex2 (md5_digest m)))"

text \<open>The length handed to \<open>update\<close> is cut to 32 bits.\<close>

definition md5_of :: "string \<Rightarrow> string option" where
  "md5_of str =
     map_option hexdigest
       (Option.bind (md5_update (take (length str mod 2 ^ 32) str) md5_init) md5_finalize)"

section \<open>The whole message at once\<close>

text \<open>What the code computes without its buffer: the padded message, cut into blocks of 64, folded.\<close>

definition le64 :: "nat \<Rightarrow> string" where
  "le64 n = map (\<lambda>i. chr_of (n div 256 ^ i)) [0..<8]"

definition md5_padded :: "string \<Rightarrow> string" where
  "md5_padded m = m @ CHR 0x80 # replicate (pad_length (length m mod 64) - 1) (CHR 0x00) @ le64 (8 * length m mod 2 ^ 64)"

function md5_fold :: "string \<Rightarrow> regs \<Rightarrow> regs" where
  "md5_fold m st = (if 64 \<le> length m then md5_fold (drop 64 m) (transform (take 64 m) st) else st)"
  by pat_completeness auto
termination
  by (relation "measure (\<lambda>(m, st). length m)") auto

declare md5_fold.simps [simp del]

definition md5_whole :: "string \<Rightarrow> string" where
  "md5_whole m =
     (case md5_fold (md5_padded m) (0x67452301, 0xefcdab89, 0x98badcfe, 0x10325476) of (a, b, c, d) \<Rightarrow>
        concat (map hex2 (md5_encode [a, b, c, d])))"

section \<open>The buffered computation\<close>

lemma md5_fold_short: "length m < 64 \<Longrightarrow> md5_fold m st = st"
  by (simp add: md5_fold.simps)

lemma md5_fold_append:
  "64 dvd length a \<Longrightarrow> md5_fold (a @ b) st = md5_fold b (md5_fold a st)"
proof (induction a st rule: md5_fold.induct)
  case (1 a st)
  show ?case
  proof (cases "64 \<le> length a")
    case True
    have "64 dvd length (drop 64 a)" using "1.prems" True by (simp add: dvd_diff_nat)
    then show ?thesis
      using "1.IH" [OF True] True
      by (simp add: md5_fold.simps [of "a @ b"] md5_fold.simps [of a])
  next
    case False
    then have "a = []" using "1.prems" by (metis dvd_imp_le gr0I length_0_conv)
    then show ?thesis by (simp add: md5_fold_short)
  qed
qed

text \<open>The bytes of a message that do not fill a block.\<close>

definition tail64 :: "string \<Rightarrow> string" where
  "tail64 m = drop (length m - length m mod 64) m"

lemma length_tail64 [simp]: "length (tail64 m) = length m mod 64"
  by (simp add: tail64_def)

lemma md5_fold_split: "md5_fold (m @ d) st = md5_fold (tail64 m @ d) (md5_fold m st)"
proof -
  let ?n = "length m - length m mod 64"
  have d: "64 dvd length (take ?n m)" by (simp add: minus_mod_eq_mult_div)
  have m: "m = take ?n m @ tail64 m" by (simp add: tail64_def)
  have "md5_fold (m @ d) st = md5_fold (take ?n m @ (tail64 m @ d)) st" by (metis append_assoc m)
  also have "\<dots> = md5_fold (tail64 m @ d) (md5_fold (take ?n m) st)" by (rule md5_fold_append [OF d])
  also have "md5_fold (take ?n m) st = md5_fold m st"
    using md5_fold_append [OF d, of "tail64 m" st] m by (simp add: md5_fold_short)
  finally show ?thesis .
qed

lemma tail64_prefix:
  assumes "64 dvd length p"
  shows "tail64 (p @ x) = tail64 x"
proof -
  have "(length p + length x) mod 64 = length x mod 64" using assms by (simp add: mod_add_left_eq dvd_imp_mod_0 flip: mod_add_eq)
  then have "length (p @ x) - length (p @ x) mod 64 = length p + (length x - length x mod 64)"
    using mod_less_eq_dividend [of "length x" 64] by simp
  then show ?thesis by (simp add: tail64_def)
qed

lemma tail64_append: "tail64 (m @ d) = tail64 (tail64 m @ d)"
proof -
  let ?n = "length m - length m mod 64"
  have "64 dvd length (take ?n m)" by (simp add: minus_mod_eq_mult_div)
  from tail64_prefix [OF this, of "tail64 m @ d"] show ?thesis
    unfolding tail64_def [of m] by (simp flip: append_assoc)
qed

lemma md5_chunks_eq:
  "length input < 2 ^ 32 - 64 \<Longrightarrow> i \<le> length input \<Longrightarrow>
     md5_chunks input i st = Some (i + (length input - i) div 64 * 64, md5_fold (drop i input) st)"
proof (induction "length input - i" arbitrary: i st rule: less_induct)
  case less
  have m: "(i + 64) mod 2 ^ 32 = i + 64" using less.prems by simp
  show ?case
  proof (cases "i + 64 \<le> length input")
    case False
    then have "(length input - i) div 64 = 0" using less.prems by simp
    then show ?thesis
      using False m by (subst md5_chunks.simps) (simp add: md5_fold_short)
  next
    case True
    have "md5_chunks input (i + 64) (transform (take 64 (drop i input)) st) =
        Some (i + 64 + (length input - (i + 64)) div 64 * 64,
          md5_fold (drop (i + 64) input) (transform (take 64 (drop i input)) st))"
      using less.prems True by (intro less.hyps) auto
    moreover have "(length input - i) div 64 = Suc ((length input - (i + 64)) div 64)"
      using True le_div_geq [of 64 "length input - i"] by simp
    moreover have "md5_fold (drop i input) st =
        md5_fold (drop (i + 64) input) (transform (take 64 (drop i input)) st)"
      using True by (subst md5_fold.simps) (simp add: add.commute le_diff_conv2)
    ultimately show ?thesis
      using True m by (subst md5_chunks.simps) simp
  qed
qed

section \<open>The counters\<close>

lemma two_word_add:
  fixes lo hi bits q B :: nat
  assumes "lo < B" and "bits < B"
  shows "(lo + bits) mod B + B * ((hi + (if (lo + bits) mod B < bits then 1 else 0) + q) mod B) =
    (lo + B * hi + (bits + B * q)) mod (B * B)"
proof -
  have B: "0 < B" using assms(1) by simp
  define c where "c = (if (lo + bits) mod B < bits then 1 else 0 :: nat)"
  have c: "lo + bits = (lo + bits) mod B + B * c"
  proof (cases "lo + bits < B")
    case True
    then show ?thesis using assms by (simp add: c_def)
  next
    case False
    then have "(lo + bits) mod B = lo + bits - B" using assms by (simp add: mod_if)
    then show ?thesis using False assms by (simp add: c_def)
  qed
  have "lo + B * hi + (bits + B * q) = (lo + bits) + B * (hi + q)" by (simp add: distrib_left)
  also have "\<dots> = (lo + bits) mod B + B * (hi + c + q)"
    by (subst c) (simp add: distrib_left)
  finally have "(lo + B * hi + (bits + B * q)) mod (B * B) = ((lo + bits) mod B + B * (hi + c + q)) mod (B * B)"
    by (rule arg_cong)
  also have "\<dots> = (lo + bits) mod B + B * ((hi + c + q) mod B)"
    using B by (simp add: mod_mult2_eq)
  finally show ?thesis by (simp add: c_def)
qed

definition md5_rel :: "string \<Rightarrow> md5 \<Rightarrow> bool" where
  "md5_rel m s \<longleftrightarrow> \<not> md5_finalized s \<and> length (md5_buffer s) = 64
     \<and> count_lo s < 2 ^ 32 \<and> count_lo s + 2 ^ 32 * count_hi s = 8 * length m mod 2 ^ 64
     \<and> take (length m mod 64) (md5_buffer s) = tail64 m
     \<and> md5_regs s = md5_fold m (0x67452301, 0xefcdab89, 0x98badcfe, 0x10325476)"

lemma md5_rel_init: "md5_rel [] md5_init"
  by (simp add: md5_rel_def md5_init_def tail64_def md5_fold_short)

lemma mod_64_of_lo:
  assumes "lo < 2 ^ 32" and "lo + 2 ^ 32 * hi = 8 * n mod 2 ^ 64"
  shows "lo div 8 mod 64 = n mod (64 :: nat)"
proof -
  have "lo = (lo + 2 ^ 32 * hi) mod 2 ^ 32" using assms(1) by simp
  also have "\<dots> = 8 * n mod 2 ^ 32" unfolding assms(2) by (simp add: mod_mod_cancel)
  finally have "lo = 8 * (n mod 2 ^ 29)" using mult_mod_right [of 8 n "2 ^ 29"] by simp
  then show ?thesis by (simp add: mod_mod_cancel)
qed

lemma write_at_full:
  "length buf = 64 \<Longrightarrow> i \<le> 64 \<Longrightarrow> length d = 64 - i \<Longrightarrow> write_at buf i d = take i buf @ d"
  by (simp add: write_at_def)

lemma length_write_at: "i + length d \<le> length buf \<Longrightarrow> length (write_at buf i d) = length buf"
  by (simp add: write_at_def)

lemma take_write_at: "i + length d \<le> length buf \<Longrightarrow> take (i + length d) (write_at buf i d) = take i buf @ d"
  by (simp add: write_at_def)

text \<open>One \<open>update\<close> in terms of the message: the counters, the registers and the tail all follow it.\<close>

lemma md5_update_rel:
  assumes "md5_rel m s" and "length d < 2 ^ 32 - 64"
  shows "\<exists>s'. md5_update d s = Some s' \<and> md5_rel (m @ d) s'"
proof -
  define index where "index = length m mod 64"
  define lo where "lo = (count_lo s + 8 * length d mod 2 ^ 32) mod 2 ^ 32"
  define hi where "hi = (count_hi s + (if lo < 8 * length d mod 2 ^ 32 then 1 else 0) + length d div 2 ^ 29) mod 2 ^ 32"
  let ?s1 = "s\<lparr>count_lo := lo, count_hi := hi\<rparr>"
  have s: "\<not> md5_finalized s" "length (md5_buffer s) = 64" "count_lo s < 2 ^ 32"
      "count_lo s + 2 ^ 32 * count_hi s = 8 * length m mod 2 ^ 64" "take index (md5_buffer s) = tail64 m"
      "md5_regs s = md5_fold m (0x67452301, 0xefcdab89, 0x98badcfe, 0x10325476)"
    using assms(1) by (simp_all add: md5_rel_def index_def)
  have ix: "count_lo s div 8 mod 64 = index" "index < 64"
    using mod_64_of_lo [OF s(3,4)] by (simp_all add: index_def)
  have "8 * length d mod 2 ^ 32 + 2 ^ 32 * (length d div 2 ^ 29) = 8 * length d"
    using mult_div_mod_eq [of "2 ^ 32" "8 * length d"] div_mult_mult1 [of 8 "length d" "2 ^ 29"] by simp
  then have "lo + 2 ^ 32 * hi = (count_lo s + 2 ^ 32 * count_hi s + 8 * length d) mod (2 ^ 32 * 2 ^ 32)"
    using two_word_add [of "count_lo s" "2 ^ 32" "8 * length d mod 2 ^ 32" "count_hi s" "length d div 2 ^ 29"] s(3)
    by (simp add: lo_def hi_def)
  also have "\<dots> = 8 * length (m @ d) mod 2 ^ 64"
    unfolding s(4) by (simp add: mod_add_left_eq distrib_left)
  finally have count: "lo + 2 ^ 32 * hi = 8 * length (m @ d) mod 2 ^ 64" .
  have lo: "lo < 2 ^ 32" by (simp add: lo_def)
  have fold: "md5_fold (m @ d) st = md5_fold (tail64 m @ d) (md5_fold m st)" for st
    by (rule md5_fold_split)
  show ?thesis
  proof (cases "64 - index \<le> length d")
    case False
    let ?s' = "?s1\<lparr>md5_buffer := write_at (md5_buffer s) index d\<rparr>"
    have u: "md5_update d s = Some ?s'"
      using False ix(1) by (simp add: md5_update_def Let_def lo_def hi_def)
    have fits: "index + length d < 64" using False ix(2) by simp
    have len: "length (m @ d) mod 64 = index + length d"
      using fits unfolding index_def by (metis length_append mod_add_left_eq mod_less)
    have "tail64 (m @ d) = tail64 m @ d"
      using fits by (subst tail64_append) (simp add: tail64_def [of "tail64 m @ d"] index_def)
    then have "take (length (m @ d) mod 64) (md5_buffer ?s') = tail64 (m @ d)"
      using take_write_at [of index d "md5_buffer s"] fits s(2,5) len by simp
    moreover have "length (md5_buffer ?s') = 64" using fits s(2) by (simp add: length_write_at)
    moreover have "md5_fold (m @ d) st = md5_fold m st" for st
      unfolding fold using fits by (simp add: md5_fold_short index_def)
    ultimately have "md5_rel (m @ d) ?s'"
      using s(1,6) count lo by (simp add: md5_rel_def)
    with u show ?thesis by blast
  next
    case True
    define k where "k = 64 - index"
    define buf where "buf = write_at (md5_buffer s) index (take k d)"
    have buf: "buf = tail64 m @ take k d"
      using True ix(2) s(2,5) by (simp add: buf_def k_def write_at_full)
    have lbuf: "length buf = 64" using True ix(2) by (simp add: buf k_def index_def)
    define i where "i = k + (length d - k) div 64 * 64"
    let ?regs = "md5_fold (drop k d) (transform buf (md5_regs s))"
    have ch: "md5_chunks d k (transform buf (md5_regs s)) = Some (i, ?regs)"
      unfolding i_def using True assms(2) by (intro md5_chunks_eq) (simp_all add: k_def)
    let ?s' = "?s1\<lparr>md5_buffer := write_at buf 0 (drop i d), md5_regs := ?regs\<rparr>"
    have u: "md5_update d s = Some ?s'"
      using True ix(1) ch unfolding md5_update_def k_def buf_def
      by (simp add: Let_def lo_def hi_def)
    have md: "tail64 m @ d = buf @ drop k d" by (simp add: buf)
    have "md5_fold (m @ d) st = md5_fold (drop k d) (transform buf (md5_fold m st))" for st
      unfolding fold md by (subst md5_fold.simps) (simp add: lbuf)
    then have regs: "md5_regs ?s' = md5_fold (m @ d) (0x67452301, 0xefcdab89, 0x98badcfe, 0x10325476)"
      using s(6) by simp
    have t: "tail64 (m @ d) = tail64 (drop k d)"
      unfolding tail64_append [of m d] md using lbuf by (intro tail64_prefix) simp
    have i: "i = length d - (length d - k) mod 64"
    proof -
      define x where "x = length d - k"
      have "x div 64 * 64 = x - x mod 64" by (simp add: minus_mod_eq_div_mult)
      moreover have "x mod 64 \<le> x" by (rule mod_less_eq_dividend)
      moreover have "k + x = length d" using True by (simp add: x_def k_def)
      ultimately show ?thesis unfolding i_def x_def [symmetric] by linarith
    qed
    then have di: "drop i d = tail64 (drop k d)"
      using True mod_less_eq_dividend [of "length d - k" 64]
      unfolding tail64_def k_def by (simp add: add.commute)
    have ldi: "length (drop i d) = (length d - k) mod 64" unfolding di by simp
    then have ldi64: "length (drop i d) < 64" by simp
    have "length (m @ d) mod 64 = (length (tail64 m @ d)) mod 64" by (simp add: mod_add_left_eq)
    also have "\<dots> = (length d - k) mod 64" unfolding md by (simp add: lbuf)
    finally have len: "length (m @ d) mod 64 = length (drop i d)" using ldi by simp
    have "take (length (drop i d)) (write_at buf 0 (drop i d)) = drop i d"
      using take_write_at [of 0 "drop i d" buf] ldi64 lbuf by simp
    then have "take (length (m @ d) mod 64) (md5_buffer ?s') = tail64 (m @ d)"
      unfolding len t di [symmetric] by simp
    moreover have "length (md5_buffer ?s') = 64"
      using ldi64 lbuf length_write_at [of 0 "drop i d" buf] by simp
    ultimately have "md5_rel (m @ d) ?s'"
      using s(1) count lo regs by (simp add: md5_rel_def)
    with u show ?thesis by blast
  qed
qed

section \<open>Finalization\<close>

lemma chr_of_mod: "chr_of (n mod 256) = chr_of n"
  by (metis byte_chr_of chr_of_byte)

lemma chr_of_cong: "a mod 256 = b mod 256 \<Longrightarrow> chr_of a = chr_of b"
  by (metis chr_of_mod)

lemma unat_low_byte: "unat (drop_bit k (w :: u32) AND 0xff) = unat w div 2 ^ k mod 256"
proof -
  have "unat w < 2 ^ 32" using unsigned_less [of w] by simp
  then have "take_bit 32 (unat w) = unat w" by (rule take_bit_nat_eq_self)
  then have "unat (drop_bit k w AND mask 8) = take_bit 8 (drop_bit k (unat w))"
    by (simp add: unsigned_take_bit_eq unsigned_drop_bit_eq flip: take_bit_eq_mask)
  then show ?thesis by (simp add: mask_eq_exp_minus_1 take_bit_eq_mod drop_bit_eq_div)
qed

lemma md5_encode_word:
  "n < 2 ^ 32 \<Longrightarrow> md5_encode [of_nat n] = map (\<lambda>i. chr_of (n div 256 ^ i)) [0..<4]"
proof -
  assume n: "n < 2 ^ 32"
  have u: "unat (word_of_nat n :: u32) = n" using n by (simp add: unat_of_nat)
  have l: "[0..<4] = [0, 1, 2, 3 :: nat]" by (simp add: upt_rec)
  show ?thesis
    using unat_low_byte [of 0 "of_nat n"] unat_low_byte [of 8 "of_nat n"] unat_low_byte [of 16 "of_nat n"]
      unat_low_byte [of 24 "of_nat n"]
    by (simp add: md5_encode_def u l chr_of_mod)
qed

lemma md5_encode_append: "md5_encode (a @ b) = md5_encode a @ md5_encode b"
  by (simp add: md5_encode_def)

lemma md5_encode_le64:
  assumes "lo < 2 ^ 32" and "hi < 2 ^ 32"
  shows "md5_encode [of_nat lo, of_nat hi] = le64 (lo + 2 ^ 32 * hi)"
proof -
  let ?n = "lo + 2 ^ 32 * hi"
  have low: "chr_of (?n div 256 ^ i) = chr_of (lo div 256 ^ i)" if "i < 4" for i
  proof (rule chr_of_cong)
    have p: "(2 :: nat) ^ 32 = 256 ^ i * (256 * 256 ^ (3 - i))"
    proof -
      have "(256 :: nat) ^ i * (256 * 256 ^ (3 - i)) = 256 ^ (i + Suc (3 - i))"
        by (simp only: power_add power_Suc)
      also have "i + Suc (3 - i) = 4" using that by simp
      finally show ?thesis by simp
    qed
    have "?n div 256 ^ i = lo div 256 ^ i + 256 * (256 ^ (3 - i) * hi)"
      unfolding p mult.assoc by (simp add: div_mult_self2)
    then show "?n div 256 ^ i mod 256 = lo div 256 ^ i mod 256" by simp
  qed
  have high: "?n div 256 ^ (i + 4) = hi div 256 ^ i" for i
  proof -
    have "?n div 256 ^ (i + 4) = ?n div 2 ^ 32 div 256 ^ i"
      by (simp add: div_mult2_eq power_add mult.commute [of "256 ^ i"])
    also have "?n div 2 ^ 32 = hi" using assms(1) by simp
    finally show ?thesis .
  qed
  have l: "[0..<8] = [0..<4] @ map (\<lambda>i. i + 4) [0..<4]" by (simp add: upt_rec)
  have "le64 ?n = map (\<lambda>i. chr_of (?n div 256 ^ i)) [0..<4] @ map (\<lambda>i. chr_of (?n div 256 ^ (i + 4))) [0..<4]"
    unfolding le64_def l by (simp add: comp_def)
  also have "map (\<lambda>i. chr_of (?n div 256 ^ i)) [0..<4] = map (\<lambda>i. chr_of (lo div 256 ^ i)) [0..<4]"
    using low by (intro map_cong) auto
  finally have "le64 ?n = md5_encode [of_nat lo] @ md5_encode [of_nat hi]"
    unfolding high md5_encode_word [OF assms(1)] md5_encode_word [OF assms(2)] .
  then show ?thesis by (simp flip: md5_encode_append)
qed

lemma pad_length_range: "index < 64 \<Longrightarrow> 1 \<le> pad_length index \<and> pad_length index \<le> 64"
  by (cases "index < 56") (auto simp: pad_length_def)

lemma take_padding:
  "1 \<le> n \<Longrightarrow> n \<le> 64 \<Longrightarrow> take n md5_padding = CHR 0x80 # replicate (n - 1) (CHR 0x00)"
  by (cases n) (simp_all add: md5_padding_def)

lemma md5_finalize_rel:
  assumes "md5_rel m s"
  shows "map_option hexdigest (md5_finalize s) = Some (md5_whole m)"
proof -
  define index where "index = length m mod 64"
  have s: "\<not> md5_finalized s" "count_lo s < 2 ^ 32" "count_lo s + 2 ^ 32 * count_hi s = 8 * length m mod 2 ^ 64"
    using assms by (simp_all add: md5_rel_def)
  have hi: "count_hi s < 2 ^ 32"
  proof (rule ccontr)
    assume "\<not> count_hi s < 2 ^ 32"
    then have "2 ^ 32 * 2 ^ 32 \<le> 2 ^ 32 * count_hi s" by (intro mult_le_mono2) simp
    moreover have "8 * length m mod 2 ^ 64 < 2 ^ 64" by (rule mod_less_divisor) simp
    ultimately show False using s(3) by simp
  qed
  have ix: "count_lo s div 8 mod 64 = index" "index < 64"
    using mod_64_of_lo [OF s(2,3)] by (simp_all add: index_def)
  note pl = pad_length_range [OF ix(2)]
  let ?pad = "CHR 0x80 # replicate (pad_length index - 1) (CHR 0x00)"
  let ?bits = "le64 (8 * length m mod 2 ^ 64)"
  have pad: "take (pad_length index) md5_padding = ?pad" using take_padding pl by blast
  have bits: "md5_encode [of_nat (count_lo s), of_nat (count_hi s)] = ?bits"
    using md5_encode_le64 [OF s(2) hi] s(3) by simp
  have "length ?pad < 2 ^ 32 - 64" using pl by simp
  from md5_update_rel [OF assms this] obtain s1 where s1: "md5_update ?pad s = Some s1" "md5_rel (m @ ?pad) s1"
    by blast
  have "length ?bits < 2 ^ 32 - 64" by (simp add: le64_def)
  from md5_update_rel [OF s1(2) this] obtain s2 where
      s2: "md5_update ?bits s1 = Some s2" "md5_rel ((m @ ?pad) @ ?bits) s2" by blast
  have "(m @ ?pad) @ ?bits = md5_padded m" by (simp add: md5_padded_def index_def)
  then have r: "md5_regs s2 = md5_fold (md5_padded m) (0x67452301, 0xefcdab89, 0x98badcfe, 0x10325476)"
    using s2(2) by (simp add: md5_rel_def)
  obtain a b c d where f: "md5_fold (md5_padded m) (0x67452301, 0xefcdab89, 0x98badcfe, 0x10325476) = (a, b, c, d)"
    by (metis prod_cases4)
  show ?thesis
    using s(1) ix(1) pad bits s1(1) s2(1) r
    by (simp add: md5_finalize_def Let_def md5_whole_def hexdigest_def f)
qed

fun md5_feed :: "string list \<Rightarrow> md5 \<Rightarrow> md5 option" where
  "md5_feed [] s = Some s"
| "md5_feed (d # ds) s = Option.bind (md5_update d s) (md5_feed ds)"

lemma md5_feed_rel:
  "md5_rel m s \<Longrightarrow> \<forall>d \<in> set ds. length d < 2 ^ 32 - 64 \<Longrightarrow> \<exists>s'. md5_feed ds s = Some s' \<and> md5_rel (m @ concat ds) s'"
proof (induction ds arbitrary: m s)
  case (Cons d ds)
  obtain s1 where s1: "md5_update d s = Some s1" "md5_rel (m @ d) s1"
    using md5_update_rel [OF Cons.prems(1), of d] Cons.prems(2) by auto
  with Cons.IH [OF s1(2)] Cons.prems(2) show ?case by simp
qed simp

section \<open>The code computes RFC 1321\<close>

lemma rotate_left_rotl: "0 < n \<Longrightarrow> n < 32 \<Longrightarrow> rotate_left x n = word_rotl n x"
  by (simp add: rotate_left_def word_rotl_u32)

lemma byte_word_bit: "bit (byte_word c) n \<Longrightarrow> n < 8"
proof -
  have "byte_word c = take_bit 8 (byte_word c)"
    using byte_less [of c] by (simp add: byte_word_def take_bit_of_nat take_bit_nat_eq_self)
  moreover assume "bit (byte_word c) n"
  ultimately show ?thesis by (metis bit_take_bit_iff)
qed

lemma or_disjoint_add:
  assumes "\<And>n. bit a n \<Longrightarrow> n < k" and "\<And>n. bit b n \<Longrightarrow> k \<le> n"
  shows "a OR b = a + (b :: u32)"
  using assms by (intro disjunctive_add [symmetric]) (meson not_le)

lemma decoded_word:
  "byte_word a OR push_bit 8 (byte_word b) OR push_bit 16 (byte_word c) OR push_bit 24 (byte_word d) =
     of_nat (byte a + 256 * byte b + 65536 * byte c + 16777216 * byte d)"
proof -
  have b: "\<not> bit (byte_word x) n" if "8 \<le> n" for x n using byte_word_bit [of x n] that by linarith
  have "push_bit 16 (byte_word c) OR push_bit 24 (byte_word d) = push_bit 16 (byte_word c) + push_bit 24 (byte_word d)"
    by (rule or_disjoint_add [of _ 24]) (use byte_word_bit [of c] in \<open>force simp: bit_simps\<close>, simp add: bit_simps)
  moreover have "push_bit 8 (byte_word b) OR (push_bit 16 (byte_word c) OR push_bit 24 (byte_word d)) =
      push_bit 8 (byte_word b) + (push_bit 16 (byte_word c) OR push_bit 24 (byte_word d))"
    by (rule or_disjoint_add [of _ 16]) (use byte_word_bit [of b] in \<open>force simp: bit_simps\<close>, auto simp: bit_simps)
  moreover have "byte_word a OR (push_bit 8 (byte_word b) OR push_bit 16 (byte_word c) OR push_bit 24 (byte_word d)) =
      byte_word a + (push_bit 8 (byte_word b) OR push_bit 16 (byte_word c) OR push_bit 24 (byte_word d))"
    by (rule or_disjoint_add [of _ 8]) (use byte_word_bit [of a] in \<open>force simp: bit_simps\<close>, auto simp: bit_simps)
  ultimately show ?thesis by (simp add: byte_word_def push_bit_eq_mult mult.commute add.assoc)
qed

lemma md5_decode_nth:
  "4 * k + 4 \<le> length b \<Longrightarrow> md5_decode b ! k = rfc_word b k"
proof (induction b arbitrary: k rule: md5_decode.induct)
  case (1 a b c d r)
  show ?case
  proof (cases k)
    case 0
    then show ?thesis by (simp add: rfc_word_def decoded_word)
  next
    case (Suc j)
    have n: "(a # b # c # d # r) ! (4 + i) = r ! i" for i by (simp add: numeral_eq_Suc)
    have "4 * Suc j = 4 + 4 * j" "4 * Suc j + 1 = 4 + (4 * j + 1)" "4 * Suc j + 2 = 4 + (4 * j + 2)"
        "4 * Suc j + 3 = 4 + (4 * j + 3)" by simp_all
    then have "rfc_word (a # b # c # d # r) (Suc j) = rfc_word r j" by (simp only: rfc_word_def n)
    then show ?thesis using 1 Suc by simp
  qed
qed simp_all

lemma fold_md5_step:
  assumes "map (\<lambda>i. (rfc_index i, rfc_shift i, rfc_T ! i)) js = ps"
    and "list_all (\<lambda>i. f = rfc_aux i \<and> 4 * rfc_index i + 4 \<le> length b \<and> 0 < rfc_shift i \<and> rfc_shift i < 32) js"
  shows "fold (md5_step f (md5_decode b)) ps st = fold (rfc_op b) js st"
proof -
  have "md5_step f (md5_decode b) (rfc_index i, rfc_shift i, rfc_T ! i) st = rfc_op b i st" if "i \<in> set js" for i st
  proof -
    have i: "f = rfc_aux i" "4 * rfc_index i + 4 \<le> length b" "0 < rfc_shift i" "rfc_shift i < 32"
      using assms(2) that by (simp_all add: list_all_iff)
    show ?thesis
      unfolding md5_step_def rfc_op_def i(1)
      by (simp add: md5_decode_nth [OF i(2)] rotate_left_rotl [OF i(3,4)] add.commute split: prod.split)
  qed
  then have "fold (\<lambda>i. md5_step f (md5_decode b) (rfc_index i, rfc_shift i, rfc_T ! i)) js st = fold (rfc_op b) js st"
    by (intro fold_cong) (auto simp: fun_eq_iff)
  then show ?thesis unfolding assms(1) [symmetric] fold_map comp_def .
qed

section \<open>Properties\<close>

text \<open>The four tables of the code hold the message index, the shift and the constant of the 64 operations.\<close>

lemma rounds_are_rfc:
  "map (\<lambda>i. (rfc_index i, rfc_shift i, rfc_T ! i)) [0..<16] = round1"
  "map (\<lambda>i. (rfc_index i, rfc_shift i, rfc_T ! i)) [16..<32] = round2"
  "map (\<lambda>i. (rfc_index i, rfc_shift i, rfc_T ! i)) [32..<48] = round3"
  "map (\<lambda>i. (rfc_index i, rfc_shift i, rfc_T ! i)) [48..<64] = round4"
  by code_simp+

lemma transform_is_rfc:
  assumes "length b = 64"
  shows "transform b st = rfc_block b st"
proof -
  have sh: "list_all (\<lambda>i. 4 * rfc_index i + 4 \<le> 64 \<and> 0 < rfc_shift i \<and> rfc_shift i < 32) [0..<64]" by code_simp
  then have ok: "4 * rfc_index i + 4 \<le> 64 \<and> 0 < rfc_shift i \<and> rfc_shift i < 32" if "i < 64" for i
    using that by (simp add: list_all_iff)
  have f: "list_all (\<lambda>i. md5_F = rfc_aux i) [0..<16]" "list_all (\<lambda>i. md5_G = rfc_aux i) [16..<32]"
      "list_all (\<lambda>i. md5_H = rfc_aux i) [32..<48]" "list_all (\<lambda>i. md5_I = rfc_aux i) [48..<64]"
    unfolding list_all_iff set_upt
    by (auto simp: fun_eq_iff rfc_aux_def md5_F_def md5_G_def md5_H_def md5_I_def simp del: upt_rec_numeral)
  have all: "list_all (\<lambda>i. g = rfc_aux i \<and> 4 * rfc_index i + 4 \<le> length b \<and> 0 < rfc_shift i \<and> rfc_shift i < 32) [m..<n]"
    if "list_all (\<lambda>i. g = rfc_aux i) [m..<n]" and "n \<le> 64" for g m n
    using that ok assms by (simp add: list_all_iff)
  have r: "fold (md5_step md5_F (md5_decode b)) round1 s = fold (rfc_op b) [0..<16] s"
      "fold (md5_step md5_G (md5_decode b)) round2 s = fold (rfc_op b) [16..<32] s"
      "fold (md5_step md5_H (md5_decode b)) round3 s = fold (rfc_op b) [32..<48] s"
      "fold (md5_step md5_I (md5_decode b)) round4 s = fold (rfc_op b) [48..<64] s" for s
    by (rule fold_md5_step [OF rounds_are_rfc(1) all [OF f(1)]], simp)
      (rule fold_md5_step [OF rounds_are_rfc(2) all [OF f(2)]], simp,
       rule fold_md5_step [OF rounds_are_rfc(3) all [OF f(3)]], simp,
       rule fold_md5_step [OF rounds_are_rfc(4) all [OF f(4)]], simp)
  have "[0..<64] = [0..<16] @ [16..<32] @ [32..<48] @ [48..<(64 :: nat)]"
    using upt_add_eq_append [of 0 16 48] upt_add_eq_append [of 16 32 32] upt_add_eq_append [of 32 48 16]
    by (simp del: upt_rec_numeral)
  then show ?thesis by (simp add: transform_def rfc_block_def r split: prod.split del: upt_rec_numeral)
qed

lemma md5_fold_blocks:
  "64 dvd length p \<Longrightarrow> md5_fold p st = fold rfc_block (rfc_blocks p) st"
proof (induction p st rule: md5_fold.induct)
  case (1 p st)
  show ?case
  proof (cases "64 \<le> length p")
    case True
    have d: "64 dvd length (drop 64 p)" using 1(2) True by (simp add: dvd_diff_nat)
    have n: "length p div 64 = Suc (length (drop 64 p) div 64)" using True le_div_geq [of 64 "length p"] by simp
    have "rfc_blocks p = take 64 p # rfc_blocks (drop 64 p)"
      unfolding rfc_blocks_def n upt_conv_Cons [OF zero_less_Suc] map_Suc_upt [symmetric]
      by (simp add: comp_def add.commute del: upt_Suc)
    moreover have "transform (take 64 p) st = rfc_block (take 64 p) st" using True by (intro transform_is_rfc) simp
    ultimately show ?thesis using 1(1) [OF True d] True by (simp add: md5_fold.simps [of p])
  next
    case False
    then have "p = []" using 1(2) by (metis dvd_imp_le gr0I length_0_conv)
    then show ?thesis by (simp add: md5_fold_short rfc_blocks_def)
  qed
qed

lemma md5_padded_is_rfc: "md5_padded m = rfc_padded m"
proof -
  have "chr_of (8 * length m mod 2 ^ 64 div 256 ^ i) = chr_of (8 * length m div 256 ^ i)" if "i < 8" for i
  proof (rule chr_of_cong)
    define y where "y = (256 :: nat) ^ (7 - i)"
    have "256 ^ i * (256 * y) = (256 :: nat) ^ (i + Suc (7 - i))" unfolding y_def by (simp only: power_add power_Suc)
    also have "i + Suc (7 - i) = 8" using that by simp
    finally have p: "(2 :: nat) ^ 64 = 256 ^ i * (256 * y)" by simp
    have "8 * length m mod 2 ^ 64 div 256 ^ i = 8 * length m div 256 ^ i mod (256 * y)"
      unfolding p mod_mult2_eq by simp
    then show "8 * length m mod 2 ^ 64 div 256 ^ i mod 256 = 8 * length m div 256 ^ i mod 256"
      by (simp add: mod_mod_cancel)
  qed
  then have l: "le64 (8 * length m mod 2 ^ 64) = rfc_length (length m)"
    unfolding le64_def rfc_length_def by (intro map_cong) simp_all
  have "pad_length (length m mod 64) - 1 = rfc_zeros (length m)"
    by (simp add: pad_length_def rfc_zeros_eq)
  moreover have "CHR 0x80 = chr_of 0x80" "CHR 0x00 = chr_of 0" by (code_simp, code_simp)
  ultimately show ?thesis unfolding md5_padded_def rfc_padded_def l by simp
qed

lemma rfc_start_eq: "rfc_start = (0x67452301, 0xefcdab89, 0x98badcfe, 0x10325476)"
  by (simp add: rfc_start_def rfc_word_def)

lemma hex2_is_rfc: "hex2 (chr_of n) = rfc_hex (n mod 256)"
proof -
  have d: "list_all (\<lambda>d. digit_chr d = ''0123456789abcdef'' ! d) [0..<16]" by code_simp
  have "digit_chr k = ''0123456789abcdef'' ! k" if "k < 16" for k
    using d that unfolding list_all_iff by auto
  moreover have "n mod 256 div 16 < 16" by (simp add: div_less_iff_less_mult)
  ultimately show ?thesis unfolding hex2_def rfc_hex_def byte_chr_of by simp
qed

lemma md5_encode_is_rfc: "map hex2 (md5_encode ws) = map rfc_hex (concat (map rfc_bytes ws))"
proof (induction ws)
  case (Cons w ws)
  have "map hex2 (md5_encode [w]) = map rfc_hex (rfc_bytes w)"
    using unat_low_byte [of 0 w] unat_low_byte [of 8 w] unat_low_byte [of 16 w] unat_low_byte [of 24 w]
    by (simp add: md5_encode_def rfc_bytes_def hex2_is_rfc upt_rec)
  then show ?case using Cons by (simp add: md5_encode_def)
qed (simp add: md5_encode_def)

lemma md5_whole_is_rfc: "md5_whole m = rfc_md5 m"
proof -
  have "md5_fold (md5_padded m) (0x67452301, 0xefcdab89, 0x98badcfe, 0x10325476) =
      fold rfc_block (rfc_blocks (rfc_padded m)) rfc_start"
    using md5_fold_blocks [OF length_rfc_padded] by (simp add: md5_padded_is_rfc rfc_start_eq)
  then show ?thesis unfolding md5_whole_def rfc_md5_def md5_encode_is_rfc by simp
qed

section \<open>A test vector of the RFC\<close>

text \<open>The digest of \<open>abc\<close> (appendix A.5), evaluated round by round.\<close>

lemma rotate_left_of_int:
  assumes "0 < n" and "n < 32"
  shows "rotate_left (of_int i) n =
    of_int ((i mod 4294967296) * 2 ^ n mod 4294967296 + (i mod 4294967296) div 2 ^ (32 - n))"
proof -
  define x where "x = (of_int i :: u32)"
  define j where "j = i mod 4294967296"
  have u: "uint x = j" by (simp add: x_def j_def uint_word_of_int take_bit_eq_mod)
  have m: "(of_int (k mod 4294967296) :: u32) = of_int k" for k
    by (simp add: word_uint_eq_iff uint_word_of_int take_bit_eq_mod)
  have "push_bit n x OR drop_bit (32 - n) x = push_bit n x + drop_bit (32 - n) x"
    using assms by (subst disjunctive_add) (auto simp: bit_simps impossible_bit)
  moreover have "push_bit n x = of_int (j * 2 ^ n mod 4294967296)"
    unfolding m x_def j_def by (simp add: push_bit_eq_mult m)
  moreover have "drop_bit (32 - n) x = of_int (j div 2 ^ (32 - n))"
  proof -
    have "uint (drop_bit (32 - n) x) = uint x div 2 ^ (32 - n)"
      using take_bit_int_eq_self [of "uint x" 32] uint_nonnegative [of x] uint_lt2p [of x]
      by (simp add: unsigned_drop_bit_eq flip: drop_bit_eq_div)
    then show ?thesis unfolding u [symmetric] by (metis word_of_int_uint)
  qed
  ultimately show ?thesis unfolding rotate_left_def x_def [symmetric] j_def [symmetric] of_int_add by (simp only:)
qed

lemma rotate_left_numeral:
  "0 < n \<Longrightarrow> n < 32 \<Longrightarrow> rotate_left (numeral w) n =
     of_int ((numeral w mod 4294967296) * 2 ^ n mod 4294967296 + (numeral w mod 4294967296) div 2 ^ (32 - n))"
  "0 < n \<Longrightarrow> n < 32 \<Longrightarrow> rotate_left (- numeral w) n =
     of_int ((- numeral w mod 4294967296) * 2 ^ n mod 4294967296 + (- numeral w mod 4294967296) div 2 ^ (32 - n))"
  using rotate_left_of_int [of n "numeral w"] rotate_left_of_int [of n "- numeral w"] by simp_all

lemma md5_step_tuple:
  "md5_step f x (k, s, ac) (a, b, c, d) = (d, rotate_left (a + f b c d + x ! k + ac) s + b, b, c)"
  by (simp add: md5_step_def)

lemmas md5_compute = md5_step_tuple [of md5_F] md5_step_tuple [of md5_G] md5_step_tuple [of md5_H]
  md5_step_tuple [of md5_I] md5_F_def md5_G_def md5_H_def md5_I_def rotate_left_numeral

definition abc_words :: "u32 list" where
  "abc_words = [2153996897, 0, 0, 0, 0, 0, 0, 0, 0, 0, 0, 0, 0, 0, 24, 0]"

lemma md5_decode_zeros:
  "md5_decode (replicate (4 * n) (chr_of 0) @ s) = replicate n 0 @ md5_decode s"
proof (induction n)
  case (Suc n)
  have "replicate (4 * Suc n) (chr_of 0) = chr_of 0 # chr_of 0 # chr_of 0 # chr_of 0 # replicate (4 * n) (chr_of 0)"
    by (simp add: numeral_eq_Suc)
  with Suc show ?case by (simp add: byte_word_def)
qed simp

lemma abc_padded:
  "rfc_padded ''abc'' = [CHR ''a'', CHR ''b'', CHR ''c'', chr_of 0x80] @ replicate (4 * 13) (chr_of 0)
     @ [chr_of 24, chr_of 0, chr_of 0, chr_of 0, chr_of 0, chr_of 0, chr_of 0, chr_of 0]"
  by (simp add: rfc_padded_def rfc_length_def rfc_zeros_eq upt_rec)

lemma abc_decoded: "md5_decode (rfc_padded ''abc'') = abc_words"
proof -
  have "byte (CHR ''a'') = 97" "byte (CHR ''b'') = 98" "byte (CHR ''c'') = 99" by (simp_all add: byte_def)
  moreover have "replicate 13 x = [x, x, x, x, x, x, x, x, x, x, x, x, x]" for x :: u32 by (simp add: numeral_eq_Suc)
  ultimately show ?thesis
    unfolding abc_padded append_Cons append_Nil md5_decode.simps md5_decode_zeros decoded_word
    by (simp add: abc_words_def)
qed

lemma abc_round1:
  "fold (md5_step md5_F abc_words) round1 (1732584193, 4023233417, 2562383102, 271733878) =
     (3718887846, 1924133600, 3818292587, 2701465749)"
  by (simp add: md5_compute abc_words_def round1_def)

lemma abc_round2:
  "fold (md5_step md5_G abc_words) round2 (3718887846, 1924133600, 3818292587, 2701465749) =
     (2030729211, 1919107795, 2787673258, 2672289016)"
  by (simp add: md5_compute abc_words_def round2_def)

lemma abc_round3:
  "fold (md5_step md5_H abc_words) round3 (2030729211, 1919107795, 2787673258, 2672289016) =
     (2133741691, 2079037184, 2410570649, 2581161885)"
  by (simp add: md5_compute abc_words_def round3_def)

lemma abc_round4:
  "fold (md5_step md5_I abc_words) round4 (2133741691, 2079037184, 2410570649, 2581161885) =
     (822795919, 3229755059, 3833903576, 1649249458)"
  by (simp add: md5_compute abc_words_def round4_def)


lemma rfc_md5_abc: "rfc_md5 ''abc'' = ''900150983cd24fb0d6963f7d28e17f72''"
proof -
  have l: "length (rfc_padded ''abc'') = 64" by (simp add: abc_padded)
  have "md5_fold (rfc_padded ''abc'') st = transform (rfc_padded ''abc'') st" for st
    using l by (simp add: md5_fold.simps [of "rfc_padded ''abc''"] md5_fold_short)
  note f = this
  have w: "(7252988476 :: u32) = 0xb04fd23c" "(6396286678 :: u32) = 0x7d3f96d6" by simp_all
  have "md5_whole ''abc'' = concat (map hex2 (md5_encode [0x98500190, 0xb04fd23c, 0x7d3f96d6, 0x727fe128]))"
    by (simp add: md5_whole_def md5_padded_is_rfc transform_def abc_decoded abc_round1 abc_round2 abc_round3 abc_round4 f w)
  also have "\<dots> = ''900150983cd24fb0d6963f7d28e17f72''"
    unfolding md5_encode_is_rfc by (simp add: rfc_bytes_def rfc_hex_def upt_rec)
  finally show ?thesis by (simp only: md5_whole_is_rfc)
qed

text \<open>
  C29. The buffered MD5 refines RFC 1321: however a message is cut into calls of \<open>update\<close>, each below
  four gigabytes less a block, including empty ones and ones that cross several blocks, finalizing gives
  the digest that RFC 1321 defines for the whole message. The digest is that of \<open>Rfc1321\<close>, with its own
  padding, table, message order, shifts and word order.
\<close>

theorem md5_streaming_is_rfc:
  assumes "\<forall>d \<in> set ds. length d < 2 ^ 32 - 64"
  shows "\<exists>s. md5_feed ds md5_init = Some s \<and> map_option hexdigest (md5_finalize s) = Some (rfc_md5 (concat ds))"
  using md5_feed_rel [OF md5_rel_init assms] md5_finalize_rel unfolding md5_whole_is_rfc [symmetric] by fastforce

theorem md5_streaming_is_rfc_witness:
  "\<exists>s. md5_feed [''ab'', [], ''c''] md5_init = Some s
     \<and> map_option hexdigest (md5_finalize s) = Some ''900150983cd24fb0d6963f7d28e17f72''"
  using md5_streaming_is_rfc [of "[''ab'', [], ''c'']"] by (simp add: rfc_md5_abc)

text \<open>\<open>md5\<close> of a string below four gigabytes (less a block) is the digest of RFC 1321, and it is always reached.\<close>

theorem md5_of_is_rfc:
  assumes "length str < 2 ^ 32 - 64"
  shows "md5_of str = Some (rfc_md5 str)"
proof -
  have "take (length str mod 2 ^ 32) str = str" using assms by simp
  then show ?thesis
    using md5_feed_rel [OF md5_rel_init, of "[str]"] md5_finalize_rel assms
    unfolding md5_whole_is_rfc [symmetric]
    by (auto simp: md5_of_def bind_eq_Some_conv)
qed

theorem md5_of_is_rfc_witness: "md5_of ''abc'' = Some ''900150983cd24fb0d6963f7d28e17f72''"
  using md5_of_is_rfc [of "''abc''"] by (simp add: rfc_md5_abc)

end
