(* ===== verification/Der.thy ===== *)
theory Der imports CppString begin

text \<open>
  The walk over a certificate's DER bytes in \<open>socket/TlsVerify.cpp\<close> that finds the subject
  alternative names: \<open>ReadTlv\<close>, \<open>IsOid\<close>, \<open>ReadGeneralNames\<close>, \<open>ReadSanExtension\<close> and
  \<open>ReadAltNames\<close>. A pointer is an offset into the certificate's buffer, and every byte is read by
  \<open>peek\<close>, which is \<open>Undefined\<close> outside the buffer. The lemmas show how far the walk reads and that it
  finds the names of an encoded certificate. The Winsock conversions of addresses are a parameter.
\<close>

section \<open>Reading bytes\<close>

record ip_api =
  ntop4 :: "string \<Rightarrow> string option"
  ntop6 :: "string \<Rightarrow> string option"
  pton4 :: "string \<Rightarrow> string option"
  pton6 :: "string \<Rightarrow> string option"

definition peek :: "string \<Rightarrow> nat \<Rightarrow> nat result" where
  "peek der i = (if i < length der then Inr (byte (der ! i)) else Inl Undefined)"

definition bytes_at :: "string \<Rightarrow> nat \<Rightarrow> nat \<Rightarrow> string result" where
  "bytes_at der at n = (if at + n \<le> length der then Inr (substr der at n) else Inl Undefined)"

section \<open>Tag, length, value\<close>

record tlv =
  tlv_content :: nat
  tlv_size :: nat

fun long_length :: "string \<Rightarrow> nat \<Rightarrow> nat \<Rightarrow> nat \<Rightarrow> nat result" where
  "long_length der at 0 len = Inr len"
| "long_length der at (Suc n) len =
     bind_result (peek der at) (\<lambda>b. long_length der (at + 1) n (push_bit 8 len OR b))"

definition read_tlv :: "string \<Rightarrow> nat \<Rightarrow> nat \<Rightarrow> tlv option result" where
  "read_tlv der at available =
     (if available < 2 then Inr None
      else bind_result (peek der (at + 1)) (\<lambda>first.
        bind_result
          (if first AND 0x80 \<noteq> 0
           then let count = first AND 0x7F in
             if count = 0 \<or> 4 < count \<or> available < 1 + count + 1 then Inr None
             else bind_result (long_length der (at + 2) count 0) (\<lambda>len. Inr (Some (1 + count, len)))
           else Inr (Some (1, first)))
          (\<lambda>r. case r of
             None \<Rightarrow> Inr None
           | Some (offset, len) \<Rightarrow>
               if available < offset + 1 + len then Inr None
               else Inr (Some \<lparr>tlv_content = at + offset + 1, tlv_size = len\<rparr>))))"

fun is_oid :: "string \<Rightarrow> nat \<Rightarrow> nat \<Rightarrow> nat \<Rightarrow> nat list \<Rightarrow> bool result" where
  "is_oid der at n index [] = Inr True"
| "is_oid der at n index (b # bs) =
     (if n \<le> index then Inr False
      else bind_result (peek der (at + index)) (\<lambda>d.
        if d \<noteq> b then Inr False else is_oid der at n (index + 1) bs))"

definition san_oid :: "nat list" where
  "san_oid = [0x55, 0x1D, 0x11]"

section \<open>Names\<close>

record names =
  dns_names :: "wstring list"
  ip_names :: "string list"
  trace :: string

definition no_names :: names where
  "no_names = \<lparr>dns_names = [], ip_names = [], trace = []\<rparr>"

definition noted :: "string \<Rightarrow> names \<Rightarrow> names" where
  "noted t ns = ns\<lparr>trace := trace ns @ t\<rparr>"

definition ip_text :: "ip_api \<Rightarrow> string \<Rightarrow> nat \<Rightarrow> nat \<Rightarrow> string result" where
  "ip_text api der at n =
     (if n = 4
      then bind_result (bytes_at der at 4) (\<lambda>b. Inr (case ntop4 api b of Some t \<Rightarrow> c_str t | None \<Rightarrow> []))
      else if n = 16
      then bind_result (bytes_at der at 16) (\<lambda>b. Inr (case ntop6 api b of Some t \<Rightarrow> c_str t | None \<Rightarrow> []))
      else Inr [])"

definition widen :: "string \<Rightarrow> wstring" where
  "widen s = map (\<lambda>c. of_nat (byte c)) s"

definition from_ascii :: "string \<Rightarrow> nat \<Rightarrow> nat \<Rightarrow> wstring result" where
  "from_ascii der at n = bind_result (bytes_at der at n) (\<lambda>b. Inr (widen b))"

definition add_name :: "ip_api \<Rightarrow> string \<Rightarrow> nat \<Rightarrow> tlv \<Rightarrow> names \<Rightarrow> names result" where
  "add_name api der tag e ns =
     (if tag = 0x82
      then bind_result (from_ascii der (tlv_content e) (tlv_size e))
             (\<lambda>w. Inr (ns\<lparr>dns_names := dns_names ns @ [w]\<rparr>))
      else if tag = 0x87
      then bind_result (ip_text api der (tlv_content e) (tlv_size e mod 2 ^ 32))
             (\<lambda>t. Inr (ns\<lparr>ip_names := ip_names ns @ [t]\<rparr>))
      else Inr ns)"

definition tlv_end :: "tlv \<Rightarrow> nat" where
  "tlv_end t = tlv_content t + tlv_size t"

function general_names_loop :: "ip_api \<Rightarrow> string \<Rightarrow> nat \<Rightarrow> nat \<Rightarrow> names \<Rightarrow> names result" where
  "general_names_loop api der at left ns =
     (if left = 0 then Inr ns
      else bind_result (read_tlv der at left) (\<lambda>r. case r of
          None \<Rightarrow> Inr ns
        | Some e \<Rightarrow>
            (let consumed = tlv_end e - at in
             if consumed = 0 \<or> left < consumed then Inr ns
             else bind_result (peek der at) (\<lambda>tag.
                  bind_result (add_name api der tag e ns) (\<lambda>ns1.
                    general_names_loop api der (tlv_end e) (left - consumed) ns1)))))"
  by pat_completeness auto
termination
  by (relation "measure (\<lambda>(api, der, at, left, ns). left)") auto

definition read_general_names :: "ip_api \<Rightarrow> string \<Rightarrow> nat \<Rightarrow> nat \<Rightarrow> names \<Rightarrow> names result" where
  "read_general_names api der at available ns =
     bind_result (read_tlv der at available) (\<lambda>r. case r of
         None \<Rightarrow> Inr ns
       | Some s \<Rightarrow>
           bind_result (peek der at) (\<lambda>tag.
             if tag \<noteq> 0x30 then Inr ns
             else general_names_loop api der (tlv_content s) (tlv_size s) ns))"

text \<open>
  What follows the object identifier of the extension, up to its end: first the step over the
  optional BOOLEAN, then the octet string with the names.
\<close>

definition read_san_octets :: "ip_api \<Rightarrow> string \<Rightarrow> nat \<Rightarrow> nat \<Rightarrow> names \<Rightarrow> (bool \<times> names) result" where
  "read_san_octets api der at stop ns =
     bind_result (read_tlv der at (stop - at)) (\<lambda>v. case v of
         None \<Rightarrow> Inr (False, noted '' san not an octet string'' ns)
       | Some v \<Rightarrow>
           bind_result (peek der at) (\<lambda>tag.
             if tag \<noteq> 0x04 then Inr (False, noted '' san not an octet string'' ns)
             else bind_result (read_general_names api der (tlv_content v) (tlv_size v) ns) (\<lambda>ns1.
               Inr (True, noted ('' san'' @ nat_str (length (dns_names ns1)) @ ''/''
                                  @ nat_str (length (ip_names ns1))) ns1))))"

definition read_san_value :: "ip_api \<Rightarrow> string \<Rightarrow> nat \<Rightarrow> nat \<Rightarrow> names \<Rightarrow> (bool \<times> names) result" where
  "read_san_value api der at stop ns =
     bind_result (read_tlv der at (stop - at)) (\<lambda>f. case f of
         None \<Rightarrow> Inr (False, noted '' san value unreadable'' ns)
       | Some first \<Rightarrow>
           bind_result (peek der (tlv_content first)) (\<lambda>c.
             read_san_octets api der (if c = 0x01 then tlv_end first else at) stop ns))"

function read_san_extension ::
    "ip_api \<Rightarrow> string \<Rightarrow> nat \<Rightarrow> nat \<Rightarrow> nat \<Rightarrow> names \<Rightarrow> (bool \<times> names) result" where
  "read_san_extension api der at left index ns =
     (if left = 0 then Inr (False, noted ('' san not among '' @ nat_str index @ '' extensions'') ns)
      else bind_result (read_tlv der at left) (\<lambda>r. case r of
          None \<Rightarrow> Inr (False, noted ('' ext'' @ nat_str index @ '' unreadable'') ns)
        | Some ext \<Rightarrow>
            (let consumed = tlv_end ext - at in
             if consumed = 0 \<or> left < consumed
             then Inr (False, noted ('' ext'' @ nat_str index @ '' bad size'') ns)
             else bind_result (read_tlv der (tlv_content ext) (tlv_size ext)) (\<lambda>r2. case r2 of
                 None \<Rightarrow> Inr (False, noted ('' ext'' @ nat_str index @ '' oid unreadable'') ns)
               | Some oid \<Rightarrow>
                   bind_result (peek der at) (\<lambda>tag.
                   let ns1 = noted ('' x'' @ nat_str index @ ''/'' @ nat_str tag @ ''/''
                                   @ nat_str (tlv_size oid)) ns in
                   bind_result (is_oid der (tlv_content oid) (tlv_size oid) 0 san_oid) (\<lambda>hit.
                     if hit then read_san_value api der (tlv_end oid) (tlv_end ext) ns1
                     else read_san_extension api der (tlv_end ext) (left - consumed) (index + 1) ns1))))))"
  by pat_completeness auto
termination
  by (relation "measure (\<lambda>(api, der, at, left, index, ns). left)") auto

function read_fields ::
    "ip_api \<Rightarrow> string \<Rightarrow> nat \<Rightarrow> nat \<Rightarrow> nat \<Rightarrow> names \<Rightarrow> (bool \<times> names) result" where
  "read_fields api der at left nfields ns =
     (if left = 0 then Inr (False, noted ('' no [3] among '' @ nat_str nfields @ '' fields'') ns)
      else bind_result (read_tlv der at left) (\<lambda>r. case r of
          None \<Rightarrow> Inr (False, noted ('' field '' @ nat_str nfields @ '' unreadable'') ns)
        | Some field \<Rightarrow>
            (let consumed = tlv_end field - at in
             if consumed = 0 \<or> left < consumed
             then Inr (False, noted ('' field '' @ nat_str nfields @ '' bad size'') ns)
             else bind_result (peek der at) (\<lambda>tag.
               let ns1 = noted ('' f'' @ nat_str nfields @ ''='' @ nat_str tag) ns in
               if tag = 0xA3
               then bind_result (read_tlv der (tlv_content field) (tlv_size field)) (\<lambda>r2. case r2 of
                   None \<Rightarrow> Inr (False, noted '' extensions unreadable'' ns1)
                 | Some exts \<Rightarrow>
                     read_san_extension api der (tlv_content exts) (tlv_size exts) 0
                       (noted ('' ext'' @ nat_str (tlv_size exts)) ns1))
               else read_fields api der (tlv_end field) (left - consumed) (nfields + 1) ns1))))"
  by pat_completeness auto
termination
  by (relation "measure (\<lambda>(api, der, at, left, nfields, ns). left)") auto

declare general_names_loop.simps [simp del] read_san_extension.simps [simp del] read_fields.simps [simp del]

text \<open>A certificate context: the encoded bytes (a null pointer is \<open>None\<close>) and their declared count.\<close>

record cert_context =
  cert_encoded :: "string option"
  cert_length :: nat

definition read_alt_names :: "ip_api \<Rightarrow> cert_context option \<Rightarrow> (bool \<times> names) result" where
  "read_alt_names api certificate =
     (case Option.bind certificate (\<lambda>c. map_option (\<lambda>e. (e, cert_length c)) (cert_encoded c)) of
        None \<Rightarrow> Inr (False, noted ''no encoded bytes'' no_names)
      | Some (der, count) \<Rightarrow>
          bind_result (read_tlv der 0 count) (\<lambda>r. case r of
              None \<Rightarrow> Inr (False, noted ''outer unreadable'' no_names)
            | Some outer \<Rightarrow>
                bind_result (read_tlv der (tlv_content outer) (tlv_size outer)) (\<lambda>r2. case r2 of
                    None \<Rightarrow> Inr (False, noted ''tbs unreadable'' no_names)
                  | Some tbs \<Rightarrow>
                      read_fields api der (tlv_content tbs) (tlv_size tbs) 0
                        (noted (''outer '' @ nat_str (tlv_size outer) @ '' tbs '' @ nat_str (tlv_size tbs))
                          no_names))))"

section \<open>How far the walk reads\<close>

text \<open>
  A region \<open>at\<close>, \<open>left\<close> lies in the buffer; a value read in it lies in it too, behind its two header
  bytes at least.
\<close>

lemma peek_ok: "i < length der \<Longrightarrow> peek der i = Inr (byte (der ! i))"
  by (simp add: peek_def)

lemma bytes_at_ok: "at + n \<le> length der \<Longrightarrow> bytes_at der at n = Inr (substr der at n)"
  by (simp add: bytes_at_def)

lemma long_length_ok: "at + n \<le> length der \<Longrightarrow> returns (long_length der at n acc)"
  by (induction n arbitrary: at acc) (simp_all add: peek_ok)

lemma read_tlv_cases:
  assumes "at + left \<le> length der"
  obtains (none) "read_tlv der at left = Inr None"
    | (some) t where "read_tlv der at left = Inr (Some t)" "at + 2 \<le> tlv_content t" "tlv_end t \<le> at + left"
proof (cases "left < 2")
  case True
  then show ?thesis using none by (simp add: read_tlv_def)
next
  case False
  define b where "b = byte (der ! (at + 1))"
  define count where "count = b AND 0x7F"
  have p: "peek der (at + 1) = Inr b" using False assms by (simp add: peek_ok b_def)
  have stop: thesis if "read_tlv der at left = (if left < off + 1 + len then Inr None
      else Inr (Some \<lparr>tlv_content = at + off + 1, tlv_size = len\<rparr>))" "1 \<le> off" for off len
  proof (cases "left < off + 1 + len")
    case True
    then show ?thesis using that none by simp
  next
    case False
    then have "read_tlv der at left = Inr (Some \<lparr>tlv_content = at + off + 1, tlv_size = len\<rparr>)"
      using that by simp
    then show ?thesis by (rule some) (use False that in \<open>simp_all add: tlv_end_def\<close>)
  qed
  consider (short) "b AND 0x80 = 0"
    | (bad) "b AND 0x80 \<noteq> 0" "count = 0 \<or> 4 < count \<or> left < 1 + count + 1"
    | (long) "b AND 0x80 \<noteq> 0" "\<not> (count = 0 \<or> 4 < count \<or> left < 1 + count + 1)"
    by blast
  then show ?thesis
  proof cases
    case short
    then show ?thesis using False p by (intro stop [of 1 b]) (simp_all add: read_tlv_def)
  next
    case bad
    then show ?thesis using False p none by (simp add: read_tlv_def count_def)
  next
    case long
    then have "at + 2 + count \<le> length der" using assms by linarith
    from long_length_ok [OF this, of 0] obtain len where "long_length der (at + 2) count 0 = Inr len"
      by (rule returnsE)
    then show ?thesis
      using False p long by (intro stop [of "1 + count" len]) (simp_all add: read_tlv_def count_def)
  qed
qed

lemma is_oid_ok: "at + n \<le> length der \<Longrightarrow> returns (is_oid der at n i bs)"
  by (induction bs arbitrary: i) (auto simp: peek_ok)

lemma add_name_ok:
  assumes "tlv_end e \<le> length der"
  shows "returns (add_name api der tag e ns)"
proof -
  have "tlv_size e mod 2 ^ 32 \<le> tlv_size e" by (rule mod_less_eq_dividend)
  then have "returns (ip_text api der (tlv_content e) (tlv_size e mod 2 ^ 32))"
    using assms by (simp add: ip_text_def bytes_at_ok tlv_end_def)
  then show ?thesis
    using assms by (auto simp: add_name_def from_ascii_def bytes_at_ok tlv_end_def returns_bind returns_iff)
qed

lemma general_names_loop_ok:
  "at + left \<le> length der \<Longrightarrow> returns (general_names_loop api der at left ns)"
proof (induction api der at left ns rule: general_names_loop.induct)
  case (1 api der at left ns)
  from "1.prems" show ?case
  proof (cases rule: read_tlv_cases)
    case none
    then show ?thesis by (subst general_names_loop.simps) simp
  next
    case (some e)
    have p: "left \<noteq> 0 \<Longrightarrow> peek der at = Inr (byte (der ! at))" using "1.prems" by (simp add: peek_ok)
    obtain ns1 where n: "add_name api der (byte (der ! at)) e ns = Inr ns1"
      using add_name_ok [of e der api _ ns] some "1.prems" by (meson le_trans returnsE)
    show ?thesis
    proof (cases "left = 0")
      case False
      have c: "tlv_end e - at \<noteq> 0" "\<not> left < tlv_end e - at" using some by (auto simp: tlv_end_def)
      have "tlv_end e + (left - (tlv_end e - at)) \<le> length der" using some "1.prems" by (simp add: tlv_end_def)
      with False some(1) p n c "1.IH" [OF False some(1) refl refl] show ?thesis
        by (subst general_names_loop.simps) simp
    qed (subst general_names_loop.simps, simp)
  qed
qed

lemma read_general_names_ok:
  assumes "at + left \<le> length der"
  shows "returns (read_general_names api der at left ns)"
  using assms
proof (cases rule: read_tlv_cases)
  case (some s)
  then have "tlv_content s + tlv_size s \<le> length der" "at < length der"
    using assms by (simp_all add: tlv_end_def)
  with some general_names_loop_ok show ?thesis by (auto simp: read_general_names_def peek_ok)
qed (simp add: read_general_names_def)

lemma read_san_octets_ok:
  assumes "at \<le> stop" and "stop \<le> length der"
  shows "returns (read_san_octets api der at stop ns)"
proof -
  have "at + (stop - at) \<le> length der" using assms by simp
  then show ?thesis
  proof (cases rule: read_tlv_cases)
    case none
    then show ?thesis by (simp add: read_san_octets_def)
  next
    case (some v)
    then have v: "tlv_content v + tlv_size v \<le> length der" "at < length der"
      using assms by (simp_all add: tlv_end_def)
    from read_general_names_ok [OF v(1)] obtain ns'
      where "read_general_names api der (tlv_content v) (tlv_size v) ns = Inr ns'"
      by (rule returnsE)
    with some(1) v(2) show ?thesis by (simp add: read_san_octets_def peek_ok)
  qed
qed

lemma read_san_value_ok:
  assumes "at \<le> stop" and "stop < length der"
  shows "returns (read_san_value api der at stop ns)"
proof -
  have "at + (stop - at) \<le> length der" using assms by simp
  then show ?thesis
  proof (cases rule: read_tlv_cases)
    case none
    then show ?thesis by (simp add: read_san_value_def)
  next
    case (some first)
    then have "tlv_end first \<le> stop" "tlv_content first < length der"
      using assms by (simp_all add: tlv_end_def)
    with some(1) assms show ?thesis
      by (simp add: read_san_value_def peek_ok read_san_octets_ok)
  qed
qed

lemma read_san_extension_ok:
  "at + left < length der \<Longrightarrow> returns (read_san_extension api der at left i ns)"
proof (induction api der at left i ns rule: read_san_extension.induct)
  case (1 api der at left i ns)
  have bound: "at + left \<le> length der" using "1.prems" by simp
  from bound show ?case
  proof (cases rule: read_tlv_cases)
    case none
    then show ?thesis by (subst read_san_extension.simps) simp
  next
    case (some ext)
    show ?thesis
    proof (cases "left = 0")
      case False
      have c: "tlv_end ext - at \<noteq> 0" "\<not> left < tlv_end ext - at" using some by (auto simp: tlv_end_def)
      have p: "peek der at = Inr (byte (der ! at))" using "1.prems" False by (simp add: peek_ok)
      have inner: "tlv_content ext + tlv_size ext \<le> length der" using some "1.prems" by (simp add: tlv_end_def)
      from inner show ?thesis
      proof (cases rule: read_tlv_cases)
        case none
        with False some c show ?thesis by (subst read_san_extension.simps) simp
      next
        case inner_some: (some oid)
        have "tlv_content oid + tlv_size oid \<le> length der"
          using inner_some inner by (simp add: tlv_end_def)
        then obtain hit where hit: "is_oid der (tlv_content oid) (tlv_size oid) 0 san_oid = Inr hit"
          by (meson is_oid_ok returnsE)
        have rest: "tlv_end ext + (left - (tlv_end ext - at)) < length der"
          using some "1.prems" by (simp add: tlv_end_def)
        have v: "tlv_end oid \<le> tlv_end ext" "tlv_end ext < length der"
          using inner_some some "1.prems" by (simp_all add: tlv_end_def)
        show ?thesis
        proof (cases hit)
          case True
          with False some(1) c p inner_some(1) hit read_san_value_ok [OF v] show ?thesis
            by (subst read_san_extension.simps) (simp add: Let_def)
        next
          case no_hit: False
          note ih = "1.IH" [OF False some(1) refl refl _ inner_some(1) refl p refl hit]
          show ?thesis
            using False some(1) c p inner_some(1) hit no_hit ih rest
            by (subst read_san_extension.simps) (simp add: Let_def)
        qed
      qed
    qed (subst read_san_extension.simps, auto)
  qed
qed

lemma read_fields_ok:
  "at + left < length der \<Longrightarrow> returns (read_fields api der at left i ns)"
proof (induction api der at left i ns rule: read_fields.induct)
  case (1 api der at left i ns)
  have bound: "at + left \<le> length der" using "1.prems" by simp
  from bound show ?case
  proof (cases rule: read_tlv_cases)
    case none
    then show ?thesis by (subst read_fields.simps) simp
  next
    case (some field)
    show ?thesis
    proof (cases "left = 0")
      case False
      have c: "tlv_end field - at \<noteq> 0" "\<not> left < tlv_end field - at" using some by (auto simp: tlv_end_def)
      have p: "peek der at = Inr (byte (der ! at))" using "1.prems" False by (simp add: peek_ok)
      show ?thesis
      proof (cases "byte (der ! at) = 0xA3")
        case True
        have inner: "tlv_content field + tlv_size field \<le> length der" using some "1.prems" by (simp add: tlv_end_def)
        then show ?thesis
        proof (cases rule: read_tlv_cases)
          case none
          with False some(1) c p True show ?thesis by (subst read_fields.simps) simp
        next
          case inner_some: (some exts)
          have "tlv_content exts + tlv_size exts < length der"
            using inner_some some "1.prems" by (simp add: tlv_end_def)
          with False some(1) c p True inner_some(1) read_san_extension_ok show ?thesis
            by (subst read_fields.simps) simp
        qed
      next
        case no_ext: False
        have rest: "tlv_end field + (left - (tlv_end field - at)) < length der"
          using some "1.prems" by (simp add: tlv_end_def)
        note ih = "1.IH" [OF False some(1) refl refl _ p refl no_ext]
        show ?thesis
          using False some(1) c p no_ext ih rest by (subst read_fields.simps) simp
      qed
    qed (subst read_fields.simps, simp)
  qed
qed

lemma read_alt_names_ok:
  assumes "cert_encoded c = Some der" and "cert_length c < length der"
  shows "returns (read_alt_names api (Some c))"
proof -
  have "0 + cert_length c \<le> length der" using assms by simp
  then show ?thesis
  proof (cases rule: read_tlv_cases)
    case none
    with assms show ?thesis by (simp add: read_alt_names_def)
  next
    case (some outer)
    then have "tlv_content outer + tlv_size outer \<le> length der" using assms by (simp add: tlv_end_def)
    then show ?thesis
    proof (cases rule: read_tlv_cases)
      case none
      with assms some show ?thesis by (simp add: read_alt_names_def)
    next
      case inner: (some tbs)
      then have "tlv_content tbs + tlv_size tbs < length der" using some assms by (simp add: tlv_end_def)
      with assms some inner read_fields_ok show ?thesis by (simp add: read_alt_names_def)
    qed
  qed
qed

section \<open>Encoded certificates\<close>

text \<open>The DER encoding of a length below \<open>2 ^ 32\<close>, and of a value with its tag.\<close>

fun be_bytes :: "nat \<Rightarrow> string" where
  "be_bytes n = (if n < 256 then [chr_of n] else be_bytes (n div 256) @ [chr_of (n mod 256)])"

declare be_bytes.simps [simp del]

definition der_length :: "nat \<Rightarrow> string" where
  "der_length n = (if n < 128 then [chr_of n] else chr_of (128 + length (be_bytes n)) # be_bytes n)"

definition tlv_header :: "nat \<Rightarrow> nat \<Rightarrow> string" where
  "tlv_header tag n = chr_of tag # der_length n"

definition tlv_bytes :: "nat \<Rightarrow> string \<Rightarrow> string" where
  "tlv_bytes tag c = tlv_header tag (length c) @ c"

lemma peek_drop: "drop at der = a @ x # b \<Longrightarrow> peek der (at + length a) = Inr (byte x)"
proof -
  assume d: "drop at der = a @ x # b"
  then have "length a < length (drop at der)" by simp
  then have l: "at + length a < length der" by simp
  have "der ! (at + length a) = drop at der ! length a" using l by (simp add: nth_drop)
  with d l show ?thesis by (simp add: peek_def)
qed

lemma push_or_byte: "push_bit 8 a OR byte c = a * 256 + byte c"
proof -
  let ?n = "a * 256 + byte c"
  have "push_bit 8 (drop_bit 8 ?n) OR take_bit 8 ?n = ?n"
    by (rule bit_eqI) (auto simp: bit_simps)
  moreover have "drop_bit 8 ?n = a" "take_bit 8 ?n = byte c"
    by (simp_all add: drop_bit_eq_div take_bit_eq_mod)
  ultimately show ?thesis by simp
qed

lemma long_length_drop:
  "drop at der = bs @ post \<Longrightarrow>
   long_length der at (length bs) acc = Inr (foldl (\<lambda>a b. a * 256 + byte b) acc bs)"
proof (induction bs arbitrary: at acc)
  case (Cons b bs)
  have "peek der at = Inr (byte b)" using peek_drop [of at der "[]"] Cons.prems by simp
  moreover have "drop (at + 1) der = bs @ post"
    using Cons.prems by (metis append_Cons drop_drop add.commute drop_Suc_Cons drop0 One_nat_def)
  ultimately show ?case using Cons.IH by (simp add: push_or_byte)
qed simp

lemma foldl_be_bytes: "foldl (\<lambda>a b. a * 256 + byte b) acc (be_bytes n) = acc * 256 ^ length (be_bytes n) + n"
proof (induction n arbitrary: acc rule: be_bytes.induct)
  case (1 n)
  show ?case
  proof (cases "n < 256")
    case False
    with "1.IH" show ?thesis by (subst (1 2) be_bytes.simps) (simp add: algebra_simps)
  qed (subst (1 2) be_bytes.simps, simp)
qed

lemma length_be_bytes: "0 < k \<Longrightarrow> n < 256 ^ k \<Longrightarrow> length (be_bytes n) \<le> k"
proof (induction n arbitrary: k rule: be_bytes.induct)
  case (1 n)
  show ?case
  proof (cases "n < 256")
    case False
    obtain k' where k: "k = Suc k'" "0 < k'"
    proof (cases k)
      case (Suc j)
      with "1.prems" False have "0 < j" by (cases j) auto
      with Suc that show ?thesis by blast
    qed (use "1.prems" in simp)
    have "n div 256 < 256 ^ k'" using "1.prems" k by (simp add: less_mult_imp_div_less mult.commute)
    with False "1.IH" [of k'] k show ?thesis by (subst be_bytes.simps) simp
  qed (use "1.prems" in \<open>subst be_bytes.simps, simp\<close>)
qed

lemma be_bytes_not_Nil [simp]: "be_bytes n \<noteq> []"
  by (subst be_bytes.simps) simp

lemma read_tlv_encoded:
  assumes d: "drop at der = tlv_bytes tag c @ post" and left: "length (tlv_bytes tag c) \<le> left"
    and n: "length c < 2 ^ 32"
  shows "read_tlv der at left =
    Inr (Some \<lparr>tlv_content = at + length (tlv_header tag (length c)), tlv_size = length c\<rparr>)"
proof (cases "length c < 128")
  case True
  then have "drop at der = [chr_of tag] @ chr_of (length c) # c @ post"
    using d by (simp add: tlv_bytes_def tlv_header_def der_length_def)
  from peek_drop [OF this] have "peek der (at + 1) = Inr (length c)" using True by simp
  moreover have "length c AND 0x80 = 0"
  proof -
    have "take_bit 7 (length c) = length c" using True by (simp add: take_bit_nat_eq_self)
    then have "length c AND 0x80 = (length c AND mask 7) AND 0x80" by (simp add: take_bit_eq_mask)
    also have "\<dots> = length c AND (mask 7 AND 0x80)" by (simp only: and.assoc)
    also have "mask 7 AND 0x80 = (0 :: nat)" by (simp add: mask_eq_exp_minus_1)
    finally show ?thesis by simp
  qed
  moreover have "length (tlv_header tag (length c)) = 2" using True by (simp add: tlv_header_def der_length_def)
  moreover have "2 + length c \<le> left" using left True by (simp add: tlv_bytes_def tlv_header_def der_length_def)
  ultimately show ?thesis by (simp add: read_tlv_def)
next
  case False
  define bs where "bs = be_bytes (length c)"
  have k: "0 < length bs" "length bs \<le> 4"
    using length_be_bytes [of 4 "length c"] n by (simp_all add: bs_def)
  have h: "tlv_header tag (length c) = [chr_of tag, chr_of (128 + length bs)] @ bs"
    using False by (simp add: tlv_header_def der_length_def bs_def)
  have d1: "drop at der = [chr_of tag] @ chr_of (128 + length bs) # bs @ c @ post"
    using d h by (simp add: tlv_bytes_def)
  from peek_drop [OF this] have p: "peek der (at + 1) = Inr (128 + length bs)" using k by simp
  have "drop (at + 2) der = drop 2 (drop at der)" by simp
  also have "\<dots> = bs @ c @ post" by (simp add: d1)
  finally have "long_length der (at + 2) (length bs) 0 = Inr (length c)"
    using long_length_drop foldl_be_bytes [of 0 "length c"] by (simp add: bs_def)
  moreover have "(128 + length bs) AND 0x80 \<noteq> 0" "(128 + length bs) AND 0x7F = length bs"
  proof -
    have "length bs = 1 \<or> length bs = 2 \<or> length bs = 3 \<or> length bs = 4" using k by linarith
    then show "(128 + length bs) AND 0x80 \<noteq> 0" "(128 + length bs) AND 0x7F = length bs" by (elim disjE; simp)+
  qed
  moreover have "2 + length bs + length c \<le> left" using left h by (simp add: tlv_bytes_def)
  ultimately show ?thesis using p k h by (simp add: read_tlv_def)
qed

text \<open>Where a value that stands at \<open>at\<close> ends, and what stands there.\<close>

lemma drop_add: "drop at der = a @ b \<Longrightarrow> drop (at + length a) der = b"
  by (metis add.commute append_eq_conv_conj drop_drop)

definition tlv_at :: "nat \<Rightarrow> nat \<Rightarrow> string \<Rightarrow> tlv" where
  "tlv_at at tag c = \<lparr>tlv_content = at + length (tlv_header tag (length c)), tlv_size = length c\<rparr>"

lemma tlv_at_simps [simp]:
  "tlv_size (tlv_at at tag c) = length c"
  "tlv_end (tlv_at at tag c) = at + length (tlv_bytes tag c)"
  by (simp_all add: tlv_at_def tlv_end_def tlv_bytes_def)

lemma tlv_drops:
  assumes "drop at der = tlv_bytes tag c @ post"
  shows "drop (tlv_content (tlv_at at tag c)) der = c @ post"
    and "drop (at + length (tlv_bytes tag c)) der = post"
    and "peek der at = Inr (tag mod 256)"
    and "tlv_content (tlv_at at tag c) + length c \<le> length der"
proof -
  have d: "drop at der = tlv_header tag (length c) @ c @ post" using assms by (simp add: tlv_bytes_def)
  from drop_add [OF this] show c: "drop (tlv_content (tlv_at at tag c)) der = c @ post" by (simp add: tlv_at_def)
  show "drop (at + length (tlv_bytes tag c)) der = post" using drop_add assms by blast
  show "peek der at = Inr (tag mod 256)"
    using peek_drop [of at der "[]" "chr_of tag"] d by (simp add: tlv_header_def)
  have "length (drop at der) = length (tlv_header tag (length c)) + length c + length post" by (simp add: d)
  moreover have "0 < length (tlv_header tag (length c))" by (simp add: tlv_header_def)
  ultimately show "tlv_content (tlv_at at tag c) + length c \<le> length der"
    by (simp add: tlv_at_def del: length_greater_0_conv)
qed

lemma tlv_bytes_not_Nil [simp]: "tlv_bytes t c \<noteq> []"
  by (simp add: tlv_bytes_def tlv_header_def)

lemma tlv_bytes_size: "length c < length (tlv_bytes tag c)"
  by (simp add: tlv_bytes_def tlv_header_def)

lemma read_tlv_at:
  assumes "drop at der = tlv_bytes tag c @ post" and "length (tlv_bytes tag c) \<le> left" and "length c < 2 ^ 32"
  shows "read_tlv der at left = Inr (Some (tlv_at at tag c))"
  using read_tlv_encoded [OF assms] by (simp add: tlv_at_def)

lemma length_member_concat: "x \<in> set xs \<Longrightarrow> length (f x) \<le> length (concat (map f xs))"
  by (induction xs) auto

section \<open>Encoded names\<close>

datatype general_name = Dns_Name string | Ip_Address string | Other_Name nat string

fun name_tag :: "general_name \<Rightarrow> nat" where
  "name_tag (Dns_Name s) = 0x82"
| "name_tag (Ip_Address b) = 0x87"
| "name_tag (Other_Name t b) = t"

fun name_content :: "general_name \<Rightarrow> string" where
  "name_content (Dns_Name s) = s"
| "name_content (Ip_Address b) = b"
| "name_content (Other_Name t b) = b"

fun name_ok :: "general_name \<Rightarrow> bool" where
  "name_ok (Other_Name t b) = (t < 256 \<and> t \<noteq> 0x82 \<and> t \<noteq> 0x87)"
| "name_ok _ = True"

definition ip_value :: "ip_api \<Rightarrow> string \<Rightarrow> string" where
  "ip_value api b =
     (if length b = 4 then (case ntop4 api b of Some t \<Rightarrow> c_str t | None \<Rightarrow> [])
      else if length b = 16 then (case ntop6 api b of Some t \<Rightarrow> c_str t | None \<Rightarrow> [])
      else [])"

fun dns_of :: "general_name list \<Rightarrow> wstring list" where
  "dns_of [] = []"
| "dns_of (Dns_Name s # gs) = widen s # dns_of gs"
| "dns_of (_ # gs) = dns_of gs"

fun ips_of :: "ip_api \<Rightarrow> general_name list \<Rightarrow> string list" where
  "ips_of api [] = []"
| "ips_of api (Ip_Address b # gs) = ip_value api b # ips_of api gs"
| "ips_of api (_ # gs) = ips_of api gs"

definition name_bytes :: "general_name \<Rightarrow> string" where
  "name_bytes g = tlv_bytes (name_tag g) (name_content g)"

definition names_bytes :: "general_name list \<Rightarrow> string" where
  "names_bytes gs = tlv_bytes 0x30 (concat (map name_bytes gs))"

definition with_names :: "ip_api \<Rightarrow> general_name list \<Rightarrow> names \<Rightarrow> names" where
  "with_names api gs ns = ns\<lparr>dns_names := dns_names ns @ dns_of gs, ip_names := ip_names ns @ ips_of api gs\<rparr>"

lemma add_name_encoded:
  assumes "drop at der = name_bytes g @ post" and "name_ok g" and "length (name_content g) < 2 ^ 32"
  shows "add_name api der (name_tag g mod 256) (tlv_at at (name_tag g) (name_content g)) ns =
    Inr (with_names api [g] ns)"
proof -
  note d = tlv_drops [OF assms(1) [unfolded name_bytes_def]]
  have "bytes_at der (tlv_content (tlv_at at (name_tag g) (name_content g))) (length (name_content g)) =
      Inr (name_content g)"
    using d(1,4) by (simp add: bytes_at_def substr_def)
  with assms(2,3) show ?thesis
    by (cases g) (auto simp: add_name_def from_ascii_def ip_text_def ip_value_def with_names_def)
qed

lemma with_names_step: "with_names api gs (with_names api [g] ns) = with_names api (g # gs) ns"
  by (cases g) (simp_all add: with_names_def)

lemma general_names_encoded:
  "drop at der = concat (map name_bytes gs) @ post \<Longrightarrow> \<forall>g \<in> set gs. name_ok g
   \<Longrightarrow> length (concat (map name_bytes gs)) < 2 ^ 32
   \<Longrightarrow> general_names_loop api der at (length (concat (map name_bytes gs))) ns = Inr (with_names api gs ns)"
proof (induction gs arbitrary: at ns)
  case Nil
  then show ?case by (subst general_names_loop.simps) (simp add: with_names_def)
next
  case (Cons g gs)
  let ?b = "name_bytes g" let ?rest = "concat (map name_bytes gs)"
  have d: "drop at der = ?b @ ?rest @ post" using Cons.prems(1) by simp
  have n: "length (name_content g) < 2 ^ 32"
    using tlv_bytes_size [of "name_content g" "name_tag g"] Cons.prems(3) by (simp add: name_bytes_def)
  have r: "read_tlv der at (length (concat (map name_bytes (g # gs)))) =
      Inr (Some (tlv_at at (name_tag g) (name_content g)))"
    using read_tlv_at [OF d [unfolded name_bytes_def] _ n] by (simp add: name_bytes_def)
  have e: "tlv_end (tlv_at at (name_tag g) (name_content g)) = at + length ?b" by (simp add: name_bytes_def)
  have pos: "0 < length ?b"
    using tlv_bytes_size [of "name_content g" "name_tag g"] unfolding name_bytes_def by linarith
  have a: "add_name api der (name_tag g mod 256) (tlv_at at (name_tag g) (name_content g)) ns =
      Inr (with_names api [g] ns)"
    using Cons.prems(2) by (intro add_name_encoded [OF d _ n]) simp
  have "general_names_loop api der (at + length ?b) (length ?rest) (with_names api [g] ns) =
      Inr (with_names api gs (with_names api [g] ns))"
    using Cons.prems by (intro Cons.IH) (simp_all add: drop_add [OF d])
  then show ?case
    using r e pos a tlv_drops(3) [OF d [unfolded name_bytes_def]]
    by (subst general_names_loop.simps) (simp add: with_names_step)
qed

lemma read_general_names_encoded:
  assumes d: "drop at der = names_bytes gs @ post" and left: "length (names_bytes gs) \<le> left"
    and ok: "\<forall>g \<in> set gs. name_ok g" and n: "length (names_bytes gs) < 2 ^ 32"
  shows "read_general_names api der at left ns = Inr (with_names api gs ns)"
proof -
  let ?c = "concat (map name_bytes gs)"
  have c: "length ?c < 2 ^ 32" using n tlv_bytes_size [of ?c 48] by (simp add: names_bytes_def)
  note t = d [unfolded names_bytes_def]
  from read_tlv_at [OF t _ c, of left] left
  have "read_tlv der at left = Inr (Some (tlv_at at 48 ?c))" by (simp add: names_bytes_def)
  moreover have "general_names_loop api der (tlv_content (tlv_at at 48 ?c)) (length ?c) ns = Inr (with_names api gs ns)"
    by (rule general_names_encoded [OF tlv_drops(1) [OF t] ok c])
  ultimately show ?thesis using tlv_drops(3) [OF t] by (simp add: read_general_names_def)
qed

text \<open>
  An extension is its identifier and what follows it; a subject alternative name extension that is
  not critical has the names in its octet string.
\<close>

definition ext_bytes :: "string \<Rightarrow> string \<Rightarrow> string" where
  "ext_bytes oid v = tlv_bytes 0x30 (tlv_bytes 0x06 oid @ v)"

definition san_oid_bytes :: string where
  "san_oid_bytes = map chr_of san_oid"

definition san_bytes :: "string \<Rightarrow> general_name list \<Rightarrow> string" where
  "san_bytes critical gs = ext_bytes san_oid_bytes (critical @ tlv_bytes 0x04 (names_bytes gs))"

lemma is_oid_drop:
  "drop at der = c @ post \<Longrightarrow> i \<le> length c \<Longrightarrow>
   is_oid der at (length c) i (map byte p) = Inr (prefix p (drop i c))"
proof (induction p arbitrary: i)
  case (Cons b p)
  show ?case
  proof (cases "i < length c")
    case True
    have "drop at der = take i c @ c ! i # (drop (Suc i) c @ post)"
      using Cons.prems(1) True by (simp add: id_take_nth_drop [symmetric] Cons_nth_drop_Suc append_take_drop_id)
    from peek_drop [OF this] have "peek der (at + i) = Inr (byte (c ! i))" using True by simp
    with True Cons show ?thesis by (auto simp: Cons_nth_drop_Suc [symmetric])
  qed (use Cons in simp)
qed simp

lemma san_oid_map: "san_oid = map byte san_oid_bytes"
  by (simp add: san_oid_bytes_def san_oid_def)

lemma read_san_octets_encoded:
  assumes d: "drop at der = tlv_bytes 0x04 (names_bytes gs) @ post"
    and stop: "stop = at + length (tlv_bytes 0x04 (names_bytes gs))"
    and ok: "\<forall>g \<in> set gs. name_ok g" and n: "length (names_bytes gs) < 2 ^ 32"
  shows "\<exists>t. read_san_octets api der at stop ns = Inr (True, noted t (with_names api gs ns))"
proof -
  have "read_tlv der at (stop - at) = Inr (Some (tlv_at at 4 (names_bytes gs)))"
    by (rule read_tlv_at [OF d _ n]) (simp add: stop)
  moreover have "read_general_names api der (tlv_content (tlv_at at 4 (names_bytes gs)))
      (length (names_bytes gs)) ns = Inr (with_names api gs ns)"
    by (rule read_general_names_encoded [OF tlv_drops(1) [OF d] _ ok n]) simp
  ultimately show ?thesis using tlv_drops(3) [OF d] by (auto simp: read_san_octets_def)
qed

lemma names_bytes_first: "\<exists>r. names_bytes gs = chr_of 0x30 # r"
  by (simp add: names_bytes_def tlv_bytes_def tlv_header_def)

lemma read_san_value_encoded:
  assumes d: "drop at der = tlv_bytes 0x04 (names_bytes gs) @ post"
    and stop: "stop = at + length (tlv_bytes 0x04 (names_bytes gs))"
    and ok: "\<forall>g \<in> set gs. name_ok g" and n: "length (names_bytes gs) < 2 ^ 32"
  shows "\<exists>t. read_san_value api der at stop ns = Inr (True, noted t (with_names api gs ns))"
proof -
  have r: "read_tlv der at (stop - at) = Inr (Some (tlv_at at 4 (names_bytes gs)))"
    by (rule read_tlv_at [OF d _ n]) (simp add: stop)
  obtain r where "names_bytes gs = chr_of 0x30 # r" using names_bytes_first by blast
  then have "peek der (tlv_content (tlv_at at 4 (names_bytes gs))) = Inr 0x30"
    using peek_drop [of _ der "[]"] tlv_drops(1) [OF d] by simp
  with r read_san_octets_encoded [OF assms] show ?thesis by (simp add: read_san_value_def)
qed

lemma ext_step:
  assumes d: "drop at der = ext_bytes oid v @ post" and left: "left = length (ext_bytes oid v) + m"
    and n: "length (ext_bytes oid v) < 2 ^ 32"
  shows "\<exists>t. read_san_extension api der at left i ns =
      (if prefix san_oid_bytes oid
       then read_san_value api der (tlv_end (tlv_at (tlv_content (tlv_at at 0x30 (tlv_bytes 0x06 oid @ v))) 0x06 oid))
              (at + length (ext_bytes oid v)) (noted t ns)
       else read_san_extension api der (at + length (ext_bytes oid v)) m (i + 1) (noted t ns))"
proof -
  let ?c = "tlv_bytes 0x06 oid @ v" let ?e = "tlv_at at 0x30 ?c"
  let ?o = "tlv_at (tlv_content ?e) 0x06 oid"
  note t = d [unfolded ext_bytes_def]
  have c: "length ?c < 2 ^ 32" using n tlv_bytes_size [of ?c 48] by (simp add: ext_bytes_def)
  have o: "length oid < 2 ^ 32" using c tlv_bytes_size [of oid 6] by simp
  have pos: "0 < length (ext_bytes oid v)" using tlv_bytes_size [of ?c 48] unfolding ext_bytes_def by linarith
  have r: "read_tlv der at left = Inr (Some ?e)"
    by (rule read_tlv_at [OF t _ c]) (simp add: left ext_bytes_def)
  have d2: "drop (tlv_content ?e) der = tlv_bytes 0x06 oid @ (v @ post)"
    using tlv_drops(1) [OF t] by simp
  have r2: "read_tlv der (tlv_content ?e) (tlv_size ?e) = Inr (Some ?o)"
    by (rule read_tlv_at [OF d2 _ o]) simp
  have hit: "is_oid der (tlv_content ?o) (tlv_size ?o) 0 san_oid = Inr (prefix san_oid_bytes oid)"
    using is_oid_drop [OF tlv_drops(1) [OF d2], of 0 san_oid_bytes] by (simp add: san_oid_map)
  have e: "tlv_end ?e = at + length (ext_bytes oid v)" by (simp add: ext_bytes_def)
  have l: "left \<noteq> 0" "left - (at + length (ext_bytes oid v) - at) = m" using left pos by simp_all
  show ?thesis
    using r r2 hit e l pos left tlv_drops(3) [OF t]
    by (intro exI [of _ "'' x'' @ nat_str i @ ''/'' @ nat_str (48 mod 256) @ ''/'' @ nat_str (tlv_size ?o)"])
      (subst read_san_extension.simps, simp)
qed

lemma noted_simps [simp]:
  "dns_names (noted t ns) = dns_names ns" "ip_names (noted t ns) = ip_names ns"
  by (simp_all add: noted_def)

definition ext_list :: "(string \<times> string) list \<Rightarrow> string" where
  "ext_list exts = concat (map (\<lambda>(oid, v). ext_bytes oid v) exts)"

lemma skip_exts:
  "drop at der = ext_list exts @ post \<Longrightarrow> \<forall>(oid, v) \<in> set exts. \<not> prefix san_oid_bytes oid
   \<Longrightarrow> length (ext_list exts) < 2 ^ 32
   \<Longrightarrow> \<exists>t i'. read_san_extension api der at (length (ext_list exts) + m) i ns =
         read_san_extension api der (at + length (ext_list exts)) m i' (noted t ns)"
proof (induction exts arbitrary: at i ns)
  case Nil
  have "noted [] ns = ns" by (simp add: noted_def)
  then show ?case by (intro exI [of _ "[]"] exI [of _ i]) (simp add: ext_list_def)
next
  case (Cons x exts)
  obtain oid v where x: "x = (oid, v)" by force
  have d: "drop at der = ext_bytes oid v @ (ext_list exts @ post)"
    using Cons.prems(1) by (simp add: x ext_list_def)
  have n: "length (ext_bytes oid v) < 2 ^ 32" "length (ext_list exts) < 2 ^ 32"
    and l: "length (ext_list (x # exts)) + m = length (ext_bytes oid v) + (length (ext_list exts) + m)"
    using Cons.prems(3) by (simp_all add: x ext_list_def)
  have "\<not> prefix san_oid_bytes oid" using Cons.prems(2) by (simp add: x)
  with ext_step [OF d l n(1), of api i ns] obtain t where t:
    "read_san_extension api der at (length (ext_list (x # exts)) + m) i ns =
       read_san_extension api der (at + length (ext_bytes oid v)) (length (ext_list exts) + m) (i + 1) (noted t ns)"
    by auto
  have "noted t' (noted t ns) = noted (t @ t') ns" for t' by (simp add: noted_def)
  with Cons.IH [OF drop_add [OF d] _ n(2), of "i + 1" "noted t ns"] t Cons.prems(2) show ?case
    by (auto simp: x ext_list_def add.assoc)
qed

text \<open>Where the value of the extension starts, behind its identifier.\<close>

lemma ext_value_at:
  assumes "drop at der = ext_bytes oid v @ post"
  defines "next \<equiv> tlv_end (tlv_at (tlv_content (tlv_at at 0x30 (tlv_bytes 0x06 oid @ v))) 0x06 oid)"
  shows "drop next der = v @ post" and "at + length (ext_bytes oid v) = next + length v"
proof -
  have "drop (tlv_content (tlv_at at 0x30 (tlv_bytes 0x06 oid @ v))) der = tlv_bytes 0x06 oid @ (v @ post)"
    using tlv_drops(1) [OF assms(1) [unfolded ext_bytes_def]] by simp
  from tlv_drops(2) [OF this] show "drop next der = v @ post" by (simp add: next_def)
  show "at + length (ext_bytes oid v) = next + length v"
    by (simp add: next_def tlv_at_def ext_bytes_def tlv_bytes_def tlv_end_def)
qed

text \<open>Up to the alternative name extension the walk skips, then it reads that extension's value.\<close>

lemma read_san_extension_reaches:
  assumes d: "drop at der = ext_list exts @ ext_bytes san_oid_bytes v @ post"
    and other: "\<forall>(oid, v) \<in> set exts. \<not> prefix san_oid_bytes oid"
    and n: "length (ext_list exts @ ext_bytes san_oid_bytes v) < 2 ^ 32"
  shows "\<exists>t at'. drop at' der = v @ post
    \<and> read_san_extension api der at (length (ext_list exts @ ext_bytes san_oid_bytes v @ others)) i ns =
        read_san_value api der at' (at' + length v) (noted t ns)"
proof -
  let ?e = "ext_bytes san_oid_bytes v"
  have l: "length (ext_list exts @ ?e @ others) = length (ext_list exts) + length (?e @ others)" by simp
  have d2: "drop (at + length (ext_list exts)) der = ?e @ post" by (rule drop_add [OF d])
  obtain t i' where t: "read_san_extension api der at (length (ext_list exts @ ?e @ others)) i ns =
      read_san_extension api der (at + length (ext_list exts)) (length (?e @ others)) i' (noted t ns)"
    using skip_exts [OF d other, of api "length (?e @ others)" i ns] n unfolding l by auto
  have ne: "length ?e < 2 ^ 32" using n by simp
  have nn: "noted t' (noted t ns) = noted (t @ t') ns" for t' by (simp add: noted_def)
  have l2: "length (?e @ others) = length ?e + length others" by simp
  with nn ext_step [OF d2 l2 ne, of api i' "noted t ns"] ext_value_at [OF d2] t
  show ?thesis by auto
qed

section \<open>Encoded certificates and their names\<close>

definition field_list :: "(nat \<times> string) list \<Rightarrow> string" where
  "field_list fs = concat (map (\<lambda>(t, c). tlv_bytes t c) fs)"

definition certificate :: "(nat \<times> string) list \<Rightarrow> string \<Rightarrow> string \<Rightarrow> string \<Rightarrow> string" where
  "certificate fs exts after signature =
     tlv_bytes 0x30 (tlv_bytes 0x30 (field_list fs @ tlv_bytes 0xA3 (tlv_bytes 0x30 exts) @ after) @ signature)"

definition context_of :: "string \<Rightarrow> cert_context" where
  "context_of der = \<lparr>cert_encoded = Some der, cert_length = length der\<rparr>"

lemma read_fields_encoded:
  "drop at der = field_list fs @ tlv_bytes 0xA3 (tlv_bytes 0x30 exts) @ post
   \<Longrightarrow> \<forall>(t, c) \<in> set fs. t < 256 \<and> t \<noteq> 0xA3
   \<Longrightarrow> length (field_list fs @ tlv_bytes 0xA3 (tlv_bytes 0x30 exts)) < 2 ^ 32
   \<Longrightarrow> left = length (field_list fs @ tlv_bytes 0xA3 (tlv_bytes 0x30 exts)) + m
   \<Longrightarrow> \<exists>t at' post'. drop at' der = exts @ post'
     \<and> read_fields api der at left i ns = read_san_extension api der at' (length exts) 0 (noted t ns)"
proof (induction fs arbitrary: at left i ns)
  case Nil
  let ?x = "tlv_bytes 0x30 exts"
  have d: "drop at der = tlv_bytes 0xA3 ?x @ post" using Nil.prems(1) by (simp add: field_list_def)
  have n: "length ?x < 2 ^ 32" "length exts < 2 ^ 32" "length (tlv_bytes 0xA3 ?x) \<le> left" "left \<noteq> 0"
    using Nil.prems(3,4) tlv_bytes_size [of ?x 163] tlv_bytes_size [of exts 48] by (simp_all add: field_list_def)
  note r = read_tlv_at [OF d n(3,1)] and dd = tlv_drops [OF d]
  have r2: "read_tlv der (tlv_content (tlv_at at 0xA3 ?x)) (length ?x) =
      Inr (Some (tlv_at (tlv_content (tlv_at at 0xA3 ?x)) 0x30 exts))"
    by (rule read_tlv_at [OF dd(1) _ n(2)]) simp
  have "noted t' (noted t ns) = noted (t @ t') ns" for t t' by (simp add: noted_def)
  moreover have "0 < length (tlv_bytes 0xA3 ?x)" using tlv_bytes_size [of ?x 163] by linarith
  ultimately show ?case
    using r r2 n dd(3) tlv_drops(1) [OF dd(1)] by (subst read_fields.simps) (auto simp: Let_def)
next
  case (Cons f fs)
  obtain t c where f: "f = (t, c)" by force
  let ?rest = "field_list fs @ tlv_bytes 0xA3 (tlv_bytes 0x30 exts)"
  have d: "drop at der = tlv_bytes t c @ (field_list fs @ tlv_bytes 0xA3 (tlv_bytes 0x30 exts) @ post)"
    using Cons.prems(1) by (simp add: f field_list_def)
  have l: "left = length (tlv_bytes t c) + (length ?rest + m)" "length ?rest < 2 ^ 32" "length c < 2 ^ 32"
    using Cons.prems(3,4) tlv_bytes_size [of c t] by (simp_all add: f field_list_def)
  have t: "t < 256" "t \<noteq> 0xA3" using Cons.prems(2) by (auto simp: f)
  have r: "read_tlv der at left = Inr (Some (tlv_at at t c))" by (rule read_tlv_at [OF d _ l(3)]) (simp add: l)
  have pos: "0 < length (tlv_bytes t c)" using tlv_bytes_size [of c t] by linarith
  have step: "\<exists>u. read_fields api der at left i ns =
      read_fields api der (at + length (tlv_bytes t c)) (length ?rest + m) (i + 1) (noted u ns)"
    using r t pos l(1) tlv_drops(3) [OF d] by (subst read_fields.simps) (auto simp: Let_def)
  then obtain u where u: "read_fields api der at left i ns =
      read_fields api der (at + length (tlv_bytes t c)) (length ?rest + m) (i + 1) (noted u ns)" ..
  have "noted t' (noted u ns) = noted (u @ t') ns" for t' by (simp add: noted_def)
  with Cons.IH [OF drop_add [OF d] _ l(2) refl, of "i + 1" "noted u ns"] u Cons.prems(2) show ?case by auto
qed

lemma read_alt_names_encoded:
  assumes fs: "\<forall>(t, c) \<in> set fs. t < 256 \<and> t \<noteq> 0xA3"
    and n: "length (certificate fs exts after signature) < 2 ^ 32"
  defines "der \<equiv> certificate fs exts after signature"
  shows "\<exists>t at post. drop at der = exts @ post
    \<and> read_alt_names api (Some (context_of der)) = read_san_extension api der at (length exts) 0 (noted t no_names)"
proof -
  let ?f = "field_list fs @ tlv_bytes 0xA3 (tlv_bytes 0x30 exts)"
  let ?t = "?f @ after" let ?o = "tlv_bytes 0x30 ?t @ signature"
  have d: "drop 0 der = tlv_bytes 0x30 ?o @ []" by (simp add: der_def certificate_def)
  have l: "length ?o < 2 ^ 32" "length ?t < 2 ^ 32"
    using n tlv_bytes_size [of ?o 48] tlv_bytes_size [of ?t 48] by (simp_all add: certificate_def)
  have r: "read_tlv der 0 (length der) = Inr (Some (tlv_at 0 0x30 ?o))"
    by (rule read_tlv_at [OF d _ l(1)]) (simp add: der_def certificate_def)
  have d2: "drop (tlv_content (tlv_at 0 0x30 ?o)) der = tlv_bytes 0x30 ?t @ signature"
    using tlv_drops(1) [OF d] by simp
  let ?tbs = "tlv_at (tlv_content (tlv_at 0 0x30 ?o)) 0x30 ?t"
  have r2: "read_tlv der (tlv_content (tlv_at 0 0x30 ?o)) (length ?o) = Inr (Some ?tbs)"
    by (rule read_tlv_at [OF d2 _ l(2)]) simp
  have d3: "drop (tlv_content ?tbs) der =
      field_list fs @ tlv_bytes 0xA3 (tlv_bytes 0x30 exts) @ (after @ signature)"
    using tlv_drops(1) [OF d2] by simp
  have lt: "length ?t = length ?f + length after" "length ?f < 2 ^ 32" using l(2) by simp_all
  define u where "u = ''outer '' @ nat_str (length ?o) @ '' tbs '' @ nat_str (length ?t)"
  have "read_alt_names api (Some (context_of der)) =
      read_fields api der (tlv_content ?tbs) (length ?t) 0 (noted u no_names)"
    using r r2 by (simp add: read_alt_names_def context_of_def u_def)
  moreover have "noted t' (noted u ns) = noted (u @ t') ns" for t' ns by (simp add: noted_def)
  ultimately show ?thesis
    using read_fields_encoded [OF d3 fs lt(2,1), of api 0 "noted u no_names"] by auto
qed

section \<open>Properties\<close>

lemma alt_names_reach:
  assumes fs: "\<forall>(t, c) \<in> set fs. t < 256 \<and> t \<noteq> 0xA3"
    and other: "\<forall>(oid, v) \<in> set exts. \<not> prefix san_oid_bytes oid"
    and n: "length (certificate fs (ext_list exts @ ext_bytes san_oid_bytes v @ others) after signature) < 2 ^ 32"
  defines "der \<equiv> certificate fs (ext_list exts @ ext_bytes san_oid_bytes v @ others) after signature"
  shows "\<exists>t at post. drop at der = v @ post \<and> length v < 2 ^ 32
    \<and> read_alt_names api (Some (context_of der)) = read_san_value api der at (at + length v) (noted t no_names)"
proof -
  let ?exts = "ext_list exts @ ext_bytes san_oid_bytes v @ others"
  obtain t at post where at: "drop at der = ?exts @ post"
      "read_alt_names api (Some (context_of der)) = read_san_extension api der at (length ?exts) 0 (noted t no_names)"
    using read_alt_names_encoded [OF fs n, of api] by (auto simp: der_def)
  have "length ?exts < length der"
    unfolding der_def certificate_def by (simp add: tlv_bytes_def tlv_header_def)
  then have "length ?exts < 2 ^ 32" using n by (simp add: der_def)
  then have le: "length (ext_list exts @ ext_bytes san_oid_bytes v) < 2 ^ 32" by simp
  have "length v \<le> length (ext_bytes san_oid_bytes v)" by (simp add: ext_bytes_def tlv_bytes_def [of 48])
  then have lv: "length v < 2 ^ 32" using le by simp
  have d: "drop at der = ext_list exts @ ext_bytes san_oid_bytes v @ (others @ post)" using at(1) by simp
  have "noted t' (noted t ns) = noted (t @ t') ns" for t' ns by (simp add: noted_def)
  with read_san_extension_reaches [OF d other le, of api others 0 "noted t no_names"] at(2) lv show ?thesis
    by auto
qed

lemma alt_names_read:
  assumes fs: "\<forall>(t, c) \<in> set fs. t < 256 \<and> t \<noteq> 0xA3"
    and other: "\<forall>(oid, v) \<in> set exts. \<not> prefix san_oid_bytes oid"
    and gs: "\<forall>g \<in> set gs. name_ok g"
    and n: "length (certificate fs (ext_list exts @ san_bytes [] gs @ others) after signature) < 2 ^ 32"
  shows "\<exists>ns. read_alt_names api (Some (context_of
        (certificate fs (ext_list exts @ san_bytes [] gs @ others) after signature))) = Inr (True, ns)
      \<and> dns_names ns = dns_of gs \<and> ip_names ns = ips_of api gs"
proof -
  let ?v = "tlv_bytes 0x04 (names_bytes gs)"
  have san: "san_bytes [] gs = ext_bytes san_oid_bytes ?v" by (simp add: san_bytes_def)
  define der where "der = certificate fs (ext_list exts @ ext_bytes san_oid_bytes ?v @ others) after signature"
  obtain t at post where r: "drop at der = ?v @ post" "length ?v < 2 ^ 32"
      "read_alt_names api (Some (context_of der)) = read_san_value api der at (at + length ?v) (noted t no_names)"
    using alt_names_reach [OF fs other n [unfolded san], of api] by (auto simp: der_def)
  have ng: "length (names_bytes gs) < 2 ^ 32" using r(2) tlv_bytes_size [of "names_bytes gs" 4] by simp
  obtain u where u: "read_san_value api der at (at + length ?v) (noted t no_names) =
      Inr (True, noted u (with_names api gs (noted t no_names)))"
    using read_san_value_encoded [OF r(1) refl gs ng, of api "noted t no_names"] by blast
  show ?thesis
    unfolding san der_def [symmetric] r(3) u by (simp add: with_names_def no_names_def noted_def)
qed

text \<open>
  A critical alternative name extension is never read: the walk tests the content byte of the
  BOOLEAN instead of its tag, takes the BOOLEAN for the value and gives up, so the certificate counts
  as one without alternative names.
\<close>

theorem critical_names_lost:
  assumes "\<forall>(t, c) \<in> set fs. t < 256 \<and> t \<noteq> 0xA3" and "\<forall>(oid, v) \<in> set exts. \<not> prefix san_oid_bytes oid"
    and "length (certificate fs (ext_list exts @ san_bytes (tlv_bytes 0x01 [chr_of 0xFF]) gs @ others)
           after signature) < 2 ^ 32"
  shows "\<exists>ns. read_alt_names api (Some (context_of
        (certificate fs (ext_list exts @ san_bytes (tlv_bytes 0x01 [chr_of 0xFF]) gs @ others) after signature)))
      = Inr (False, ns) \<and> dns_names ns = [] \<and> ip_names ns = []"
proof -
  let ?b = "tlv_bytes 0x01 [chr_of 0xFF]" let ?v = "?b @ tlv_bytes 0x04 (names_bytes gs)"
  define der where "der = certificate fs (ext_list exts @ ext_bytes san_oid_bytes ?v @ others) after signature"
  have san: "san_bytes ?b gs = ext_bytes san_oid_bytes ?v" by (simp add: san_bytes_def)
  obtain t at post where r: "drop at der = ?v @ post" "length ?v < 2 ^ 32"
      "read_alt_names api (Some (context_of der)) = read_san_value api der at (at + length ?v) (noted t no_names)"
    using alt_names_reach [OF assms(1,2), of ?v others after signature api] assms(3)
    unfolding san der_def by blast
  have d: "drop at der = ?b @ (tlv_bytes 0x04 (names_bytes gs) @ post)" using r(1) by simp
  have tlv: "read_tlv der at (length ?v) = Inr (Some (tlv_at at 1 [chr_of 0xFF]))"
    by (rule read_tlv_at [OF d]) simp_all
  have "drop (tlv_content (tlv_at at 1 [chr_of 0xFF])) der = [] @ chr_of 0xFF # (tlv_bytes 0x04 (names_bytes gs) @ post)"
    using tlv_drops(1) [OF d] by simp
  from peek_drop [OF this] have p: "peek der (tlv_content (tlv_at at 1 [chr_of 0xFF])) = Inr 0xFF" by simp
  have "read_san_value api der at (at + length ?v) (noted t no_names) =
      Inr (False, noted '' san not an octet string'' (noted t no_names))"
    using tlv p tlv_drops(3) [OF d] by (simp add: read_san_value_def read_san_octets_def)
  then show ?thesis unfolding san der_def [symmetric] r(3) by (simp add: noted_def no_names_def)
qed

text \<open>What marks an extension critical in DER: a BOOLEAN between its identifier and its value; else nothing.\<close>

definition san_mark :: "bool \<Rightarrow> string" where
  "san_mark critical = (if critical then tlv_bytes 0x01 [chr_of 0xFF] else [])"


lemma be_bytes_short [simp]: "n < 256 \<Longrightarrow> be_bytes n = [chr_of n]"
  by (simp add: be_bytes.simps)

lemmas encodings = certificate_def ext_list_def san_bytes_def ext_bytes_def san_oid_bytes_def san_oid_def
  names_bytes_def name_bytes_def tlv_bytes_def tlv_header_def der_length_def field_list_def


text \<open>
  The walk reads at most one byte behind the certificate: with one more byte in the buffer it
  never leaves the buffer, whatever the bytes are.
\<close>

theorem alt_names_in_bounds:
  assumes "cert_encoded c = Some der" and "cert_length c < length der"
  shows "\<exists>r. read_alt_names api (Some c) = Inr r"
  using read_alt_names_ok [OF assms] by (simp add: returns_iff)

theorem alt_names_in_bounds_witness:
  "\<exists>r. read_alt_names \<lparr>ntop4 = (\<lambda>b. None), ntop6 = (\<lambda>b. None), pton4 = (\<lambda>t. None), pton6 = (\<lambda>t. None)\<rparr>
     (Some \<lparr>cert_encoded = Some ''00a'', cert_length = 2\<rparr>) = Inr r"
  by (rule alt_names_in_bounds [where der = "''00a''"]) simp_all

text \<open>
  That one byte is really read: the alternative name extension with an empty value that ends a
  certificate sends the walk behind the certificate's last byte.
\<close>

theorem empty_value_overread:
  "read_alt_names api (Some (context_of (map chr_of
     [0x30, 0x0F, 0x30, 0x0D, 0xA3, 0x0B, 0x30, 0x09, 0x30, 0x07, 0x06, 0x03, 0x55, 0x1D, 0x11, 0x04, 0x00])))
   = Inl Undefined"
  by (simp add: read_alt_names_def context_of_def read_tlv_def peek_def read_fields.simps read_san_extension.simps
      read_san_value_def tlv_end_def san_oid_def Let_def)

theorem critical_names_lost_witness:
  "\<exists>ns. read_alt_names \<lparr>ntop4 = (\<lambda>b. None), ntop6 = (\<lambda>b. None), pton4 = (\<lambda>t. None), pton6 = (\<lambda>t. None)\<rparr>
      (Some (context_of (certificate [(2, ''1'')] (ext_list []
         @ san_bytes (tlv_bytes 0x01 [chr_of 0xFF]) [Dns_Name ''a.b''] @ []) [] ''s''))) = Inr (False, ns)
    \<and> dns_names ns = [] \<and> ip_names ns = []"
  by (rule critical_names_lost) (simp_all add: encodings)

end
