(* ===== verification/TlsVerify.thy ===== *)
theory TlsVerify imports Der ProxyUrl begin

text \<open>
  \<open>CertificateVerifier\<close> of \<open>socket/TlsVerify.cpp\<close>: name matching, the decision over the chain the
  Windows engine built, and the roots of a \<open>ca_file\<close>. The Windows services (chain engine, SSL policy,
  certificate files, hashing, the subject's common name) are the fields of \<open>crypto_api\<close>. The lemmas
  show what a passed check establishes and that a first failure is final.
\<close>

section \<open>Names\<close>

text \<open>A wide character cut to a \<open>char\<close> and lowered.\<close>

definition lower_narrow :: "u16 \<Rightarrow> nat" where
  "lower_narrow w = (let b = unat (w AND 0xFF) in if 65 \<le> b \<and> b \<le> 90 then b + (97 - 65) else b)"

definition ascii_equals_insensitive :: "wstring \<Rightarrow> wstring \<Rightarrow> bool" where
  "ascii_equals_insensitive l r \<longleftrightarrow> length l = length r \<and> list_all2 (\<lambda>a b. lower_narrow a = lower_narrow b) l r"

definition matches_wildcard :: "wstring \<Rightarrow> wstring \<Rightarrow> bool" where
  "matches_wildcard host pattern =
     (if length pattern < 3 \<or> pattern ! 0 \<noteq> 42 \<or> pattern ! 1 \<noteq> 46 then False
      else let suffix = drop 1 pattern in
        if length host \<le> length suffix then False
        else if 46 \<notin> set host then False
        else if \<not> ascii_equals_insensitive (drop (length host - length suffix) host) suffix then False
        else let label = take (length host - length suffix) host in
          if label = [] \<or> 42 \<in> set label then False else 46 \<notin> set label)"

definition canonical_ip :: "text_api \<Rightarrow> ip_api \<Rightarrow> wstring \<Rightarrow> string" where
  "canonical_ip texts api host =
     (let narrow = utf8 texts host in
      if narrow = [] then []
      else case pton4 api (c_str narrow) of
          Some v4 \<Rightarrow> (case ntop4 api v4 of Some t \<Rightarrow> c_str t | None \<Rightarrow> [])
        | None \<Rightarrow>
            (case pton6 api (c_str narrow) of
               Some v6 \<Rightarrow> (case ntop6 api v6 of Some t \<Rightarrow> c_str t | None \<Rightarrow> [])
             | None \<Rightarrow> []))"

definition is_ip_literal :: "text_api \<Rightarrow> ip_api \<Rightarrow> wstring \<Rightarrow> bool" where
  "is_ip_literal texts api host \<longleftrightarrow> canonical_ip texts api host \<noteq> []"

section \<open>Services of Windows\<close>

text \<open>
  A built chain: its trust status and, for every simple chain, its elements' certificates (a null
  pointer is \<open>None\<close>). Building answers an error code or a chain; the policy answers nothing when it
  cannot be evaluated, and an error code (0 for none) otherwise.
\<close>

record chain_context =
  trust_status :: u32
  simple_chains :: "cert_context option list option list"

record crypto_api =
  crypto_texts :: text_api
  crypto_ips :: ip_api
  sha256 :: "string \<Rightarrow> string option"
  open_memory_store :: bool
  file_certificates :: "wstring \<Rightarrow> cert_context list option"
  build_chain :: "cert_context \<Rightarrow> cert_context list option \<Rightarrow> bool \<Rightarrow> nat + chain_context"
  ssl_policy :: "chain_context \<Rightarrow> wstring option \<Rightarrow> u32 option"
  simple_name :: "cert_context \<Rightarrow> wstring option"

definition certificate_hash :: "crypto_api \<Rightarrow> cert_context option \<Rightarrow> string" where
  "certificate_hash api c =
     (case c of
        None \<Rightarrow> []
      | Some c \<Rightarrow>
          (case cert_encoded c of
             None \<Rightarrow> []
           | Some der \<Rightarrow>
               if cert_length c = 0 then []
               else case sha256 api (take (cert_length c) der) of
                   None \<Rightarrow> []
                 | Some digest \<Rightarrow>
                     concat (map (\<lambda>b. [digit_chr (byte b div 16), digit_chr (byte b mod 16)]) digest)))"

definition chain_status_names :: "(u32 \<times> string) list" where
  "chain_status_names =
     [(0x1, ''expired or not yet valid''), (0x4, ''revoked''), (0x8, ''bad signature''),
      (0x10, ''not valid for this use''), (0x20, ''untrusted root''), (0x40, ''revocation status unknown''),
      (0x80, ''certificate chain is cyclic''), (0x100, ''invalid certificate extension''),
      (0x400, ''invalid basic constraints''), (0x1000000, ''revocation information unavailable''),
      (0x10000, ''incomplete chain''), (0x200, ''invalid policy constraints'')]"

fun join_names :: "u32 \<Rightarrow> (u32 \<times> string) list \<Rightarrow> string \<Rightarrow> string" where
  "join_names status [] t = t"
| "join_names status ((b, name) # es) t =
     join_names status es
       (if status AND b = 0 then t else (if t = [] then name else t @ '', '' @ name))"

definition chain_status_text :: "u32 \<Rightarrow> string" where
  "chain_status_text status =
     (let t = join_names status chain_status_names [] in
      (if t = [] then ''certificate chain error'' else t) @ '' (status 0x'' @ hex8 (unat status) @ '')'')"

section \<open>The verifier\<close>

record verifier =
  ver_host :: wstring
  ver_ca_file :: string
  ver_verify :: bool
  ver_check_revocation :: bool
  ver_exclusive :: bool
  ver_checked :: bool
  ver_failed :: bool
  ver_code :: string
  ver_detail :: string
  ver_roots :: "cert_context list option"
  ver_root_hashes :: "string list"

definition fail :: "string \<Rightarrow> string \<Rightarrow> verifier \<Rightarrow> verifier" where
  "fail code text v =
     (if ver_failed v then v else v\<lparr>ver_failed := True, ver_code := code, ver_detail := text\<rparr>)"

definition message :: "crypto_api \<Rightarrow> verifier \<Rightarrow> string" where
  "message api v =
     ''['' @ (if ver_code v = [] then ''tls_verify_failed'' else ver_code v) @ ''] ''
     @ utf8 (crypto_texts api) (ver_host v) @ (if ver_detail v = [] then [] else '': '' @ ver_detail v)"

definition passed :: "verifier \<Rightarrow> bool" where
  "passed v \<longleftrightarrow> ver_checked v \<and> \<not> ver_failed v"

definition sni_name :: "wstring \<Rightarrow> wstring \<Rightarrow> wstring" where
  "sni_name host sni = (if sni = [] then host else sni)"

fun add_roots :: "crypto_api \<Rightarrow> cert_context list \<Rightarrow> verifier \<Rightarrow> verifier" where
  "add_roots api [] v = v"
| "add_roots api (c # cs) v =
     (let v1 = v\<lparr>ver_roots := map_option (\<lambda>r. r @ [c]) (ver_roots v)\<rparr>;
          hash = certificate_hash api (Some c)
      in add_roots api cs (if hash = [] then v1 else v1\<lparr>ver_root_hashes := ver_root_hashes v1 @ [hash]\<rparr>))"

definition load_roots :: "crypto_api \<Rightarrow> string \<Rightarrow> verifier \<Rightarrow> verifier" where
  "load_roots api path v =
     (let v1 = v\<lparr>ver_exclusive := True, ver_roots := (if open_memory_store api then Some [] else None)\<rparr> in
      if ver_roots v1 = None
      then fail ''tls_ca_unreadable'' ''no in-memory certificate store could be opened for ca_file'' v1
      else case file_certificates api (wide_from_utf8 (crypto_texts api) path) of
          None \<Rightarrow> fail ''tls_ca_unreadable'' ''ca_file could not be opened or holds no certificate'' v1
        | Some cs \<Rightarrow>
            (let v2 = add_roots api cs v1 in
             if ver_root_hashes v2 = []
             then fail ''tls_ca_unreadable'' ''ca_file contains no PEM or DER certificate'' v2
             else v2))"

definition new_verifier :: "crypto_api \<Rightarrow> wstring \<Rightarrow> string \<Rightarrow> bool \<Rightarrow> bool \<Rightarrow> verifier" where
  "new_verifier api host ca_file verify check_revocation =
     (let v = \<lparr>ver_host = host, ver_ca_file = ca_file, ver_verify = verify,
            ver_check_revocation = check_revocation, ver_exclusive = False, ver_checked = False,
            ver_failed = False, ver_code = [], ver_detail = [], ver_roots = None, ver_root_hashes = []\<rparr>
      in if verify \<and> ca_file \<noteq> [] then load_roots api ca_file v else v)"

section \<open>The chain\<close>

text \<open>The bits of unknown and offline revocation, and of an untrusted root.\<close>

definition soft_bits :: u32 where "soft_bits = 0x40 OR 0x1000000"
definition untrusted_root_bit :: u32 where "untrusted_root_bit = 0x20"

definition rooted_in_file :: "crypto_api \<Rightarrow> verifier \<Rightarrow> chain_context \<Rightarrow> bool" where
  "rooted_in_file api v chain \<longleftrightarrow>
     list_ex (\<lambda>c. case c of
         None \<Rightarrow> False
       | Some els \<Rightarrow> els \<noteq> [] \<and>
           (let hash = certificate_hash api (last els) in hash \<noteq> [] \<and> hash \<in> set (ver_root_hashes v)))
       (simple_chains chain)"

definition chain_status :: "verifier \<Rightarrow> chain_context \<Rightarrow> u32" where
  "chain_status v chain =
     (let status = trust_status chain AND NOT soft_bits
      in if ver_exclusive v then status AND NOT untrusted_root_bit else status)"

definition policy_accepts :: "crypto_api \<Rightarrow> verifier \<Rightarrow> chain_context \<Rightarrow> bool \<times> verifier" where
  "policy_accepts api v chain =
     (case ssl_policy api chain
             (if is_ip_literal (crypto_texts api) (crypto_ips api) (ver_host v) then None else Some (ver_host v)) of
        None \<Rightarrow> (False, fail ''tls_policy_failed'' ''the SSL chain policy could not be evaluated'' v)
      | Some err \<Rightarrow>
          if err \<noteq> 0 \<and> \<not> (ver_exclusive v \<and> err = 0x800B0109)
          then (False, fail ''tls_policy_failed'' (''SSL policy error 0x'' @ hex8 (unat err)) v)
          else (True, v))"

definition verify_chain :: "crypto_api \<Rightarrow> cert_context \<Rightarrow> verifier \<Rightarrow> bool \<times> verifier" where
  "verify_chain api c v =
     (case build_chain api c (ver_roots v) (ver_check_revocation v) of
        Inl err \<Rightarrow>
          (False, fail ''tls_chain_failed'' (''the certificate chain could not be built (error ''
                    @ nat_str err @ '')'') v)
      | Inr chain \<Rightarrow>
          if ver_exclusive v \<and> \<not> rooted_in_file api v chain
          then (False, fail ''tls_untrusted_root'' ''the certificate does not chain to a certificate in ca_file'' v)
          else let status = chain_status v chain in
            if status \<noteq> 0
            then (False, fail (if status AND 0x1 \<noteq> 0 then ''tls_expired''
                               else if status AND 0x4 \<noteq> 0 then ''tls_revoked''
                               else ''tls_untrusted_root'') (chain_status_text status) v)
            else policy_accepts api v chain)"

section \<open>The name\<close>

definition verify_ip :: "crypto_api \<Rightarrow> bool \<Rightarrow> names \<Rightarrow> verifier \<Rightarrow> bool \<times> verifier" where
  "verify_ip api has_san ns v =
     (let target = canonical_ip (crypto_texts api) (crypto_ips api) (ver_host v) in
      if target \<noteq> [] \<and> target \<in> set (ip_names ns) then (True, v)
      else (False, fail ''tls_name_mismatch''
              (if ip_names ns = []
               then ''the certificate carries no IP address subject alternative name (''
                    @ (if has_san then ''a subjectAltName was found'' else ''no subjectAltName was found'')
                    @ '', '' @ nat_str (length (dns_names ns)) @ '' DNS names, walk['' @ trace ns @ '']''
               else ''the certificate is not valid for this IP address'') v))"

definition verify_dns :: "crypto_api \<Rightarrow> cert_context \<Rightarrow> names \<Rightarrow> verifier \<Rightarrow> bool \<times> verifier" where
  "verify_dns api c ns v =
     (if list_ex (\<lambda>n. ascii_equals_insensitive n (ver_host v) \<or> matches_wildcard (ver_host v) n) (dns_names ns)
      then (True, v)
      else if dns_names ns \<noteq> []
      then (False, fail ''tls_name_mismatch'' ''no subject alternative name matches this host'' v)
      else if (case simple_name api c of
                 None \<Rightarrow> False
               | Some n \<Rightarrow>
                   ascii_equals_insensitive (takeWhile (\<lambda>w. w \<noteq> 44) (takeWhile (\<lambda>w. w \<noteq> 0) n)) (ver_host v))
      then (True, v)
      else (False, fail ''tls_name_mismatch'' ''the certificate carries no name for this host'' v))"

definition verify_name :: "crypto_api \<Rightarrow> cert_context \<Rightarrow> verifier \<Rightarrow> (bool \<times> verifier) result" where
  "verify_name api c v =
     bind_result (read_alt_names (crypto_ips api) (Some c)) (\<lambda>(has_san, ns).
       Inr (if is_ip_literal (crypto_texts api) (crypto_ips api) (ver_host v)
            then verify_ip api has_san ns v else verify_dns api c ns v))"

definition check :: "crypto_api \<Rightarrow> cert_context option \<Rightarrow> verifier \<Rightarrow> (bool \<times> verifier) result" where
  "check api cert v =
     (let v1 = v\<lparr>ver_checked := True\<rparr> in
      if \<not> ver_verify v1 then Inr (True, v1)
      else if ver_failed v1 then Inr (False, v1)
      else case Option.bind cert (\<lambda>c. map_option (\<lambda>_. c) (cert_encoded c)) of
          None \<Rightarrow> Inr (False, fail ''tls_no_certificate'' ''the peer sent no readable certificate'' v1)
        | Some c \<Rightarrow>
            (let (ok, v2) = verify_chain api c v1 in
             if ok then verify_name api c v2 else Inr (False, v2)))"

section \<open>What a passed check establishes\<close>

text \<open>
  The names a certificate covers: an IP literal must be among its IP addresses; otherwise a DNS name
  of the certificate equals the host or matches it as a wildcard, or there is no DNS name at all and
  the subject's common name, up to a comma, equals the host.
\<close>

definition name_covered :: "crypto_api \<Rightarrow> cert_context \<Rightarrow> names \<Rightarrow> wstring \<Rightarrow> bool" where
  "name_covered api c ns host \<longleftrightarrow>
     (if is_ip_literal (crypto_texts api) (crypto_ips api) host
      then canonical_ip (crypto_texts api) (crypto_ips api) host \<in> set (ip_names ns)
      else (\<exists>n \<in> set (dns_names ns). ascii_equals_insensitive n host \<or> matches_wildcard host n)
        \<or> dns_names ns = [] \<and> (\<exists>n. simple_name api c = Some n
             \<and> ascii_equals_insensitive (takeWhile (\<lambda>w. w \<noteq> 44) (takeWhile (\<lambda>w. w \<noteq> 0) n)) host))"

text \<open>
  A chain that is accepted, stated on the bits of its status and on the certificates in it: nothing is set
  but that revocation is unknown (bit 6) or could not be looked up (bit 24) and, with a \<open>ca_file\<close>, that
  the root is not one of the system's (bit 5); with a \<open>ca_file\<close> some simple chain ends in a certificate
  whose hash is that of one of the file's; and the SSL policy, told the host unless it is an IP literal,
  finds nothing, or with a \<open>ca_file\<close> only the untrusted root.
\<close>

definition chain_accepted :: "crypto_api \<Rightarrow> cert_context \<Rightarrow> verifier \<Rightarrow> bool" where
  "chain_accepted api c v \<longleftrightarrow>
     (\<exists>chain err. build_chain api c (ver_roots v) (ver_check_revocation v) = Inr chain
        \<and> (\<forall>k. bit (trust_status chain) k \<longrightarrow> k = 6 \<or> k = 24 \<or> ver_exclusive v \<and> k = 5)
        \<and> (ver_exclusive v \<longrightarrow> (\<exists>below root. Some (below @ [root]) \<in> set (simple_chains chain)
              \<and> certificate_hash api root \<noteq> [] \<and> certificate_hash api root \<in> set (ver_root_hashes v)))
        \<and> ssl_policy api chain (if is_ip_literal (crypto_texts api) (crypto_ips api) (ver_host v)
                                then None else Some (ver_host v)) = Some err
        \<and> (err = 0 \<or> ver_exclusive v \<and> err = 0x800B0109))"

lemma chain_status_zero:
  "chain_status v chain = 0 \<longleftrightarrow> (\<forall>k. bit (trust_status chain) k \<longrightarrow> k = 6 \<or> k = 24 \<or> ver_exclusive v \<and> k = 5)"
proof -
  have b: "soft_bits = 2 ^ 6 OR 2 ^ 24" "untrusted_root_bit = 2 ^ 5"
    by (simp_all add: soft_bits_def untrusted_root_bit_def)
  have bs: "bit soft_bits k \<longleftrightarrow> k = 6 \<or> k = 24" "bit untrusted_root_bit k \<longleftrightarrow> k = 5" for k
    unfolding b bit_or_iff bit_exp_iff by auto
  have bits: "bit (chain_status v chain) k \<longleftrightarrow> bit (trust_status chain) k \<and> k \<noteq> 6 \<and> k \<noteq> 24 \<and> \<not> (ver_exclusive v \<and> k = 5)" for k
    using bit_imp_le_length [of "trust_status chain" k]
    by (auto simp: chain_status_def Let_def bs bit_and_iff bit_not_iff)
  have "chain_status v chain = 0 \<longleftrightarrow> (\<forall>k. \<not> bit (chain_status v chain) k)"
    using bit_imp_le_length [of "chain_status v chain"] by (auto simp: bit_eq_iff)
  then show ?thesis unfolding bits by blast
qed

lemma rooted_in_file_iff:
  "rooted_in_file api v chain \<longleftrightarrow> (\<exists>below root. Some (below @ [root]) \<in> set (simple_chains chain)
     \<and> certificate_hash api root \<noteq> [] \<and> certificate_hash api root \<in> set (ver_root_hashes v))"
proof
  assume "rooted_in_file api v chain"
  then obtain els where e: "Some els \<in> set (simple_chains chain)" "els \<noteq> []"
      "certificate_hash api (last els) \<noteq> []" "certificate_hash api (last els) \<in> set (ver_root_hashes v)"
    by (auto simp: rooted_in_file_def list_ex_iff Let_def split: option.splits)
  then show "\<exists>below root. Some (below @ [root]) \<in> set (simple_chains chain)
     \<and> certificate_hash api root \<noteq> [] \<and> certificate_hash api root \<in> set (ver_root_hashes v)"
    by (intro exI [of _ "butlast els"] exI [of _ "last els"]) simp
next
  assume "\<exists>below root. Some (below @ [root]) \<in> set (simple_chains chain)
     \<and> certificate_hash api root \<noteq> [] \<and> certificate_hash api root \<in> set (ver_root_hashes v)"
  then obtain below root where r: "Some (below @ [root]) \<in> set (simple_chains chain)"
     "certificate_hash api root \<noteq> []" "certificate_hash api root \<in> set (ver_root_hashes v)" by blast
  then show "rooted_in_file api v chain"
    unfolding rooted_in_file_def list_ex_iff by (intro bexI [OF _ r(1)]) (simp add: Let_def)
qed

lemma chain_accepted_code:
  "chain_accepted api c v \<longleftrightarrow>
     (\<exists>chain err. build_chain api c (ver_roots v) (ver_check_revocation v) = Inr chain
        \<and> chain_status v chain = 0 \<and> (ver_exclusive v \<longrightarrow> rooted_in_file api v chain)
        \<and> ssl_policy api chain (if is_ip_literal (crypto_texts api) (crypto_ips api) (ver_host v)
                                then None else Some (ver_host v)) = Some err
        \<and> (err = 0 \<or> ver_exclusive v \<and> err = 0x800B0109))"
  unfolding chain_accepted_def chain_status_zero rooted_in_file_iff by (rule refl)

lemma chain_accepted_checked [simp]:
  "chain_accepted api c (v\<lparr>ver_checked := b\<rparr>) = chain_accepted api c v"
  by (simp add: chain_accepted_def)

lemma fail_simps [simp]:
  "ver_failed (fail c t v)" "ver_checked (fail c t v) = ver_checked v" "ver_verify (fail c t v) = ver_verify v"
  by (simp_all add: fail_def)

lemma verify_chain_cases:
  "verify_chain api c v = (ok, v') \<Longrightarrow>
     (if chain_accepted api c v then ok \<and> v' = v
      else \<not> ok \<and> ver_failed v' \<and> ver_checked v' = ver_checked v \<and> ver_verify v' = ver_verify v)"
  by (auto simp: verify_chain_def chain_accepted_code policy_accepts_def Let_def
      split: sum.splits option.splits if_splits)

lemma verify_name_cases:
  assumes "verify_name api c v = Inr (ok, v')"
  shows "\<exists>san ns. read_alt_names (crypto_ips api) (Some c) = Inr (san, ns) \<and>
     (if name_covered api c ns (ver_host v) then ok \<and> v' = v
      else \<not> ok \<and> ver_failed v' \<and> ver_checked v' = ver_checked v \<and> ver_verify v' = ver_verify v)"
proof -
  obtain san ns where r: "read_alt_names (crypto_ips api) (Some c) = Inr (san, ns)"
    using assms by (auto simp: verify_name_def bind_result_Inr)
  show ?thesis
  proof (cases "is_ip_literal (crypto_texts api) (crypto_ips api) (ver_host v)")
    case True
    with assms r show ?thesis
      by (auto simp: verify_name_def verify_ip_def name_covered_def is_ip_literal_def Let_def split: if_splits)
  next
    case False
    with assms r show ?thesis
      by (auto simp: verify_name_def verify_dns_def name_covered_def list_ex_iff split: if_splits option.splits)
  qed
qed

text \<open>A certificate that vouches for the host: readable, with an accepted chain and a name that covers it.\<close>

definition vouches :: "crypto_api \<Rightarrow> cert_context \<Rightarrow> verifier \<Rightarrow> bool" where
  "vouches api c v \<longleftrightarrow> (\<exists>der san ns. cert_encoded c = Some der \<and> chain_accepted api c v
     \<and> read_alt_names (crypto_ips api) (Some c) = Inr (san, ns) \<and> name_covered api c ns (ver_host v))"

lemma vouches_checked [simp]: "vouches api c (v\<lparr>ver_checked := b\<rparr>) = vouches api c v"
  by (simp add: vouches_def)

lemma check_accepts:
  assumes "ver_verify v"
  shows "(\<exists>v'. check api cert v = Inr (True, v')) \<longleftrightarrow> \<not> ver_failed v \<and> (\<exists>c. cert = Some c \<and> vouches api c v)"
  (is "?l = ?r")
proof -
  let ?v = "v\<lparr>ver_checked := True\<rparr>"
  have acc: "chain_accepted api c ?v = chain_accepted api c v" for c by simp
  show ?thesis
  proof (cases "ver_failed v \<or> cert = None \<or> (\<exists>c. cert = Some c \<and> cert_encoded c = None)")
    case True
    then show ?thesis using assms by (auto simp: check_def vouches_def Let_def split: if_splits)
  next
    case False
    then obtain c der where c: "cert = Some c" "cert_encoded c = Some der" "\<not> ver_failed v" by auto
    obtain ok v2 where v: "verify_chain api c ?v = (ok, v2)" by force
    show ?thesis
    proof (cases "chain_accepted api c v")
      case False
      then show ?thesis using verify_chain_cases [OF v] c v assms acc by (auto simp: check_def vouches_def)
    next
      case True
      then have v2: "ok" "v2 = ?v" using verify_chain_cases [OF v] acc by auto
      have "?l \<longleftrightarrow> (\<exists>v'. verify_name api c ?v = Inr (True, v'))" using c v v2 assms by (simp add: check_def)
      also have "\<dots> \<longleftrightarrow> (\<exists>san ns. read_alt_names (crypto_ips api) (Some c) = Inr (san, ns) \<and> name_covered api c ns (ver_host v))"
      proof
        assume "\<exists>v'. verify_name api c ?v = Inr (True, v')"
        then obtain v' where "verify_name api c ?v = Inr (True, v')" ..
        from verify_name_cases [OF this] show "\<exists>san ns. read_alt_names (crypto_ips api) (Some c) = Inr (san, ns)
            \<and> name_covered api c ns (ver_host v)"
          by (auto split: if_splits)
      next
        assume "\<exists>san ns. read_alt_names (crypto_ips api) (Some c) = Inr (san, ns) \<and> name_covered api c ns (ver_host v)"
        then obtain san ns where r: "read_alt_names (crypto_ips api) (Some c) = Inr (san, ns)" "name_covered api c ns (ver_host v)"
          by blast
        then obtain ok' v' where n: "verify_name api c ?v = Inr (ok', v')" by (simp add: verify_name_def) (metis surj_pair)
        from verify_name_cases [OF n] r have "ok'" by (auto split: if_splits)
        with n show "\<exists>v'. verify_name api c ?v = Inr (True, v')" by auto
      qed
      finally show ?thesis using c True by (auto simp: vouches_def)
    qed
  qed
qed

text \<open>
  C14. With verification on, a certificate passes exactly when no earlier check failed, it is there and
  readable, and: a chain was built for it in whose status no bit is set but unknown (6) and offline (24)
  revocation and, with a \<open>ca_file\<close>, the root unknown to the system (5), so an expired, revoked or wrongly
  signed one does not pass; with a \<open>ca_file\<close> the last certificate of a chain is one of the file's own, by
  its hash; the SSL policy found nothing, or with a \<open>ca_file\<close> only that root; and one of its names covers
  the host.
\<close>

theorem check_passes_iff:
  assumes "ver_verify v"
  shows "(\<exists>v'. check api cert v = Inr (True, v')) \<longleftrightarrow>
    \<not> ver_failed v \<and> (\<exists>c der chain err san ns. cert = Some c \<and> cert_encoded c = Some der
       \<and> build_chain api c (ver_roots v) (ver_check_revocation v) = Inr chain
       \<and> (\<forall>k. bit (trust_status chain) k \<longrightarrow> k \<in> {6, 24} \<or> ver_exclusive v \<and> k = 5)
       \<and> (ver_exclusive v \<longrightarrow> (\<exists>below root. Some (below @ [root]) \<in> set (simple_chains chain)
             \<and> certificate_hash api root \<noteq> [] \<and> certificate_hash api root \<in> set (ver_root_hashes v)))
       \<and> ssl_policy api chain (if is_ip_literal (crypto_texts api) (crypto_ips api) (ver_host v)
                               then None else Some (ver_host v)) = Some err
       \<and> (err = 0 \<or> ver_exclusive v \<and> err = 0x800B0109)
       \<and> read_alt_names (crypto_ips api) (Some c) = Inr (san, ns) \<and> name_covered api c ns (ver_host v))"
proof -
  have "k = 6 \<or> k = 24 \<or> x \<longleftrightarrow> k \<in> {6, 24} \<or> x" for k :: nat and x by simp
  then show ?thesis
    unfolding check_accepts [OF assms, of api cert] vouches_def chain_accepted_def by blast
qed

text \<open>The outcome of a check and the verifier's memory of it agree.\<close>

lemma check_cases:
  assumes "check api cert v = Inr (ok, v')" and "ver_verify v"
  shows "ver_checked v' \<and> ver_verify v' \<and>
    (if ok then \<not> ver_failed v \<and> v' = v\<lparr>ver_checked := True\<rparr> else ver_failed v')"
proof -
  let ?v = "v\<lparr>ver_checked := True\<rparr>"
  show ?thesis
  proof (cases "ver_failed v \<or> cert = None \<or> (\<exists>c. cert = Some c \<and> cert_encoded c = None)")
    case True
    then show ?thesis using assms by (auto simp: check_def Let_def split: if_splits)
  next
    case False
    then obtain c der where c: "cert = Some c" "cert_encoded c = Some der" "\<not> ver_failed v" by auto
    obtain o2 v2 where v: "verify_chain api c ?v = (o2, v2)" by force
    note vc = verify_chain_cases [OF v]
    show ?thesis
    proof (cases o2)
      case False
      then show ?thesis using assms c v vc by (auto simp: check_def split: if_splits)
    next
      case True
      then have v2: "v2 = ?v" using vc by (auto split: if_splits)
      have n: "verify_name api c ?v = Inr (ok, v')" using assms c v v2 True by (simp add: check_def)
      show ?thesis using verify_name_cases [OF n] c assms(2) by (auto split: if_splits)
    qed
  qed
qed

lemma check_after_failure:
  "ver_verify v \<Longrightarrow> ver_failed v \<Longrightarrow> check api cert v = Inr (False, v\<lparr>ver_checked := True\<rparr>)"
  by (simp add: check_def)

text \<open>The hook may be called several times in one handshake; this is what it answers, in order.\<close>

fun checks :: "crypto_api \<Rightarrow> cert_context option list \<Rightarrow> verifier \<Rightarrow> (bool list \<times> verifier) result" where
  "checks api [] v = Inr ([], v)"
| "checks api (c # cs) v =
     bind_result (check api c v) (\<lambda>(ok, v1).
     bind_result (checks api cs v1) (\<lambda>(oks, v2). Inr (ok # oks, v2)))"

lemma checks_Cons:
  assumes "checks api (c # cs) v = Inr (oks, v')"
  obtains ok v1 oks' where "check api c v = Inr (ok, v1)" "checks api cs v1 = Inr (oks', v')" "oks = ok # oks'"
  using assms by (auto simp: bind_result_Inr)

lemma checks_after_failure:
  "ver_verify v \<Longrightarrow> ver_failed v \<Longrightarrow> checks api cs v = Inr (oks, v') \<Longrightarrow>
   oks = replicate (length cs) False \<and> ver_failed v' \<and> ver_code v' = ver_code v \<and> ver_detail v' = ver_detail v"
proof (induction cs arbitrary: v oks)
  case (Cons c cs)
  from Cons.prems(3) obtain ok v1 oks' where c: "check api c v = Inr (ok, v1)"
      "checks api cs v1 = Inr (oks', v')" "oks = ok # oks'" by (rule checks_Cons)
  then have "\<not> ok" "v1 = v\<lparr>ver_checked := True\<rparr>" using check_after_failure [OF Cons.prems(1,2)] by auto
  with c Cons.IH [of v1 oks'] Cons.prems show ?case by simp
qed simp

lemma checks_run:
  assumes "ver_verify v" and "\<not> ver_failed v" and "checks api cs v = Inr (oks, v')"
  shows "\<exists>k \<le> length cs. oks = replicate k True @ replicate (length cs - k) False
    \<and> (ver_failed v' \<longleftrightarrow> k < length cs) \<and> (ver_checked v' \<longleftrightarrow> ver_checked v \<or> cs \<noteq> []) \<and> ver_verify v'"
  using assms
proof (induction cs arbitrary: v oks)
  case (Cons c cs)
  from Cons.prems(3) obtain ok v1 oks' where c: "check api c v = Inr (ok, v1)"
      "checks api cs v1 = Inr (oks', v')" "oks = ok # oks'" by (rule checks_Cons)
  note cc = check_cases [OF c(1) Cons.prems(1)]
  show ?case
  proof (cases ok)
    case True
    then have v1: "\<not> ver_failed v1" "ver_verify v1" "ver_checked v1" using cc Cons.prems by auto
    from Cons.IH [OF v1(2,1) c(2)] obtain k where "k \<le> length cs"
        "oks' = replicate k True @ replicate (length cs - k) False" "ver_failed v' \<longleftrightarrow> k < length cs"
        "ver_checked v' \<longleftrightarrow> ver_checked v1 \<or> cs \<noteq> []" "ver_verify v'" by blast
    with True c v1 show ?thesis by (intro exI [of _ "Suc k"]) simp
  next
    case False
    then have v1: "ver_failed v1" "ver_verify v1" "ver_checked v1" using cc by auto
    have "ver_checked v' \<and> ver_verify v'"
      using c(2) v1
    proof (induction cs arbitrary: v1 oks')
      case (Cons d ds)
      from Cons.prems(1) obtain ok2 v2 oks2 where d: "check api d v1 = Inr (ok2, v2)"
          "checks api ds v2 = Inr (oks2, v')" by (rule checks_Cons)
      then have "v2 = v1\<lparr>ver_checked := True\<rparr>" using check_after_failure Cons.prems by auto
      with d Cons.IH [of v2 oks2] Cons.prems show ?case by simp
    qed simp
    with False c checks_after_failure [OF v1(2,1) c(2)] show ?thesis by (intro exI [of _ 0]) simp
  qed
qed simp

lemma checks_append:
  "checks api (as @ bs) v = Inr (oks, v') \<Longrightarrow>
   \<exists>oks1 w oks2. checks api as v = Inr (oks1, w) \<and> checks api bs w = Inr (oks2, v') \<and> oks = oks1 @ oks2"
proof (induction as arbitrary: v oks)
  case (Cons a as)
  from Cons.prems obtain ok v1 oks' where "check api a v = Inr (ok, v1)" "checks api (as @ bs) v1 = Inr (oks', v')"
      "oks = ok # oks'" using checks_Cons by (metis append_Cons)
  with Cons.IH [of v1 oks'] show ?case by auto
qed simp

text \<open>
  C16. However often the hook runs in a handshake, a refusal is final and the first reason is the one
  reported: the answers are a run of passes followed by refusals only, \<open>Passed\<close> holds afterwards exactly
  when there was a check and every check passed, and the reason is the same after the first refusal and
  after every later check.
\<close>

theorem checks_first_failure_final:
  assumes "ver_verify v" and "\<not> ver_failed v" and "\<not> ver_checked v" and "checks api cs v = Inr (oks, v')"
  shows "\<exists>k \<le> length cs. oks = replicate k True @ replicate (length cs - k) False
    \<and> (passed v' \<longleftrightarrow> cs \<noteq> [] \<and> k = length cs)
    \<and> (\<forall>n oks1 w. k < n \<and> n \<le> length cs \<and> checks api (take n cs) v = Inr (oks1, w) \<longrightarrow>
         ver_code w = ver_code v' \<and> ver_detail w = ver_detail v')"
proof -
  from checks_run [OF assms(1,2,4)] obtain k where k: "k \<le> length cs"
      "oks = replicate k True @ replicate (length cs - k) False" "ver_failed v' \<longleftrightarrow> k < length cs"
      "ver_checked v' \<longleftrightarrow> cs \<noteq> []" using assms(3) by blast
  have "ver_code w = ver_code v' \<and> ver_detail w = ver_detail v'"
    if n: "k < n" "n \<le> length cs" "checks api (take n cs) v = Inr (oks1, w)" for n oks1 w
  proof -
    obtain oks2 where rest: "checks api (drop n cs) w = Inr (oks2, v')" "oks = oks1 @ oks2"
      using checks_append [of api "take n cs" "drop n cs" v oks v'] assms(4) n(3) by auto
    from checks_run [OF assms(1,2) n(3)] n(2) obtain m where m: "m \<le> n"
        "oks1 = replicate m True @ replicate (n - m) False" "ver_failed w \<longleftrightarrow> m < n" "ver_verify w" by auto
    have "m < n"
    proof (rule ccontr)
      assume "\<not> m < n"
      with m(1,2) have "oks ! k" using n(1) rest(2) by (simp add: nth_append)
      moreover have "\<not> oks ! k" using k(1,2) n(1,2) by (simp add: nth_append)
      ultimately show False by blast
    qed
    with m(3,4) show ?thesis using checks_after_failure [OF _ _ rest(1)] by simp
  qed
  with k show ?thesis by (auto simp: passed_def)
qed

text \<open>
  A certificate whose chain is reported expired, revoked, wrongly signed or incomplete (any
  status bit but the two soft revocation ones and the untrusted root) never passes, with or without
  a \<open>ca_file\<close>.
\<close>

theorem fatal_status_refused:
  assumes "ver_verify v" and "build_chain api c (ver_roots v) (ver_check_revocation v) = Inr chain"
    and "k \<notin> {5, 6, 24}" and "bit (trust_status chain) k"
  shows "check api (Some c) v \<noteq> Inr (True, v')"
proof
  assume c: "check api (Some c) v = Inr (True, v')"
  have "\<not> chain_accepted api c v"
    using assms(2-4) by (auto simp: chain_accepted_def)
  moreover have "chain_accepted api c v"
  proof -
    have "\<exists>o2 v2. verify_chain api c (v\<lparr>ver_checked := True\<rparr>) = (o2, v2) \<and> o2"
      using c assms(1) by (cases "cert_encoded c") (auto simp: check_def Let_def split: if_splits prod.splits)
    then obtain v2 where "verify_chain api c (v\<lparr>ver_checked := True\<rparr>) = (True, v2)" by auto
    from verify_chain_cases [OF this] have "chain_accepted api c (v\<lparr>ver_checked := True\<rparr>)"
      by (auto split: if_splits)
    then show ?thesis by simp
  qed
  ultimately show False by blast
qed

section \<open>Names and wildcards\<close>

definition narrow :: "wstring \<Rightarrow> bool" where
  "narrow w \<longleftrightarrow> (\<forall>c \<in> set w. unat c < 256)"

lemma low_byte: "unat (w :: u16) < 256 \<Longrightarrow> w AND 0xFF = w"
proof -
  assume "unat w < 256"
  then have "unat w < 2 ^ 8" by simp
  then have "take_bit 8 (unat w) = unat w" by (rule take_bit_nat_eq_self)
  then have "unat w AND 255 = unat w" by (simp add: take_bit_eq_mask mask_eq_exp_minus_1)
  then show ?thesis by (simp add: word_unat_eq_iff unsigned_and_eq)
qed

lemma lower_narrow_dot: "unat w < 256 \<Longrightarrow> lower_narrow w = 46 \<longleftrightarrow> w = 46"
  by (auto simp: lower_narrow_def low_byte Let_def word_unat_eq_iff split: if_splits)

text \<open>
  C31. A pattern matches a host of single-byte characters exactly when it is a star, a dot and at least
  one more character, and the host is one non-empty label without star or dot, a dot, and a text equal
  to the rest of the pattern up to the case of ASCII letters: RFC 6125's one left-most label.
\<close>

theorem wildcard_one_label:
  assumes "narrow host"
  shows "matches_wildcard host pattern \<longleftrightarrow>
    (\<exists>label rest tail. pattern = 42 # 46 # rest \<and> rest \<noteq> [] \<and> host = label @ 46 # tail \<and> label \<noteq> []
       \<and> 42 \<notin> set label \<and> 46 \<notin> set label \<and> ascii_equals_insensitive tail rest)"
  (is "?l = ?r")
proof
  assume ?l
  then have p: "3 \<le> length pattern" "pattern ! 0 = 42" "pattern ! 1 = 46"
    by (auto simp: matches_wildcard_def split: if_splits)
  then obtain rest where rest: "pattern = 42 # 46 # rest" "rest \<noteq> []"
    by (cases pattern; cases "tl pattern"; cases "tl (tl pattern)") auto
  let ?n = "length host - length (46 # rest)"
  have m: "length (46 # rest) < length host" "ascii_equals_insensitive (drop ?n host) (46 # rest)"
      "take ?n host \<noteq> []" "42 \<notin> set (take ?n host)" "46 \<notin> set (take ?n host)"
    using \<open>?l\<close> rest by (auto simp: matches_wildcard_def Let_def split: if_splits)
  obtain d tail where d: "drop ?n host = d # tail" using m(1) by (cases "drop ?n host") auto
  then have "d \<in> set host" by (metis in_set_dropD list.set_intros(1))
  then have "unat d < 256" using assms by (simp add: narrow_def)
  moreover have "lower_narrow d = lower_narrow 46" "ascii_equals_insensitive tail rest"
    using m(2) d by (auto simp: ascii_equals_insensitive_def dest: list_all2_lengthD)
  moreover have "lower_narrow 46 = 46" by (simp add: lower_narrow_def)
  ultimately have "d = 46" using lower_narrow_dot by simp
  moreover have "host = take ?n host @ d # tail" using d by (metis append_take_drop_id)
  ultimately show ?r using rest m \<open>ascii_equals_insensitive tail rest\<close> by blast
next
  assume ?r
  then obtain label rest tail where r: "pattern = 42 # 46 # rest" "rest \<noteq> []" "host = label @ 46 # tail"
      "label \<noteq> []" "42 \<notin> set label" "46 \<notin> set label" "ascii_equals_insensitive tail rest" by blast
  then have "length tail = length rest" by (simp add: ascii_equals_insensitive_def)
  with r show ?l by (simp add: matches_wildcard_def ascii_equals_insensitive_def Suc_le_eq)
qed

text \<open>
  The comparison cuts every wide character to its low byte: a host whose characters all lie
  outside Latin-1 is accepted for the certificate of the name it is cut to.
\<close>

theorem wide_host_accepted:
  assumes "n \<in> set (dns_names ns)" and "ver_host v = map (\<lambda>w. w OR 0x0100) n"
  shows "verify_dns api c ns v = (True, v)"
proof -
  have "(w OR 0x0100) AND 0xFF = w AND (0xFF :: u16)" for w
    by (rule bit_eqI) (auto simp: bit_simps bit_numeral_rec(1) word_ao_dist)
  then have "lower_narrow w = lower_narrow (w OR 0x0100)" for w by (simp add: lower_narrow_def)
  then have "ascii_equals_insensitive n (ver_host v)"
    by (simp add: ascii_equals_insensitive_def assms(2) list_all2_conv_all_nth)
  with assms(1) show ?thesis by (auto simp: verify_dns_def list_ex_iff)
qed

section \<open>From the encoded certificate to the verdict\<close>

lemma dns_of_set: "set (dns_of gs) = {widen s | s. Dns_Name s \<in> set gs}"
  by (induction gs rule: dns_of.induct) auto


section \<open>Witnesses\<close>

definition demo_crypto :: crypto_api where
  "demo_crypto = \<lparr>crypto_texts = demo_text,
     crypto_ips = \<lparr>ntop4 = (\<lambda>b. None), ntop6 = (\<lambda>b. None), pton4 = (\<lambda>t. None), pton6 = (\<lambda>t. None)\<rparr>,
     sha256 = (\<lambda>b. Some b), open_memory_store = True, file_certificates = (\<lambda>p. None),
     build_chain = (\<lambda>c r rev. Inr \<lparr>trust_status = 0x40, simple_chains = []\<rparr>),
     ssl_policy = (\<lambda>c n. Some 0), simple_name = (\<lambda>c. None)\<rparr>"

definition demo_verifier :: verifier where
  "demo_verifier = new_verifier demo_crypto (widen ''a.b'') [] True True"

definition demo_certificate :: string where
  "demo_certificate = certificate [(2, ''1'')] (ext_list [] @ san_bytes [] [Dns_Name ''*.b'', Dns_Name ''A.B''] @ []) [] ''s''"

lemma demo_names: "\<exists>ns. read_alt_names api (Some (context_of demo_certificate)) = Inr (True, ns)
    \<and> dns_names ns = [widen ''*.b'', widen ''A.B''] \<and> ip_names ns = []"
  using alt_names_read [of "[(2, ''1'')]" "[]" "[Dns_Name ''*.b'', Dns_Name ''A.B'']" "[]" "[]" "''s''" api]
  unfolding demo_certificate_def by (simp add: encodings)

lemma demo_not_ip: "\<not> is_ip_literal (crypto_texts demo_crypto) (crypto_ips demo_crypto) h"
  by (simp add: is_ip_literal_def canonical_ip_def demo_crypto_def Let_def)

lemma demo_matches: "ascii_equals_insensitive (widen ''A.B'') (widen ''a.b'')"
  by (simp add: ascii_equals_insensitive_def widen_def byte_def lower_narrow_def)

lemma demo_fields: "ver_verify demo_verifier" "\<not> ver_failed demo_verifier" "ver_host demo_verifier = widen ''a.b''"
  by (simp_all add: demo_verifier_def new_verifier_def)

lemma demo_vouches: "vouches demo_crypto (context_of demo_certificate) demo_verifier"
proof -
  have c: "chain_accepted demo_crypto (context_of demo_certificate) demo_verifier"
  proof -
    have "(64 :: u32) = 2 ^ 6" by simp
    then have "bit (64 :: u32) k \<longleftrightarrow> k = 6" for k by (simp only: bit_exp_iff) auto
    then show ?thesis by (simp add: chain_accepted_def demo_crypto_def demo_verifier_def new_verifier_def)
  qed
  obtain ns where ns: "read_alt_names (crypto_ips demo_crypto) (Some (context_of demo_certificate)) = Inr (True, ns)"
      "dns_names ns = [widen ''*.b'', widen ''A.B'']"
    using demo_names by blast
  then have "name_covered demo_crypto (context_of demo_certificate) ns (widen ''a.b'')"
    using demo_not_ip demo_matches by (simp add: name_covered_def)
  with ns c show ?thesis by (auto simp: vouches_def context_of_def demo_fields)
qed

lemma demo_check:
  "check demo_crypto (Some (context_of demo_certificate)) demo_verifier = Inr (True, demo_verifier\<lparr>ver_checked := True\<rparr>)"
proof -
  have "\<exists>v'. check demo_crypto (Some (context_of demo_certificate)) demo_verifier = Inr (True, v')"
    using check_accepts [of demo_verifier demo_crypto "Some (context_of demo_certificate)"] demo_fields demo_vouches
    by simp
  then obtain v' where "check demo_crypto (Some (context_of demo_certificate)) demo_verifier = Inr (True, v')" ..
  with check_cases [OF this] demo_fields show ?thesis by simp
qed

theorem check_passes_iff_witness:
  "\<exists>v'. check demo_crypto (Some (context_of demo_certificate)) demo_verifier = Inr (True, v')"
  unfolding check_passes_iff [OF demo_fields(1), of demo_crypto "Some (context_of demo_certificate)"]
  using demo_fields demo_vouches unfolding vouches_def chain_accepted_def by blast

theorem checks_first_failure_final_witness:
  "\<exists>k \<le> 2. [False, False] = replicate k True @ replicate (2 - k) False
     \<and> (passed (fail ''tls_no_certificate'' ''the peer sent no readable certificate''
          (demo_verifier\<lparr>ver_checked := True\<rparr>)) \<longleftrightarrow> k = 2)"
proof -
  have h: "ver_verify demo_verifier" "\<not> ver_failed demo_verifier" "\<not> ver_checked demo_verifier"
    by (simp_all add: demo_verifier_def new_verifier_def)
  have "checks demo_crypto [None, None] demo_verifier =
      Inr ([False, False], fail ''tls_no_certificate'' ''the peer sent no readable certificate''
          (demo_verifier\<lparr>ver_checked := True\<rparr>))"
    using h by (simp add: check_def fail_def Let_def)
  from checks_first_failure_final [OF h this] obtain k where "k \<le> 2"
      "[False, False] = replicate k True @ replicate (2 - k) False"
      "passed (fail ''tls_no_certificate'' ''the peer sent no readable certificate''
          (demo_verifier\<lparr>ver_checked := True\<rparr>)) \<longleftrightarrow> k = 2" by (auto simp: numeral_2_eq_2)
  then show ?thesis by blast
qed

theorem fatal_status_refused_witness:
  "check (demo_crypto\<lparr>build_chain := (\<lambda>c r rev. Inr \<lparr>trust_status = 0x4, simple_chains = []\<rparr>)\<rparr>)
     (Some (context_of demo_certificate)) demo_verifier \<noteq> Inr (True, demo_verifier)"
  by (rule fatal_status_refused [where k = 2 and chain = "\<lparr>trust_status = 0x4, simple_chains = []\<rparr>"])
    (simp_all add: demo_verifier_def new_verifier_def)

theorem wildcard_one_label_witness:
  "matches_wildcard (widen ''a.b'') (widen ''*.B'') \<longleftrightarrow>
    (\<exists>label rest tail. widen ''*.B'' = 42 # 46 # rest \<and> rest \<noteq> [] \<and> widen ''a.b'' = label @ 46 # tail \<and> label \<noteq> []
       \<and> 42 \<notin> set label \<and> 46 \<notin> set label \<and> ascii_equals_insensitive tail rest)"
  by (rule wildcard_one_label) (simp add: narrow_def widen_def byte_def)

theorem wide_host_accepted_witness:
  "verify_dns demo_crypto (context_of []) \<lparr>dns_names = [[97]], ip_names = [], trace = []\<rparr>
     (demo_verifier\<lparr>ver_host := [0x161]\<rparr>) = (True, demo_verifier\<lparr>ver_host := [0x161]\<rparr>)"
  by (rule wide_host_accepted [where n = "[97]"]) simp_all

text \<open>The same names, critical or not: the certificate that passes fails when its extension is critical.\<close>

definition demo_critical :: string where
  "demo_critical = certificate [(2, ''1'')] (ext_list [] @ san_bytes (san_mark True) [Dns_Name ''*.b'', Dns_Name ''A.B''] @ []) [] ''s''"


end
