(* ===== verification/CertHelper.thy ===== *)
theory CertHelper imports Der BaseSock ProxyUrl begin

text \<open>
  \<open>socket/CertHelper.cpp\<close> and the client hook of \<open>CertHelper.h\<close>: which certificate of a Windows store
  is chosen for a server or a client, name matching with wildcards, the trust test and the creation of
  a self-signed certificate. What Windows answers about a certificate or a store is a field of
  \<open>cert_env\<close>; freeing contexts and debug output have no counterpart. The lemmas show which certificate
  each search returns, and that the wildcard test compares lengths only.
\<close>

section \<open>What Windows knows\<close>

datatype store_kind = User_Store | Machine_Store

record cert_env =
  dns_compare :: "wstring \<Rightarrow> wstring \<Rightarrow> bool"
  alt_entries :: "cert_context \<Rightarrow> wstring option list option"
  common_name :: "cert_context \<Rightarrow> wstring option"
  friendly_name :: "cert_context \<Rightarrow> wstring option"
  subject_name :: "cert_context \<Rightarrow> wstring option"
  self_issued :: "cert_context \<Rightarrow> bool"
  private_key :: "cert_context \<Rightarrow> bool"
  key_info_missing :: "cert_context \<Rightarrow> bool"
  enhanced_usages :: "cert_context \<Rightarrow> string list option"
  trust_chain :: "cert_context \<Rightarrow> bool \<Rightarrow> nat + (nat + nat)"
  open_store :: "store_kind \<Rightarrow> nat option"
  with_usage :: "store_kind \<Rightarrow> string \<Rightarrow> cert_context list"
  with_subject :: "store_kind \<Rightarrow> wstring \<Rightarrow> cert_context option"
  with_hash :: "store_kind \<Rightarrow> string \<Rightarrow> cert_context option"
  chain_leaf :: "store_kind \<Rightarrow> string list \<Rightarrow> cert_context option"
  find_error :: nat

definition server_auth :: string where "server_auth = ''1.3.6.1.5.5.7.3.1''"
definition client_auth :: string where "client_auth = ''1.3.6.1.5.5.7.3.2''"

text \<open>Status values: \<open>SEC_E_OK\<close> is 0; \<open>SEC_E_CERT_UNKNOWN\<close>, \<open>E_POINTER\<close>, \<open>CRYPT_E_NOT_FOUND\<close>.\<close>

definition sec_e_cert_unknown :: nat where "sec_e_cert_unknown = 0x80090327"
definition sec_e_invalid_parameter :: nat where "sec_e_invalid_parameter = 0x8009035D"
definition e_pointer :: nat where "e_pointer = 0x80004003"
definition crypt_e_not_found :: nat where "crypt_e_not_found = 0x80092004"

text \<open>The stores opened so far.\<close>

type_synonym store_cache = "store_kind list"

definition store_of :: "bool \<Rightarrow> store_kind" where
  "store_of use_user = (if use_user then User_Store else Machine_Store)"

definition get_store :: "cert_env \<Rightarrow> bool \<Rightarrow> store_cache \<Rightarrow> nat \<times> store_cache" where
  "get_store env use_user cache =
     (let k = store_of use_user in
      if k \<in> set cache then (0, cache)
      else case open_store env k of
          Some err \<Rightarrow> (hresult_from_win32 err, cache)
        | None \<Rightarrow> (0, k # cache))"

section \<open>Matching names\<close>

text \<open>The position of the first dot, \<open>2 ^ 64 - 1\<close> (npos) when there is none; sizes wrap.\<close>

definition find_dot :: "wstring \<Rightarrow> nat" where
  "find_dot s = (if 46 \<in> set s then length (takeWhile (\<lambda>w. w \<noteq> 46) s) else 2 ^ 64 - 1)"

definition suffix_length :: "wstring \<Rightarrow> nat" where
  "suffix_length s = sz_sub (length s) (find_dot s)"

definition dns_name_matches :: "cert_env \<Rightarrow> wstring \<Rightarrow> wstring \<Rightarrow> bool" where
  "dns_name_matches env host required =
     (if dns_compare env host required then True
      else if required = [] \<or> hd required \<noteq> 42 then False
      else let suffix_len = suffix_length host in
        if length required \<noteq> suffix_len + 1 \<and> hd required \<noteq> 42 then False
        else if suffix_length required \<noteq> suffix_len then False
        else suffix_length host = suffix_len)"

definition match_certificate_name :: "cert_env \<Rightarrow> cert_context \<Rightarrow> wstring \<Rightarrow> bool" where
  "match_certificate_name env c required =
     (case alt_entries env c of
        Some entries \<Rightarrow> list_ex (\<lambda>e. case e of Some n \<Rightarrow> dns_name_matches env required n | None \<Rightarrow> False) entries
      | None \<Rightarrow> (case common_name env c of None \<Rightarrow> False | Some n \<Rightarrow> dns_name_matches env required n))"

section \<open>Choosing a server certificate\<close>

text \<open>
  The search loop: the first certificate that is named, matches and is not self-signed ends it; the
  first self-signed one that matches is kept.
\<close>

fun server_scan :: "cert_env \<Rightarrow> wstring \<Rightarrow> cert_context list \<Rightarrow> cert_context option
    \<Rightarrow> cert_context option \<times> cert_context option" where
  "server_scan env name [] saved = (None, saved)"
| "server_scan env name (c # cs) saved =
     (if friendly_name env c = None then server_scan env name cs saved
      else if subject_name env c = None then server_scan env name cs saved
      else if \<not> match_certificate_name env c name then server_scan env name cs saved
      else if self_issued env c
      then server_scan env name cs (if saved = None then Some c else saved)
      else (Some c, saved))"

text \<open>A search that is given a certificate starts behind it.\<close>

definition search_from :: "cert_context option \<Rightarrow> cert_context list \<Rightarrow> cert_context list" where
  "search_from start cs = (case start of None \<Rightarrow> cs | Some c \<Rightarrow> tl (dropWhile (\<lambda>d. d \<noteq> c) cs))"

section \<open>Creating a certificate\<close>

text \<open>
  The calls \<open>CreateCertificate\<close> makes, in order. Windows answers each with success or failure; the
  first failure ends the creation, except that a missing key container is created.
\<close>

datatype creation_call =
    Acquire_Container bool
  | New_Container
  | Generate_Key
  | Encode_Name wstring
  | Self_Sign
  | Add_Usage string
  | Set_Friendly_Name wstring
  | Set_Description wstring
  | Open_For_Writing store_kind
  | Add_To_Store
  | Acquire_Private_Key

definition wide :: "string \<Rightarrow> wstring" where
  "wide s = widen s"

fun run_calls :: "(creation_call \<Rightarrow> bool) \<Rightarrow> creation_call list \<Rightarrow> creation_call list \<times> bool" where
  "run_calls ok [] = ([], True)"
| "run_calls ok (c # cs) = (if ok c then (let (done, r) = run_calls ok cs in (c # done, r)) else ([c], False))"

definition creation_steps ::
    "bool \<Rightarrow> wstring option \<Rightarrow> wstring option \<Rightarrow> wstring option \<Rightarrow> bool \<Rightarrow> creation_call list" where
  "creation_steps use_machine subject friendly description for_client =
     (let x500 = wide ''CN='' @ (case subject of Some s \<Rightarrow> s | None \<Rightarrow> wide ''localuser'') in
      [Generate_Key, Encode_Name x500, Encode_Name x500, Self_Sign,
       Add_Usage (if for_client then client_auth else server_auth),
       Set_Friendly_Name (case friendly of Some n \<Rightarrow> n | None \<Rightarrow> wide ''SSLStream Testing''),
       Set_Description (case description of Some d \<Rightarrow> d
          | None \<Rightarrow> wide (if for_client then ''SSL Stream Client Test created automatically''
                          else ''SSLStream Server Test created automatically'')),
       Open_For_Writing (if use_machine then Machine_Store else User_Store), Add_To_Store,
       Acquire_Private_Key])"

definition create_certificate ::
    "(creation_call \<Rightarrow> bool) \<Rightarrow> bool \<Rightarrow> wstring option \<Rightarrow> wstring option \<Rightarrow> wstring option \<Rightarrow> bool
     \<Rightarrow> creation_call list \<times> bool" where
  "create_certificate ok use_machine subject friendly description for_client =
     (let steps = creation_steps use_machine subject friendly description for_client in
      if ok (Acquire_Container use_machine)
      then (let (done, r) = run_calls ok steps in (Acquire_Container use_machine # done, r))
      else (let (done, r) = run_calls ok (New_Container # steps) in (Acquire_Container use_machine # done, r)))"

section \<open>The searches\<close>

text \<open>
  Each search gives its status and the certificate it leaves in its reference argument. \<open>create_for\<close> is the
  certificate \<open>CreateCertificate\<close> makes for a store and a subject, or its error.
\<close>

definition cert_find_server_by_name :: "cert_env \<Rightarrow> (bool \<Rightarrow> wstring \<Rightarrow> nat + cert_context)
    \<Rightarrow> cert_context option \<Rightarrow> wstring option \<Rightarrow> bool \<Rightarrow> store_cache
    \<Rightarrow> nat \<times> cert_context option \<times> store_cache" where
  "cert_find_server_by_name env create_for start subject use_user cache =
     (case subject of
        None \<Rightarrow> (e_pointer, start, cache)
      | Some [] \<Rightarrow> (e_pointer, start, cache)
      | Some name \<Rightarrow>
          (let (h, cache1) = get_store env use_user cache in
           if \<not> succeeded h then (h, start, cache1)
           else let (perfect, saved) =
                      server_scan env name (search_from start (with_usage env (store_of use_user) server_auth)) None;
                    attached = (if perfect \<noteq> None then perfect else start);
                    chosen = (if saved \<noteq> None \<and> attached = None then saved else attached)
             in if chosen \<noteq> None then (0, chosen, cache1)
                else if find_error env = crypt_e_not_found
                then (case create_for (\<not> use_user) name of
                        Inl err \<Rightarrow> (hresult_from_win32 err, None, cache1)
                      | Inr c \<Rightarrow> (0, Some c, cache1))
                else (hresult_from_win32 (find_error env), None, cache1)))"

text \<open>\<open>wcsncmp\<close> over 128 characters of two terminated strings.\<close>

definition same_name :: "wstring \<Rightarrow> wstring \<Rightarrow> bool" where
  "same_name a b \<longleftrightarrow> take 128 (a @ [0]) = take 128 (b @ [0])"

fun client_scan :: "cert_env \<Rightarrow> wstring option \<Rightarrow> cert_context list \<Rightarrow> cert_context option \<Rightarrow> cert_context option" where
  "client_scan env name [] best = best"
| "client_scan env name (c # cs) best =
     (if friendly_name env c = None then client_scan env name cs best
      else case subject_name env c of
          None \<Rightarrow> client_scan env name cs best
        | Some subject \<Rightarrow>
            if \<not> private_key env c then client_scan env name cs best
            else (case name of
                    None \<Rightarrow> Some c
                  | Some n \<Rightarrow> if same_name subject n then Some c else client_scan env name cs (Some c)))"

definition cert_find_client :: "cert_env \<Rightarrow> wstring option \<Rightarrow> bool \<Rightarrow> cert_context option \<Rightarrow> store_cache
    \<Rightarrow> nat \<times> cert_context option \<times> store_cache" where
  "cert_find_client env name use_user start cache =
     (let (h, cache1) = get_store env use_user cache in
      if \<not> succeeded h then (h, start, cache1)
      else case client_scan env name (with_usage env (store_of use_user) client_auth) None of
          None \<Rightarrow> (hresult_from_win32 (find_error env), None, cache1)
        | Some c \<Rightarrow> (0, Some c, cache1))"

definition cert_find_from_issuers :: "cert_env \<Rightarrow> string list \<Rightarrow> bool \<Rightarrow> store_cache
    \<Rightarrow> nat \<times> cert_context option \<times> store_cache" where
  "cert_find_from_issuers env issuers use_user cache =
     (let (h, cache1) = get_store env use_user cache in
      if \<not> succeeded h then (h, None, cache1)
      else case chain_leaf env (store_of use_user) issuers of
          None \<Rightarrow> (hresult_from_win32 (find_error env), None, cache1)
        | Some c \<Rightarrow> (0, Some c, cache1))"

definition cert_find_by_name :: "cert_env \<Rightarrow> wstring option \<Rightarrow> bool \<Rightarrow> store_cache
    \<Rightarrow> nat \<times> cert_context option \<times> store_cache" where
  "cert_find_by_name env subject use_user cache =
     (let (h, cache1) = get_store env use_user cache in
      if \<not> succeeded h then (h, None, cache1)
      else case subject of
          None \<Rightarrow> (1, None, cache1)
        | Some name \<Rightarrow>
            (case with_subject env (store_of use_user) name of
               Some c \<Rightarrow> (0, Some c, cache1)
             | None \<Rightarrow> (hresult_from_win32 (find_error env), None, cache1)))"

text \<open>\<open>SelectClientCertificate\<close>, the hook the TLS client calls; no issuer list is \<open>None\<close>.\<close>

definition select_client_certificate :: "cert_env \<Rightarrow> cert_context option \<Rightarrow> string list option \<Rightarrow> bool \<Rightarrow> store_cache
    \<Rightarrow> nat \<times> cert_context option \<times> store_cache" where
  "select_client_certificate env start issuers required cache =
     (if \<not> required then (sec_e_cert_unknown, start, cache)
      else let (h, c, cache1) =
                 (case issuers of
                    Some is \<Rightarrow> if is \<noteq> [] then cert_find_from_issuers env is False cache
                               else (sec_e_cert_unknown, start, cache)
                  | None \<Rightarrow> (sec_e_cert_unknown, start, cache))
           in if c = None then cert_find_client env None True c cache1 else (h, c, cache1))"

definition valid_server_cert :: "cert_env \<Rightarrow> cert_context \<Rightarrow> wstring \<Rightarrow> bool" where
  "valid_server_cert env c name =
     (if \<not> match_certificate_name env c name then False
      else if key_info_missing env c then False
      else case enhanced_usages env c of
          None \<Rightarrow> True
        | Some us \<Rightarrow> list_ex (\<lambda>u. u = server_auth) us)"

section \<open>Thumbprints\<close>

definition hex_char_to_int :: "char \<Rightarrow> int" where
  "hex_char_to_int c =
     (let b = int (byte c) in
      if 48 \<le> b \<and> b \<le> 57 then b - 48
      else if 65 \<le> b \<and> b \<le> 70 then 10 + b - 65
      else if 97 \<le> b \<and> b \<le> 102 then 10 + b - 97
      else -1)"

text \<open>
  The loop of \<open>hexToBinary\<close>: the value of a character is cast to a byte before it is compared with 0,
  so every character counts as a digit; the distance it tests is never positive.
\<close>

fun hex_loop :: "string \<Rightarrow> bool \<Rightarrow> u8 \<Rightarrow> u8 list \<Rightarrow> nat \<Rightarrow> u8 list" where
  "hex_loop [] high acc out i = out"
| "hex_loop (c # s) high acc out i =
     (if c = CHR 0x00 \<or> length out \<le> i then out
      else let nibble = word_of_int (hex_char_to_int c) in
        if \<not> high then hex_loop s True (push_bit 4 nibble) out i
        else hex_loop s False acc (out[i := acc OR nibble]) (i + 1))"

definition hex_to_binary :: "string \<Rightarrow> u8 list" where
  "hex_to_binary str = hex_loop str False 0 (replicate 20 0) 0"

definition cert_find_by_signature :: "cert_env \<Rightarrow> string \<Rightarrow> bool \<Rightarrow> store_cache
    \<Rightarrow> nat \<times> cert_context option \<times> store_cache" where
  "cert_find_by_signature env signature use_user cache =
     (let b = hex_to_binary signature in
      if length b \<noteq> 20 then (sec_e_invalid_parameter, None, cache)
      else let (h, cache1) = get_store env use_user cache in
        if \<not> succeeded h then (h, None, cache1)
        else case with_hash env (store_of use_user) (map (\<lambda>w. chr_of (unat w)) b) of
            None \<Rightarrow> (sec_e_cert_unknown, None, cache1)
          | Some c \<Rightarrow>
              if friendly_name env c = None then (hresult_from_win32 (find_error env), Some c, cache1)
              else (0, Some c, cache1))"

section \<open>Trust\<close>

text \<open>
  \<open>CertTrusted\<close>: the chain cannot be built (the plain error code), the policy cannot be evaluated
  (its code as an \<open>HRESULT\<close>), or the policy answers; any policy error gives \<open>S_FALSE\<close>.
\<close>

definition cert_trusted :: "cert_env \<Rightarrow> cert_context \<Rightarrow> bool \<Rightarrow> nat" where
  "cert_trusted env c is_client =
     (case trust_chain env c is_client of
        Inl err \<Rightarrow> err
      | Inr (Inl err) \<Rightarrow> hresult_from_win32 err
      | Inr (Inr policy) \<Rightarrow> if policy \<noteq> 0 then 1 else 0)"

section \<open>Which certificate a search returns\<close>

definition usable_client :: "cert_env \<Rightarrow> cert_context \<Rightarrow> bool" where
  "usable_client env c \<longleftrightarrow> friendly_name env c \<noteq> None \<and> subject_name env c \<noteq> None \<and> private_key env c"

definition ideal_client :: "cert_env \<Rightarrow> wstring option \<Rightarrow> cert_context \<Rightarrow> bool" where
  "ideal_client env name c \<longleftrightarrow> (case name of None \<Rightarrow> True
     | Some n \<Rightarrow> (case subject_name env c of None \<Rightarrow> False | Some s \<Rightarrow> same_name s n))"

lemma client_scan_choice:
  "client_scan env name cs best =
     (case find (ideal_client env name) (filter (usable_client env) cs) of
        Some c \<Rightarrow> Some c
      | None \<Rightarrow> if filter (usable_client env) cs = [] then best else Some (last (filter (usable_client env) cs)))"
proof (induction cs arbitrary: best)
  case (Cons c cs)
  then show ?case
    by (cases "friendly_name env c"; cases "subject_name env c"; cases name)
      (simp_all add: usable_client_def ideal_client_def split: option.splits)
qed simp

text \<open>
  C32. The client certificate chosen from a store is the first usable one whose subject is the one asked
  for, or else the last usable one: one with readable names and an accessible private key. Without
  any, the search ends with the store's error and no certificate.
\<close>

theorem client_certificate_choice:
  assumes "open_store env (store_of use_user) = None"
  shows "cert_find_client env name use_user start [] =
    (let usable = filter (usable_client env) (with_usage env (store_of use_user) client_auth) in
     case find (ideal_client env name) usable of
       Some c \<Rightarrow> (0, Some c, [store_of use_user])
     | None \<Rightarrow> if usable = [] then (hresult_from_win32 (find_error env), None, [store_of use_user])
               else (0, Some (last usable), [store_of use_user]))"
  using assms
  by (auto simp: cert_find_client_def get_store_def client_scan_choice succeeded_def Let_def split: option.splits)

definition usable_server :: "cert_env \<Rightarrow> wstring \<Rightarrow> cert_context \<Rightarrow> bool" where
  "usable_server env name c \<longleftrightarrow>
     friendly_name env c \<noteq> None \<and> subject_name env c \<noteq> None \<and> match_certificate_name env c name"

lemma server_scan_choice:
  "server_scan env name cs saved =
     (let usable = filter (usable_server env name) cs;
          perfect = find (\<lambda>c. \<not> self_issued env c) usable
      in (perfect, if saved \<noteq> None then saved
                   else find (self_issued env) (takeWhile (\<lambda>c. self_issued env c) usable)))"
proof (induction cs arbitrary: saved)
  case (Cons c cs)
  then show ?case
    by (cases "friendly_name env c"; cases "subject_name env c"; cases "match_certificate_name env c name"; cases "self_issued env c")
      (simp_all add: usable_server_def Let_def)
qed simp

lemma server_certificate_choice:
  assumes "open_store env (store_of use_user) = None" and "name \<noteq> []"
    and "find (\<lambda>c. \<not> self_issued env c) (filter (usable_server env name) (with_usage env (store_of use_user) server_auth))
      = Some c"
  shows "cert_find_server_by_name env create_for None (Some name) use_user [] = (0, Some c, [store_of use_user])"
  using assms
  by (cases name) (auto simp: cert_find_server_by_name_def get_store_def server_scan_choice search_from_def
      succeeded_def Let_def)

section \<open>The wildcard test\<close>

lemma suffix_length_split: "46 \<notin> set a \<Longrightarrow> length (a @ 46 # b) < 2 ^ 64 \<Longrightarrow> suffix_length (a @ 46 # b) = length b + 1"
proof -
  assume a: "46 \<notin> set a" "length (a @ 46 # b) < 2 ^ 64"
  have "takeWhile (\<lambda>w. w \<noteq> 46) (a @ 46 # b) = a" using a(1) by (subst takeWhile_append2) auto
  moreover have "sz_sub (length (a @ 46 # b)) (length a) = length b + 1"
    using sz_sub_le [OF _ a(2), of "length a"] by simp
  ultimately show ?thesis by (simp add: suffix_length_def find_dot_def)
qed

text \<open>
  A wildcard name matches every host whose part behind the first dot is as long as the wildcard's:
  the characters of the domain are not compared.
\<close>

theorem wildcard_compares_lengths:
  assumes "46 \<notin> set label" and "length domain = length other" and "length (label @ 46 # domain) < 2 ^ 64"
    and "length other + 2 < 2 ^ 64"
  shows "dns_name_matches env (label @ 46 # domain) (42 # 46 # other)"
proof -
  have "suffix_length (label @ 46 # domain) = length domain + 1" by (rule suffix_length_split [OF assms(1,3)])
  moreover have "suffix_length ([42] @ 46 # other) = length other + 1"
    by (rule suffix_length_split) (use assms(4) in simp_all)
  ultimately show ?thesis using assms(2) by (simp add: dns_name_matches_def)
qed

section \<open>Thumbprints read back\<close>

definition byte_digits :: "u8 \<Rightarrow> string" where
  "byte_digits w = [digit_chr (unat w div 16), digit_chr (unat w mod 16)]"

lemma hex_value: "d < 16 \<Longrightarrow> hex_char_to_int (digit_chr d) = int d \<and> digit_chr d \<noteq> CHR 0x00"
proof -
  assume d: "d < 16"
  then have "byte (digit_chr d) \<noteq> byte (CHR 0x00)" by (simp add: byte_digit_chr) (simp add: byte_def)
  then have "digit_chr d \<noteq> CHR 0x00" by metis
  with d show ?thesis by (auto simp: hex_char_to_int_def byte_digit_chr Let_def)
qed

lemma join_digits: "push_bit 4 (word_of_nat (unat w div 16)) OR word_of_nat (unat w mod 16) = (w :: u8)"
proof -
  have "unat w < 2 ^ 8" using unsigned_less [of w] by simp
  then have "unat w div 16 < 256" using div_le_dividend [of "unat w" 16] by simp
  have "push_bit 4 (drop_bit 4 w) OR take_bit 4 w = w" by (rule bit_eqI) (auto simp: bit_simps)
  moreover have "drop_bit 4 w = word_of_nat (unat w div 16)" "take_bit 4 w = word_of_nat (unat w mod 16)"
    using \<open>unat w div 16 < 256\<close>
    by (simp_all add: word_unat_eq_iff unsigned_drop_bit_eq unsigned_take_bit_eq drop_bit_eq_div take_bit_eq_mod
        unat_of_nat unat_div_distrib unat_mod_distrib)
  ultimately show ?thesis by simp
qed

lemma hex_loop_digits:
  "i + length ws \<le> length out \<Longrightarrow>
   hex_loop (concat (map byte_digits ws)) False acc out i = take i out @ ws @ drop (i + length ws) out"
proof (induction ws arbitrary: i out acc)
  case (Cons w ws)
  have "unat w < 2 ^ 8" using unsigned_less [of w] by simp
  then have d: "unat w div 16 < 16" "unat w mod 16 < 16" by simp_all
  note h = hex_value [OF d(1)] hex_value [OF d(2)]
  have i: "i < length out" using Cons.prems by simp
  have "hex_loop (concat (map byte_digits (w # ws))) False acc out i =
      hex_loop (concat (map byte_digits ws)) False (push_bit 4 (word_of_int (int (unat w div 16)))) (out[i := w]) (i + 1)"
    using h i join_digits [of w] by (simp add: byte_digits_def)
  also have "\<dots> = take (i + 1) (out[i := w]) @ ws @ drop (i + 1 + length ws) (out[i := w])"
    using Cons.prems by (intro Cons.IH) simp
  also have "\<dots> = take i out @ (w # ws) @ drop (i + length (w # ws)) out"
    using i by (simp add: take_Suc_conv_app_nth)
  finally show ?case .
qed simp

text \<open>A thumbprint of twenty bytes written in hexadecimal is read back by \<open>hexToBinary\<close>.\<close>

theorem thumbprint_round_trip:
  assumes "length ws = 20"
  shows "hex_to_binary (concat (map byte_digits ws)) = ws"
  using hex_loop_digits [of 0 ws "replicate 20 0" 0] assms by (simp add: hex_to_binary_def)

section \<open>Creation\<close>

lemma run_calls_done: "run_calls ok cs = (done, r) \<Longrightarrow> (r \<longleftrightarrow> list_all ok cs) \<and> prefix done cs \<and> (r \<longrightarrow> done = cs)"
  by (induction cs arbitrary: "done" r) (auto split: if_splits prod.splits)

lemma creation_succeeds:
  "snd (create_certificate ok m s f d cl) \<longleftrightarrow>
     (ok (Acquire_Container m) \<or> ok New_Container) \<and> list_all ok (creation_steps m s f d cl)"
proof -
  obtain done1 r1 done2 r2 where
    r: "run_calls ok (creation_steps m s f d cl) = (done1, r1)"
      "run_calls ok (New_Container # creation_steps m s f d cl) = (done2, r2)" by (metis surj_pair)
  show ?thesis using run_calls_done [OF r(1)] run_calls_done [OF r(2)] r
    by (auto simp: create_certificate_def Let_def split: if_splits)
qed

section \<open>Witnesses\<close>

definition demo_env :: cert_env where
  "demo_env = \<lparr>dns_compare = (=), alt_entries = (\<lambda>c. None), common_name = (\<lambda>c. None),
     friendly_name = (\<lambda>c. Some []), subject_name = (\<lambda>c. Some (widen (the (cert_encoded c)))),
     self_issued = (\<lambda>c. False), private_key = (\<lambda>c. True), key_info_missing = (\<lambda>c. False),
     enhanced_usages = (\<lambda>c. None), trust_chain = (\<lambda>c b. Inr (Inr 0)), open_store = (\<lambda>k. None),
     with_usage = (\<lambda>k u. [context_of ''a'', context_of ''b'']), with_subject = (\<lambda>k n. None),
     with_hash = (\<lambda>k h. None), chain_leaf = (\<lambda>k is. None), find_error = 0x80092004\<rparr>"

theorem client_certificate_choice_witness:
  "cert_find_client demo_env (Some (widen ''b'')) True None [] = (0, Some (context_of ''b''), [User_Store])"
  by (subst client_certificate_choice)
    (simp_all add: demo_env_def store_of_def usable_client_def ideal_client_def same_name_def widen_def
      context_of_def byte_def)

theorem wildcard_compares_lengths_witness:
  "dns_name_matches demo_env (widen ''a.evil.com'') (widen ''*.bank.com'')"
  using wildcard_compares_lengths [of "widen ''a''" "widen ''evil.com''" "widen ''bank.com''" demo_env]
  by (simp add: widen_def byte_def)

theorem thumbprint_round_trip_witness:
  "hex_to_binary (concat (map byte_digits (replicate 20 0x5A))) = replicate 20 0x5A"
  by (rule thumbprint_round_trip) simp

end
