(* ===== verification/SslClient.thy ===== *)
theory SslClient imports CertHelper TlsVerify LuaValue begin

text \<open>
  \<open>CSSLClient\<close> (\<open>socket/SSLClient.cpp\<close>), the TLS client over an overlapped socket. Schannel is not
  part of the repository: the calls the code makes to it are the fields of \<open>sspi\<close>, over an abstract
  security context \<open>'c\<close>; an invalid handle is \<open>None\<close>. The buffers, the pointer into the read buffer and
  the counts are explicit; what the code would read or write outside a buffer is \<open>Undefined\<close>.
\<close>

section \<open>Schannel\<close>

text \<open>
  Schannel reports what it found in its input as up to three buffers: a type, the offset from the start
  of the input and a count. Decryption works in place: \<open>dec_region\<close> is the input as it leaves it.
\<close>

record sec_buffer =
  sb_type :: nat
  sb_at :: nat
  sb_count :: nat

definition secbuffer_data :: nat where "secbuffer_data = 1"
definition secbuffer_extra :: nat where "secbuffer_extra = 5"

record 'c decrypt_answer =
  dec_status :: nat
  dec_region :: string
  dec_buffers :: "sec_buffer list"
  dec_context :: "'c option"

record 'c handshake_answer =
  isc_status :: nat
  isc_token :: "string option"
  isc_extra :: "nat option"
  isc_extended_error :: bool
  isc_context :: "'c option"

record stream_sizes =
  cb_header :: nat
  cb_trailer :: nat
  cb_maximum :: nat

type_synonym creds = "cert_context option option"

record 'c sspi =
  interface_error :: "nat option"
  acquire :: "cert_context option \<Rightarrow> nat"
  first_token :: "creds \<Rightarrow> wstring \<Rightarrow> 'c handshake_answer"
  next_token :: "creds \<Rightarrow> 'c option \<Rightarrow> string \<Rightarrow> 'c handshake_answer"
  remote_cert :: "'c option \<Rightarrow> nat + cert_context"
  query_sizes :: "'c option \<Rightarrow> nat + stream_sizes"
  query_issuers :: "'c option \<Rightarrow> nat + string list"
  query_extended :: "'c option \<Rightarrow> (nat \<times> nat) option"
  decrypt :: "'c option \<Rightarrow> string \<Rightarrow> 'c decrypt_answer"
  encrypt :: "'c option \<Rightarrow> stream_sizes \<Rightarrow> string \<Rightarrow> nat \<times> string \<times> 'c option"
  apply_control :: "'c option \<Rightarrow> nat \<times> 'c option"
  shutdown_token :: "creds \<Rightarrow> 'c option \<Rightarrow> 'c handshake_answer"
  wsa_last_error :: nat

text \<open>
  Status values of Schannel and error codes; \<open>FAILED\<close> is a status with its top bit set.
\<close>

definition sec_i_continue_needed :: nat where "sec_i_continue_needed = 0x00090312"
definition sec_i_context_expired :: nat where "sec_i_context_expired = 0x00090317"
definition sec_i_incomplete_credentials :: nat where "sec_i_incomplete_credentials = 0x00090320"
definition sec_e_incomplete_message :: nat where "sec_e_incomplete_message = 0x80090318"
definition sec_e_internal_error :: nat where "sec_e_internal_error = 0x80090304"
definition sec_e_unknown_credentials :: nat where "sec_e_unknown_credentials = 0x8009030D"
definition crypt_e_file_error :: nat where "crypt_e_file_error = 0x80092003"
definition error_file_not_encrypted :: nat where "error_file_not_encrypted = 6002"
definition wsasyscallfailure :: nat where "wsasyscallfailure = 10107"
definition wsaemsgsize :: nat where "wsaemsgsize = 10040"

abbreviation failed :: "nat \<Rightarrow> bool" where
  "failed h \<equiv> \<not> succeeded h"

definition max_msg_size :: nat where "max_msg_size = 16000"
definition write_buffer_size :: nat where "write_buffer_size = 16050"
definition read_buffer_size :: nat where "read_buffer_size = 32100"
definition plain_text_size :: nat where "plain_text_size = 32000"

section \<open>State\<close>

text \<open>
  \<open>read_off\<close> is the distance of the read pointer from the start of the read buffer; the plaintext that
  is still to be delivered (a pointer and a count) is the string \<open>plain_pending\<close>.
\<close>

record 'c ssl_client =
  ssl_stream :: base_sock
  ssl_error :: nat
  ssl_encrypting :: bool
  read_buffer :: string
  read_off :: nat
  read_bytes :: nat
  plain_pending :: string
  ssl_context :: "'c option"
  ssl_creds :: creds
  ssl_sizes :: stream_sizes
  cert_name_matches :: bool
  cert_is_trusted :: bool
  ssl_status :: nat
  ssl_extended :: wstring

definition new_ssl_client :: "base_sock \<Rightarrow> 'c ssl_client" where
  "new_ssl_client sock = \<lparr>ssl_stream = sock, ssl_error = 0, ssl_encrypting = False,
     read_buffer = replicate read_buffer_size (CHR 0x00), read_off = 0, read_bytes = 0, plain_pending = [],
     ssl_context = None, ssl_creds = None,
     ssl_sizes = \<lparr>cb_header = 0, cb_trailer = 0, cb_maximum = 0\<rparr>,
     cert_name_matches = False, cert_is_trusted = False, ssl_status = 0, ssl_extended = []\<rparr>"

definition get_last_error :: "'c ssl_client \<Rightarrow> nat" where
  "get_last_error s = (if ssl_error s \<noteq> 0 then ssl_error s else last_error (ssl_stream s))"

text \<open>
  The text of an extended error is read into a buffer that is never handed to Schannel, so the test of
  its first character sees the zero the buffer was made with.
\<close>

definition capture_extended_error :: "'c sspi \<Rightarrow> 'c ssl_client \<Rightarrow> 'c ssl_client" where
  "capture_extended_error api s =
     (let s1 = s\<lparr>ssl_extended := []\<rparr> in
      if ssl_context s = None then s1
      else case query_extended api (ssl_context s) of
          None \<Rightarrow> s1
        | Some (version, cb_string) \<Rightarrow>
            if version \<noteq> 1 then s1
            else if cb_string = 0 \<or> 8192 < cb_string then s1
            else let text = replicate cb_string 0 in
              if query_extended api (ssl_context s) \<noteq> None \<and> text ! 0 \<noteq> 0
              then s1\<lparr>ssl_extended := takeWhile (\<lambda>w. w \<noteq> 0) text\<rparr> else s1)"

definition set_ssl_recv_timeout :: "int \<Rightarrow> bool \<Rightarrow> 'c ssl_client \<Rightarrow> 'c ssl_client" where
  "set_ssl_recv_timeout n automatic s =
     s\<lparr>ssl_stream := set_recv_timeout_seconds n automatic (ssl_stream s)\<rparr>"

definition set_ssl_send_timeout :: "int \<Rightarrow> bool \<Rightarrow> 'c ssl_client \<Rightarrow> 'c ssl_client" where
  "set_ssl_send_timeout n automatic s =
     s\<lparr>ssl_stream := set_send_timeout_seconds n automatic (ssl_stream s)\<rparr>"

definition ssl_start_recv_timer :: "'c ssl_client \<Rightarrow> 'c ssl_client" where
  "ssl_start_recv_timer s = s\<lparr>ssl_stream := start_recv_timer (ssl_stream s)\<rparr>"

definition ssl_start_send_timer :: "'c ssl_client \<Rightarrow> 'c ssl_client" where
  "ssl_start_send_timer s = s\<lparr>ssl_stream := start_send_timer (ssl_stream s)\<rparr>"

section \<open>Receiving\<close>

definition live_bytes :: "'c ssl_client \<Rightarrow> string" where
  "live_bytes s = substr (read_buffer s) (read_off s) (read_bytes s)"

definition decrypt_saved :: "'c sspi \<Rightarrow> 'c ssl_client \<Rightarrow> 'c decrypt_answer \<times> 'c ssl_client" where
  "decrypt_saved api s =
     (let a = decrypt api (ssl_context s) (live_bytes s) in
      (a, s\<lparr>ssl_context := dec_context a,
            read_buffer := take (read_off s) (read_buffer s) @ dec_region a
              @ drop (read_off s + read_bytes s) (read_buffer s)\<rparr>))"

definition no_message :: "'c option \<Rightarrow> 'c decrypt_answer" where
  "no_message c = \<lparr>dec_status = sec_e_incomplete_message, dec_region = [], dec_buffers = [], dec_context = c\<rparr>"

text \<open>
  Making room: with no space behind the data it is moved to the start of the buffer. \<open>None\<close> is a full
  buffer; otherwise the space for the next read is given too.
\<close>

definition make_room :: "'c ssl_client \<Rightarrow> (nat \<times> 'c ssl_client) option" where
  "make_room s =
     (let free_at_start = read_off s; free_at_end = read_buffer_size - read_bytes s - free_at_start in
      if free_at_end \<noteq> 0 then Some (free_at_end, s)
      else if 0 < free_at_start
      then Some (free_at_start, s\<lparr>read_off := 0,
             read_buffer := drop free_at_start (read_buffer s)
               @ drop (length (read_buffer s) - free_at_start) (read_buffer s)\<rparr>)
      else None)"

lemma decrypt_saved_frame:
  "decrypt_saved api s = (a, s') \<Longrightarrow> read_bytes s' = read_bytes s \<and> read_off s' = read_off s
    \<and> ssl_stream s' = ssl_stream s \<and> ssl_encrypting s' = ssl_encrypting s \<and> plain_pending s' = plain_pending s"
  by (auto simp: decrypt_saved_def Let_def)

lemma make_room_frame: "make_room s = Some (free, s') \<Longrightarrow> read_bytes s' = read_bytes s \<and> ssl_stream s' = ssl_stream s"
  by (auto simp: make_room_def Let_def split: if_splits)

text \<open>
  The read loop: the answer that ends it (on the left, with the value returned), or the answer of
  Schannel to a whole message. A count that leaves the buffer is \<open>Undefined\<close>.
\<close>

function decrypt_loop ::
    "'c sspi \<Rightarrow> 'c decrypt_answer \<Rightarrow> 'c ssl_client
     \<Rightarrow> ((int \<times> 'c ssl_client) + ('c decrypt_answer \<times> 'c ssl_client)) result" where
  "decrypt_loop api a s =
     (if dec_status a \<noteq> sec_e_incomplete_message then Inr (Inr (a, s))
      else case make_room s of
          None \<Rightarrow> Inr (Inl (-1, s))
        | Some (free, s1) \<Rightarrow>
            (case recv (read_off s1 + read_bytes s1) free 1 (ssl_stream s1) of
               (err, ws, sock) \<Rightarrow>
                 let s2 = s1\<lparr>ssl_stream := sock, ssl_error := 0,
                             read_buffer := apply_writes 0 (read_buffer s1) ws\<rparr> in
                 if err = 0 then Inr (Inl (0, s2\<lparr>ssl_encrypting := False, ssl_error := 0\<rparr>))
                 else if err = -1 then Inr (Inl (-1, s2))
                 else if err < 0 \<or> read_buffer_size < read_off s1 + read_bytes s1 + nat err then Inl Undefined
                 else case decrypt_saved api (s2\<lparr>read_bytes := read_bytes s1 + nat err\<rparr>) of
                     (a1, s3) \<Rightarrow> decrypt_loop api a1 s3))"
  by pat_completeness auto

termination
  by (relation "measure (\<lambda>(api, a, s). read_buffer_size - read_bytes s)")
    (auto dest!: make_room_frame decrypt_saved_frame split: prod.splits)

declare decrypt_loop.simps [simp del]

definition take_plain :: "nat \<Rightarrow> 'c ssl_client \<Rightarrow> int \<times> string \<times> 'c ssl_client" where
  "take_plain len s =
     (let n = length (plain_pending s) in
      if n \<le> len then (to_int32 (int n), plain_pending s, s\<lparr>plain_pending := []\<rparr>)
      else (to_int32 (int len), take len (plain_pending s), s\<lparr>plain_pending := drop len (plain_pending s)\<rparr>))"

text \<open>What is done with a decrypted message: the value returned, the bytes copied out, the state.\<close>

definition deliver :: "nat \<Rightarrow> 'c decrypt_answer \<Rightarrow> 'c ssl_client \<Rightarrow> int \<times> string \<times> 'c ssl_client" where
  "deliver len a s =
     (if dec_status a = sec_i_context_expired then (0, [], s\<lparr>ssl_encrypting := False, ssl_error := 0\<rparr>)
      else if dec_status a \<noteq> 0 then (-1, [], s\<lparr>ssl_error := dec_status a\<rparr>)
      else case find (\<lambda>b. sb_type b = secbuffer_data) (dec_buffers a) of
          None \<Rightarrow> (-1, [], s\<lparr>ssl_error := wsasyscallfailure\<rparr>)
        | Some d \<Rightarrow>
            (let text = substr (read_buffer s) (read_off s + sb_at d) (sb_count d);
                 given = take len text;
                 rest = drop len text
             in if plain_text_size < length rest
                then (-1, given, s\<lparr>plain_pending := replicate (length rest) (CHR 0x00), ssl_error := wsaemsgsize\<rparr>)
                else let s1 = (if rest = [] then s else s\<lparr>plain_pending := rest\<rparr>) in
                  (to_int32 (int (length given)), given,
                   case find (\<lambda>b. sb_type b = secbuffer_extra) (dec_buffers a) of
                     Some e \<Rightarrow> s1\<lparr>read_bytes := sb_count e, read_off := read_off s + sb_at e\<rparr>
                   | None \<Rightarrow> s1\<lparr>read_bytes := 0, read_off := 0\<rparr>)))"

definition recv_partial_encrypted ::
    "'c sspi \<Rightarrow> nat \<Rightarrow> 'c ssl_client \<Rightarrow> (int \<times> string \<times> 'c ssl_client) result" where
  "recv_partial_encrypted api len s =
     (let (a, s1) = (if read_bytes s = 0 then (no_message (ssl_context s), s) else decrypt_saved api s) in
      bind_result (decrypt_loop api a (ssl_start_recv_timer s1)) (\<lambda>r. case r of
          Inl (n, s2) \<Rightarrow> Inr (n, [], s2)
        | Inr (a2, s2) \<Rightarrow> Inr (deliver len a2 s2)))"

definition ssl_recv :: "'c sspi \<Rightarrow> nat \<Rightarrow> 'c ssl_client \<Rightarrow> (int \<times> string \<times> 'c ssl_client) result" where
  "ssl_recv api len s =
     (if plain_pending s \<noteq> [] then Inr (take_plain len s)
      else if ssl_encrypting s then recv_partial_encrypted api len s
      else Inr (-1, [], s\<lparr>ssl_error := error_file_not_encrypted\<rparr>))"

section \<open>Sending\<close>

text \<open>
  One record. The header, the data and the trailer share the write buffer; when they do not fit, the
  copy is refused and Schannel writes the trailer behind the buffer.
\<close>

definition send_record :: "'c sspi \<Rightarrow> string \<Rightarrow> 'c ssl_client \<Rightarrow> (int \<times> 'c ssl_client) result" where
  "send_record api data s =
     (if \<not> ssl_encrypting s then Inr (-1, s\<lparr>ssl_error := error_file_not_encrypted\<rparr>)
      else if write_buffer_size < cb_header (ssl_sizes s) + length data + cb_trailer (ssl_sizes s)
      then Inl Undefined
      else case encrypt api (ssl_context s) (ssl_sizes s) data of
          (status, bytes, c) \<Rightarrow>
            let s1 = s\<lparr>ssl_context := c\<rparr> in
            if failed status then Inr (-1, s1\<lparr>ssl_error := status\<rparr>)
            else case send bytes (ssl_stream s1) of
                (err, sock) \<Rightarrow>
                  let s2 = s1\<lparr>ssl_stream := sock, ssl_error := 0\<rparr> in
                  if err = -1 then Inr (-1, s2) else Inr (to_int32 (int (length data)), s2))"

definition max_chunk :: "'c ssl_client \<Rightarrow> nat" where
  "max_chunk s =
     (let schannel = (if cb_maximum (ssl_sizes s) \<noteq> 0 then cb_maximum (ssl_sizes s) else max_msg_size)
      in if max_msg_size < schannel then max_msg_size else schannel)"

function send_records :: "'c sspi \<Rightarrow> nat \<Rightarrow> string \<Rightarrow> nat \<Rightarrow> 'c ssl_client \<Rightarrow> (int \<times> 'c ssl_client) result" where
  "send_records api chunk data done s =
     (if done < length data
      then bind_result (send_record api (substr data done (min chunk (length data - done))) s) (\<lambda>(sent, s1).
        if sent \<le> 0 then Inr (-1, s1)
        else send_records api chunk data (done + nat sent) s1)
      else Inr (to_int32 (int done), s))"
  by pat_completeness auto
termination
  by (relation "measure (\<lambda>(api, chunk, data, d, s). length data - d)") auto

declare send_records.simps [simp del]

definition ssl_send :: "'c sspi \<Rightarrow> string \<Rightarrow> 'c ssl_client \<Rightarrow> (int \<times> 'c ssl_client) result" where
  "ssl_send api data s =
     (if \<not> ssl_encrypting s then Inr (-1, s\<lparr>ssl_error := error_file_not_encrypted\<rparr>)
      else if max_chunk s < length data then send_records api (max_chunk s) data 0 s
      else send_record api data s)"

section \<open>A single read\<close>

text \<open>A read of at least one byte is one overlapped read.\<close>

lemma recv_one:
  assumes "\<not> recv_initiated s" and "len < 2 ^ 31" and "recv addr len 1 s = (r, ws, s')"
  shows "sent s' = sent s \<and>
    (r = -1 \<and> ws = [] \<and> wire s' = wire s
     \<or> r = 0 \<and> ws = [] \<and> wire s' = wire s \<and> \<not> recv_initiated s'
     \<or> (\<exists>d. d \<noteq> [] \<and> r = int (length d) \<and> length d \<le> len \<and> ws = [(addr, d)]
          \<and> wire s = d @ wire s' \<and> \<not> recv_initiated s'))"
proof -
  define t where "t = (if recv_timer_automatic s then start_recv_timer_internal s else s)"
  have t: "wire t = wire s" "sent t = sent s" "\<not> recv_initiated t" using assms(1) by (simp_all add: t_def)
  obtain r1 ws1 s1 where p: "recv_partial addr len t = (r1, ws1, s1)" by (metis prod_cases3)
  have sub: "sz_sub len 0 = len" using assms(2) by (intro trans [OF sz_sub_le]) simp_all
  have l: "recv_loop addr len 1 0 t = (r, ws, s')" using assms(3) by (simp add: recv_def t_def)
  note c = recv_partial_fresh [OF t(3) p]
  consider (bad) "r1 = -1" "ws1 = []" "wire s1 = wire t" "sent s1 = sent t"
    | (zero) "r1 = 0" "ws1 = []" "wire s1 = wire t" "sent s1 = sent t" "\<not> recv_initiated s1"
    | (data) d where "d \<noteq> []" "r1 = int (length d)" "length d \<le> len" "ws1 = [(addr, d)]"
        "wire t = d @ wire s1" "sent s1 = sent t" "\<not> recv_initiated s1"
    using c by blast
  then show ?thesis
  proof cases
    case bad
    then have "(r, ws, s') = (-1, ws1, s1)" using l p sub by (subst (asm) recv_loop.simps) simp
    then show ?thesis using bad t by simp
  next
    case zero
    then have "(r, ws, s') = (0, ws1, s1)" using l p sub by (subst (asm) recv_loop.simps) simp
    then show ?thesis using zero t by simp
  next
    case data
    have stop: "recv_loop addr len 1 (length d) s1 = (int (length d), [], s1)"
      using data(1) by (subst recv_loop.simps) simp
    have "(r, ws, s') = (r1, ws1, s1)"
      using l p sub stop data(1,2) by (subst (asm) recv_loop.simps) simp
    then show ?thesis using data t by simp
  qed
qed

section \<open>Receiving delivers the plaintext\<close>

text \<open>
  A peer sends records: the bytes on the wire and the plaintext of each. \<open>decrypts\<close> is what Schannel
  documents about a context and the records to come: a part of a record is incomplete and changes
  nothing, a whole one gives its plaintext inside the input and, behind it, what was read too much.
\<close>

definition opens :: "'c sspi \<Rightarrow> 'c option \<Rightarrow> string \<Rightarrow> string \<Rightarrow> 'c option \<Rightarrow> bool" where
  "opens api c ct pt c' \<longleftrightarrow>
     (\<forall>rest. let a = decrypt api c (ct @ rest) in
        dec_status a = 0 \<and> dec_context a = c' \<and> length (dec_region a) = length (ct @ rest)
        \<and> (\<exists>d. find (\<lambda>b. sb_type b = secbuffer_data) (dec_buffers a) = Some d
             \<and> substr (dec_region a) (sb_at d) (sb_count d) = pt \<and> sb_at d + sb_count d \<le> length ct)
        \<and> (case find (\<lambda>b. sb_type b = secbuffer_extra) (dec_buffers a) of
             None \<Rightarrow> rest = []
           | Some e \<Rightarrow> sb_at e = length ct \<and> sb_count e = length rest \<and> drop (length ct) (dec_region a) = rest))"

definition waits :: "'c sspi \<Rightarrow> 'c option \<Rightarrow> string \<Rightarrow> bool" where
  "waits api c ct \<longleftrightarrow>
     (\<forall>p. p \<noteq> [] \<and> strict_prefix p ct \<longrightarrow>
        dec_status (decrypt api c p) = sec_e_incomplete_message \<and> dec_region (decrypt api c p) = p
        \<and> dec_context (decrypt api c p) = c)"

fun decrypts :: "'c sspi \<Rightarrow> 'c option \<Rightarrow> (string \<times> string) list \<Rightarrow> bool" where
  "decrypts api c [] \<longleftrightarrow> True"
| "decrypts api c ((ct, pt) # rs) \<longleftrightarrow>
     ct \<noteq> [] \<and> length ct \<le> read_buffer_size \<and> length pt \<le> plain_text_size \<and> waits api c ct
     \<and> (\<exists>c'. opens api c ct pt c' \<and> decrypts api c' rs)"

definition in_sync :: "'c sspi \<Rightarrow> 'c ssl_client \<Rightarrow> (string \<times> string) list \<Rightarrow> bool" where
  "in_sync api s rs \<longleftrightarrow> length (read_buffer s) = read_buffer_size
     \<and> read_off s + read_bytes s \<le> read_buffer_size \<and> \<not> recv_initiated (ssl_stream s)
     \<and> decrypts api (ssl_context s) rs \<and> live_bytes s @ wire (ssl_stream s) = concat (map fst rs)"

definition plain_stream :: "'c ssl_client \<Rightarrow> (string \<times> string) list \<Rightarrow> string" where
  "plain_stream s rs = plain_pending s @ concat (map snd rs)"

lemma length_live: "length (read_buffer s) = read_buffer_size \<Longrightarrow> read_off s + read_bytes s \<le> read_buffer_size
    \<Longrightarrow> length (live_bytes s) = read_bytes s"
  by (simp add: live_bytes_def substr_def)

lemma ssl_start_recv_timer_frame [simp]:
  "wire (ssl_stream (ssl_start_recv_timer s)) = wire (ssl_stream s)"
  "recv_initiated (ssl_stream (ssl_start_recv_timer s)) = recv_initiated (ssl_stream s)"
  "read_buffer (ssl_start_recv_timer s) = read_buffer s" "read_off (ssl_start_recv_timer s) = read_off s"
  "read_bytes (ssl_start_recv_timer s) = read_bytes s" "plain_pending (ssl_start_recv_timer s) = plain_pending s"
  "ssl_context (ssl_start_recv_timer s) = ssl_context s"
  "live_bytes (ssl_start_recv_timer s) = live_bytes s"
  by (simp_all add: ssl_start_recv_timer_def start_recv_timer_def live_bytes_def)

text \<open>A whole record has been decrypted in the buffer, what follows it is still to come.\<close>

definition opened :: "'c sspi \<Rightarrow> 'c decrypt_answer \<Rightarrow> 'c ssl_client \<Rightarrow> (string \<times> string) list \<Rightarrow> bool" where
  "opened api a s rs \<longleftrightarrow>
     (\<exists>ct pt rs' rest d. rs = (ct, pt) # rs' \<and> dec_status a = 0
        \<and> find (\<lambda>b. sb_type b = secbuffer_data) (dec_buffers a) = Some d
        \<and> substr (read_buffer s) (read_off s + sb_at d) (sb_count d) = pt
        \<and> length pt \<le> plain_text_size
        \<and> (case find (\<lambda>b. sb_type b = secbuffer_extra) (dec_buffers a) of
             None \<Rightarrow> rest = []
           | Some e \<Rightarrow> sb_at e = length ct \<and> sb_count e = length rest)
        \<and> substr (read_buffer s) (read_off s + length ct) (length rest) = rest
        \<and> read_off s + length ct + length rest \<le> read_buffer_size
        \<and> length (read_buffer s) = read_buffer_size \<and> \<not> recv_initiated (ssl_stream s)
        \<and> decrypts api (ssl_context s) rs' \<and> rest @ wire (ssl_stream s) = concat (map fst rs'))"

lemma region_substr:
  assumes "length b = read_buffer_size" and "off + length r \<le> read_buffer_size" and "i + n \<le> length r"
  shows "substr (take off b @ r @ drop (off + length r) b) (off + i) n = substr r i n"
proof -
  define p where "p = take off b"
  have "length p = off" using assms(1,2) by (simp add: p_def)
  then have "drop (off + i) (p @ r @ drop (off + length r) b) = drop i (r @ drop (off + length r) b)" by simp
  with assms(3) show ?thesis by (simp add: substr_def p_def [symmetric])
qed

text \<open>Decrypting what is buffered either opens the first record or leaves everything as it was.\<close>

lemma decrypt_saved_cases:
  assumes sync: "in_sync api s rs" and n: "read_bytes s \<noteq> 0" and d: "decrypt_saved api s = (a, s')"
  shows "opened api a s' rs \<or> dec_status a = sec_e_incomplete_message \<and> s' = s
      \<and> (\<exists>ct pt rs'. rs = (ct, pt) # rs' \<and> strict_prefix (live_bytes s) ct)"
proof -
  let ?l = "live_bytes s" let ?b = "read_buffer s" let ?off = "read_off s"
  have b: "length ?b = read_buffer_size" "?off + read_bytes s \<le> read_buffer_size" "\<not> recv_initiated (ssl_stream s)"
      "decrypts api (ssl_context s) rs" "?l @ wire (ssl_stream s) = concat (map fst rs)"
    using sync by (simp_all add: in_sync_def)
  have l: "length ?l = read_bytes s" by (rule length_live [OF b(1,2)])
  then have ne: "?l \<noteq> []" using n by auto
  then obtain ct pt rs' where rs: "rs = (ct, pt) # rs'" using b(5) by (cases rs) auto
  have ct: "ct \<noteq> []" "length ct \<le> read_buffer_size" "length pt \<le> plain_text_size" "waits api (ssl_context s) ct"
    using b(4) rs by auto
  obtain c' where c': "opens api (ssl_context s) ct pt c'" "decrypts api c' rs'" using b(4) rs by auto
  have s': "a = decrypt api (ssl_context s) ?l"
      "s' = s\<lparr>ssl_context := dec_context a, read_buffer := take ?off ?b @ dec_region a @ drop (?off + read_bytes s) ?b\<rparr>"
    using d by (auto simp: decrypt_saved_def Let_def)
  have st: "?l @ wire (ssl_stream s) = ct @ concat (map fst rs')" using b(5) rs by simp
  have "strict_prefix ?l ct \<or> (\<exists>rest. ?l = ct @ rest)"
    using st by (auto simp: append_eq_append_conv2 strict_prefix_def prefix_def)
  then show ?thesis
  proof
    assume p: "strict_prefix ?l ct"
    then have w: "dec_status a = sec_e_incomplete_message" "dec_region a = ?l" "dec_context a = ssl_context s"
      using ct(4) ne by (auto simp: waits_def s'(1))
    have "take ?off ?b @ ?l @ drop (?off + read_bytes s) ?b = ?b"
      unfolding live_bytes_def substr_def
      by (metis add.commute append_take_drop_id drop_drop)
    then have "s' = s" using s'(2) w by simp
    with w p rs show ?thesis by blast
  next
    assume "\<exists>rest. ?l = ct @ rest"
    then obtain rest where r: "?l = ct @ rest" ..
    have o: "dec_status a = 0" "dec_context a = c'" "length (dec_region a) = length (ct @ rest)"
      using c'(1) by (auto simp: opens_def Let_def s'(1) r)
    obtain db where db: "find (\<lambda>b. sb_type b = secbuffer_data) (dec_buffers a) = Some db"
        "substr (dec_region a) (sb_at db) (sb_count db) = pt" "sb_at db + sb_count db \<le> length ct"
      using c'(1) unfolding opens_def Let_def s'(1) r by meson
    have e: "case find (\<lambda>b. sb_type b = secbuffer_extra) (dec_buffers a) of
             None \<Rightarrow> rest = []
           | Some e \<Rightarrow> sb_at e = length ct \<and> sb_count e = length rest \<and> drop (length ct) (dec_region a) = rest"
      using c'(1) unfolding opens_def Let_def s'(1) r by meson
    have tail: "substr (dec_region a) (length ct) (length rest) = rest"
      using e o(3) by (cases "find (\<lambda>b. sb_type b = secbuffer_extra) (dec_buffers a)") (auto simp: substr_def)
    have rl: "length (dec_region a) = read_bytes s" using o(3) r l by simp
    have buf: "read_buffer s' = take ?off ?b @ dec_region a @ drop (?off + length (dec_region a)) ?b"
      using s'(2) rl by simp
    note sub = region_substr [OF b(1) b(2) [folded rl], folded buf]
    have "substr (read_buffer s') (?off + sb_at db) (sb_count db) = pt"
      using sub [of "sb_at db" "sb_count db"] db o(3) by simp
    moreover have "substr (read_buffer s') (?off + length ct) (length rest) = rest"
      using sub [of "length ct" "length rest"] tail o(3) by simp
    moreover have "?off + length ct + length rest \<le> read_buffer_size" using b(2) l r by simp
    moreover have "length (read_buffer s') = read_buffer_size" using buf b(1,2) rl by simp
    moreover have "rest @ wire (ssl_stream s') = concat (map fst rs')" using st r s'(2) by simp
    moreover have "read_off s' = ?off" "ssl_context s' = c'" "\<not> recv_initiated (ssl_stream s')"
      using s'(2) o(2) b(3) by simp_all
    moreover have "case find (\<lambda>b. sb_type b = secbuffer_extra) (dec_buffers a) of
             None \<Rightarrow> rest = []
           | Some e \<Rightarrow> sb_at e = length ct \<and> sb_count e = length rest"
      using e by (simp split: option.splits)
    ultimately have "opened api a s' rs"
      unfolding opened_def using rs o(1) db(1) ct(3) c'(2)
      by (intro exI [of _ ct] exI [of _ pt] exI [of _ rs'] exI [of _ rest] exI [of _ db]) simp
    then show ?thesis ..
  qed
qed

lemma make_room_cases:
  assumes sync: "in_sync api s rs" and room: "read_bytes s < read_buffer_size"
  shows "\<exists>free s'. make_room s = Some (free, s') \<and> in_sync api s' rs \<and> live_bytes s' = live_bytes s
    \<and> 0 < free \<and> read_off s' + read_bytes s' + free \<le> read_buffer_size
    \<and> plain_pending s' = plain_pending s \<and> read_bytes s' = read_bytes s"
proof -
  have b: "length (read_buffer s) = read_buffer_size" "read_off s + read_bytes s \<le> read_buffer_size"
    using sync by (simp_all add: in_sync_def)
  show ?thesis
  proof (cases "read_buffer_size - read_bytes s - read_off s = 0")
    case False
    with sync b show ?thesis by (intro exI) (auto simp: make_room_def Let_def)
  next
    case True
    define buf where "buf = drop (read_off s) (read_buffer s) @ drop (length (read_buffer s) - read_off s) (read_buffer s)"
    let ?s = "s\<lparr>read_off := 0, read_buffer := buf\<rparr>"
    have pos: "0 < read_off s" using True room b by simp
    have len: "length buf = read_buffer_size" using b by (simp add: buf_def)
    have live: "live_bytes ?s = live_bytes s"
      using b by (simp add: live_bytes_def substr_def buf_def)
    have "make_room s = Some (read_off s, ?s)" using True pos by (simp add: make_room_def Let_def buf_def)
    moreover have "in_sync api ?s rs" using sync len live room by (simp add: in_sync_def)
    ultimately show ?thesis using live pos b by (intro exI [of _ "read_off s"] exI [of _ ?s]) simp
  qed
qed

lemma apply_one_write:
  assumes "length buf = read_buffer_size" and "p + length d \<le> read_buffer_size"
  shows "apply_writes 0 buf [(p, d)] = take p buf @ d @ drop (p + length d) buf"
  using assms by simp

text \<open>A read puts its bytes behind the live ones.\<close>

lemma live_after_read:
  assumes len: "length (read_buffer s) = read_buffer_size" and d: "read_off s + read_bytes s + length d \<le> read_buffer_size"
  defines "s' \<equiv> s\<lparr>read_buffer := apply_writes 0 (read_buffer s) [(read_off s + read_bytes s, d)],
      read_bytes := read_bytes s + length d\<rparr>"
  shows "live_bytes s' = live_bytes s @ d \<and> length (read_buffer s') = read_buffer_size"
proof -
  let ?b = "read_buffer s" let ?o = "read_off s" let ?n = "read_bytes s"
  have b: "read_buffer s' = take (?o + ?n) ?b @ d @ drop (?o + ?n + length d) ?b"
    using apply_one_write [OF len d] by (simp add: s'_def)
  have l: "length (take (?o + ?n) ?b) = ?o + ?n" using len d by simp
  have "drop ?o (take (?o + ?n) ?b) = take ?n (drop ?o ?b)" by (simp add: take_drop add.commute)
  then have "drop ?o (read_buffer s') = take ?n (drop ?o ?b) @ d @ drop (?o + ?n + length d) ?b"
    using b l by simp
  moreover have "length (take ?n (drop ?o ?b)) = ?n" using len d by simp
  ultimately have "live_bytes s' = take ?n (drop ?o ?b) @ d"
    by (simp add: live_bytes_def substr_def s'_def)
  with b len d show ?thesis by (simp add: live_bytes_def substr_def)
qed

lemma decrypt_loop_opens:
  "in_sync api s rs \<Longrightarrow> dec_status a = sec_e_incomplete_message
   \<Longrightarrow> live_bytes s = [] \<or> (\<exists>ct pt rs'. rs = (ct, pt) # rs' \<and> strict_prefix (live_bytes s) ct)
   \<Longrightarrow> \<exists>r. decrypt_loop api a s = Inr r \<and>
     (case r of
        Inl (n, s') \<Rightarrow> n = -1 \<or> n = 0 \<and> in_sync api s' rs \<and> plain_pending s' = plain_pending s
      | Inr (a', s') \<Rightarrow> opened api a' s' rs \<and> plain_pending s' = plain_pending s)"
proof (induction api a s rule: decrypt_loop.induct)
  case (1 api a s)
  have sync: "in_sync api s rs" by (rule "1.prems"(1))
  have len: "length (live_bytes s) = read_bytes s"
    using sync by (intro length_live) (simp_all add: in_sync_def)
  have "read_bytes s < read_buffer_size"
  proof (cases "live_bytes s = []")
    case True
    then show ?thesis using len by (simp add: read_buffer_size_def)
  next
    case False
    then obtain ct pt rs' where r: "rs = (ct, pt) # rs'" "strict_prefix (live_bytes s) ct" using "1.prems"(3) by blast
    then have "length (live_bytes s) < length ct" by (simp add: prefix_length_less)
    moreover have "length ct \<le> read_buffer_size" using sync r(1) by (simp add: in_sync_def)
    ultimately show ?thesis using len by simp
  qed
  from make_room_cases [OF sync this] obtain free s1 where room: "make_room s = Some (free, s1)" "in_sync api s1 rs"
      "live_bytes s1 = live_bytes s" "0 < free" "read_off s1 + read_bytes s1 + free \<le> read_buffer_size"
      "plain_pending s1 = plain_pending s" "read_bytes s1 = read_bytes s" by blast
  have idle: "\<not> recv_initiated (ssl_stream s1)" using room(2) by (simp add: in_sync_def)
  have "free < 2 ^ 31" using room(5) by (simp add: read_buffer_size_def)
  obtain err ws sock where rc: "recv (read_off s1 + read_bytes s1) free 1 (ssl_stream s1) = (err, ws, sock)"
    by (metis prod_cases3)
  note c = recv_one [OF idle \<open>free < 2 ^ 31\<close> rc]
  define s2 where "s2 = s1\<lparr>ssl_stream := sock, ssl_error := 0, read_buffer := apply_writes 0 (read_buffer s1) ws\<rparr>"
  have inc: "\<not> dec_status a \<noteq> sec_e_incomplete_message" using "1.prems"(2) by simp
  consider (bad) "err = -1" | (zero) "err = 0" "ws = []" "wire sock = wire (ssl_stream s1)" "\<not> recv_initiated sock"
    | (data) d where "d \<noteq> []" "err = int (length d)" "length d \<le> free" "ws = [(read_off s1 + read_bytes s1, d)]"
        "wire (ssl_stream s1) = d @ wire sock" "\<not> recv_initiated sock"
    using c by blast
  then show ?case
  proof cases
    case bad
    then show ?thesis using inc room(1) rc by (subst decrypt_loop.simps) simp
  next
    case zero
    then have "in_sync api (s2\<lparr>ssl_encrypting := False, ssl_error := 0\<rparr>) rs"
      using room(2) by (simp add: in_sync_def s2_def live_bytes_def)
    then show ?thesis using inc room(1,6) rc zero by (subst decrypt_loop.simps) (simp add: s2_def)
  next
    case data
    have nat: "nat err = length d" and fit: "read_off s1 + read_bytes s1 + length d \<le> read_buffer_size"
      using data room(5) by simp_all
    have cond: "err \<noteq> 0" "err \<noteq> -1" "\<not> (err < 0 \<or> read_buffer_size < read_off s1 + read_bytes s1 + nat err)"
      using data fit nat by auto
    let ?t = "s2\<lparr>read_bytes := read_bytes s1 + nat err\<rparr>"
    have t: "?t = s1\<lparr>read_buffer := apply_writes 0 (read_buffer s1) [(read_off s1 + read_bytes s1, d)],
        read_bytes := read_bytes s1 + length d\<rparr>\<lparr>ssl_stream := sock, ssl_error := 0\<rparr>"
      using data nat by (simp add: s2_def)
    have bl: "length (read_buffer s1) = read_buffer_size" using room(2) by (simp add: in_sync_def)
    have live: "live_bytes ?t = live_bytes s1 @ d" "length (read_buffer ?t) = read_buffer_size"
      using live_after_read [OF bl fit] unfolding t by (simp_all add: live_bytes_def)
    have sync2: "in_sync api ?t rs"
      using room(2) live data fit nat by (simp add: in_sync_def s2_def)
    have n0: "read_bytes ?t \<noteq> 0" using data nat by simp
    obtain a1 s3 where ds: "decrypt_saved api ?t = (a1, s3)" by force
    have pp: "plain_pending s3 = plain_pending s" using decrypt_saved_frame [OF ds] room(6) by (simp add: s2_def)
    have eq: "decrypt_loop api a s = decrypt_loop api a1 s3"
      using inc room(1) rc cond ds by (subst decrypt_loop.simps) (simp add: s2_def Let_def)
    from decrypt_saved_cases [OF sync2 n0 ds] show ?thesis
    proof
      assume o: "opened api a1 s3 rs"
      then have "dec_status a1 = 0" by (auto simp: opened_def)
      then have "decrypt_loop api a1 s3 = Inr (Inr (a1, s3))"
        by (subst decrypt_loop.simps) (simp add: sec_e_incomplete_message_def)
      with eq o pp show ?thesis by simp
    next
      assume w: "dec_status a1 = sec_e_incomplete_message \<and> s3 = ?t
        \<and> (\<exists>ct pt rs'. rs = (ct, pt) # rs' \<and> strict_prefix (live_bytes ?t) ct)"
      note ih = "1.IH" [OF inc room(1) refl rc [symmetric] refl refl, folded s2_def, OF cond(1) cond(2) cond(3) ds [symmetric]]
      have "\<exists>r. decrypt_loop api a1 s3 = Inr r \<and>
        (case r of
           Inl (n, s') \<Rightarrow> n = -1 \<or> n = 0 \<and> in_sync api s' rs \<and> plain_pending s' = plain_pending s3
         | Inr (a', s') \<Rightarrow> opened api a' s' rs \<and> plain_pending s' = plain_pending s3)"
        by (rule ih) (use w sync2 in auto)
      then show ?thesis unfolding eq pp .
    qed
  qed
qed

lemma deliver_opened:
  assumes o: "opened api a s rs" and p: "plain_pending s = []" and len: "len < 2 ^ 31"
  shows "\<exists>d s' rs'. deliver len a s = (int (length d), d, s') \<and> length d \<le> len \<and> in_sync api s' rs'
    \<and> concat (map snd rs) = d @ plain_stream s' rs'"
proof -
  obtain ct pt rs' rest db where r: "rs = (ct, pt) # rs'" "dec_status a = 0"
      "find (\<lambda>b. sb_type b = secbuffer_data) (dec_buffers a) = Some db"
      "substr (read_buffer s) (read_off s + sb_at db) (sb_count db) = pt" "length pt \<le> plain_text_size"
      "case find (\<lambda>b. sb_type b = secbuffer_extra) (dec_buffers a) of
             None \<Rightarrow> rest = []
           | Some e \<Rightarrow> sb_at e = length ct \<and> sb_count e = length rest"
      "substr (read_buffer s) (read_off s + length ct) (length rest) = rest"
      "read_off s + length ct + length rest \<le> read_buffer_size"
      "length (read_buffer s) = read_buffer_size" "\<not> recv_initiated (ssl_stream s)"
      "decrypts api (ssl_context s) rs'" "rest @ wire (ssl_stream s) = concat (map fst rs')"
    using o unfolding opened_def by (elim exE conjE) (rule that)
  define s1 where "s1 = (if drop len pt = [] then s else s\<lparr>plain_pending := drop len pt\<rparr>)"
  define s' where "s' = (case find (\<lambda>b. sb_type b = secbuffer_extra) (dec_buffers a) of
      Some e \<Rightarrow> s1\<lparr>read_bytes := sb_count e, read_off := read_off s + sb_at e\<rparr>
    | None \<Rightarrow> s1\<lparr>read_bytes := 0, read_off := 0\<rparr>)"
  have s1: "read_buffer s1 = read_buffer s" "ssl_stream s1 = ssl_stream s" "ssl_context s1 = ssl_context s"
      "plain_pending s1 = drop len pt"
    using p by (simp_all add: s1_def)
  have s': "read_buffer s' = read_buffer s" "ssl_stream s' = ssl_stream s" "ssl_context s' = ssl_context s"
      "plain_pending s' = drop len pt"
    using s1 by (simp_all add: s'_def split: option.splits)
  have live: "live_bytes s' = rest" "read_off s' + read_bytes s' \<le> read_buffer_size"
    using r(6,7,8) s1 by (auto simp: s'_def live_bytes_def substr_def split: option.splits)
  have small: "\<not> plain_text_size < length (drop len pt)" "to_int32 (int (length (take len pt))) = int (length (take len pt))"
    using r(5) len by (simp_all add: to_int32_id)
  have "deliver len a s = (int (length (take len pt)), take len pt, s')"
    unfolding deliver_def r(3) option.case Let_def r(4)
    unfolding s'_def s1_def using r(2) small by (simp add: sec_i_context_expired_def)
  moreover have "in_sync api s' rs'" using r s' live by (simp add: in_sync_def)
  ultimately show ?thesis
    using s'(4) r(1) by (intro exI [of _ "take len pt"] exI [of _ s'] exI [of _ rs']) (simp add: plain_stream_def)
qed

lemma ssl_recv_reads:
  assumes sync: "in_sync api s rs" and len: "0 < len" "len < 2 ^ 31"
  shows "\<exists>r d s'. ssl_recv api len s = Inr (r, d, s') \<and>
    (r = -1 \<and> d = []
     \<or> r = int (length d) \<and> length d \<le> len
        \<and> (\<exists>rs'. in_sync api s' rs' \<and> plain_stream s rs = d @ plain_stream s' rs'))"
proof (cases "ssl_encrypting s \<or> plain_pending s \<noteq> []")
  case False
  then show ?thesis by (simp add: ssl_recv_def)
next
  case enc: True
  show ?thesis
proof (cases "plain_pending s = []")
  case False
  have "\<exists>d s'. take_plain len s = (int (length d), d, s') \<and> length d \<le> len \<and> in_sync api s' rs
      \<and> plain_pending s = d @ plain_pending s'"
    using sync len(2)
    by (cases "length (plain_pending s) \<le> len") (auto simp: take_plain_def Let_def in_sync_def live_bytes_def to_int32_id)
  then obtain d s' where "take_plain len s = (int (length d), d, s')" "length d \<le> len" "in_sync api s' rs"
      "plain_pending s = d @ plain_pending s'" by blast
  then show ?thesis
    using False by (intro exI [of _ "int (length d)"] exI [of _ d] exI [of _ s'] conjI disjI2 exI [of _ rs])
      (simp_all add: ssl_recv_def plain_stream_def)
next
  case True
  obtain a s1 where a: "(if read_bytes s = 0 then (no_message (ssl_context s), s) else decrypt_saved api s) = (a, s1)"
    by force
  let ?s = "ssl_start_recv_timer s1"
  have timer: "in_sync api (ssl_start_recv_timer t) rs = in_sync api t rs"
      "opened api b (ssl_start_recv_timer t) rs = opened api b t rs" for t b
    by (simp_all add: in_sync_def opened_def)
  have l: "length (live_bytes s) = read_bytes s" using sync by (intro length_live) (simp_all add: in_sync_def)
  have "\<exists>r. decrypt_loop api a ?s = Inr r \<and>
     (case r of
        Inl (n, s') \<Rightarrow> n = -1 \<or> n = 0 \<and> in_sync api s' rs \<and> plain_pending s' = []
      | Inr (a', s') \<Rightarrow> opened api a' s' rs \<and> plain_pending s' = [])"
  proof (cases "opened api a s1 rs")
    case o: True
    then have "dec_status a = 0" by (auto simp: opened_def)
    then have "decrypt_loop api a ?s = Inr (Inr (a, ?s))"
      by (subst decrypt_loop.simps) (simp add: sec_e_incomplete_message_def)
    moreover have "plain_pending s1 = []"
      using a True decrypt_saved_frame [of api s a s1] by (simp split: if_splits)
    ultimately show ?thesis using o timer by simp
  next
    case False
    have "dec_status a = sec_e_incomplete_message \<and> s1 = s
        \<and> (live_bytes s = [] \<or> (\<exists>ct pt rs'. rs = (ct, pt) # rs' \<and> strict_prefix (live_bytes s) ct))"
    proof (cases "read_bytes s = 0")
      case True
      then show ?thesis using a l by (auto simp: no_message_def)
    next
      case n: False
      then have "decrypt_saved api s = (a, s1)" using a by simp
      from decrypt_saved_cases [OF sync n this] False show ?thesis by blast
    qed
    then have s1: "s1 = s" "dec_status a = sec_e_incomplete_message"
        "live_bytes ?s = [] \<or> (\<exists>ct pt rs'. rs = (ct, pt) # rs' \<and> strict_prefix (live_bytes ?s) ct)" by auto
    have "in_sync api ?s rs" using sync timer s1(1) by simp
    have pp: "plain_pending ?s = []" using True s1(1) by simp
    from decrypt_loop_opens [OF \<open>in_sync api ?s rs\<close> s1(2,3)] show ?thesis unfolding pp .
  qed
  then obtain r where r: "decrypt_loop api a ?s = Inr r"
     "case r of
        Inl (n, s') \<Rightarrow> n = -1 \<or> n = 0 \<and> in_sync api s' rs \<and> plain_pending s' = []
      | Inr (a', s') \<Rightarrow> opened api a' s' rs \<and> plain_pending s' = []" by blast
  show ?thesis
  proof (cases r)
    case (Inl x)
    obtain n s' where x: "x = (n, s')" by force
    have eq: "ssl_recv api len s = Inr (n, [], s')"
      using True enc a r(1) Inl x by (simp add: ssl_recv_def recv_partial_encrypted_def)
    from r(2) Inl x have "n = -1 \<or> n = 0 \<and> in_sync api s' rs \<and> plain_pending s' = []" by simp
    with eq True show ?thesis by (intro exI [of _ n] exI [of _ "[]"] exI [of _ s']) (auto simp: plain_stream_def)
  next
    case (Inr x)
    obtain a' s' where x: "x = (a', s')" by force
    from r(2) Inr x have o: "opened api a' s' rs" "plain_pending s' = []" by simp_all
    obtain d t rs' where d: "deliver len a' s' = (int (length d), d, t)" "length d \<le> len" "in_sync api t rs'"
        "concat (map snd rs) = d @ plain_stream t rs'" using deliver_opened [OF o len(2)] by blast
    have eq: "ssl_recv api len s = Inr (int (length d), d, t)"
      using True enc a r(1) Inr x d(1) by (simp add: ssl_recv_def recv_partial_encrypted_def)
    then show ?thesis
      using d True by (intro exI [of _ "int (length d)"] exI [of _ d] exI [of _ t] conjI disjI2 exI [of _ rs'])
        (simp_all add: plain_stream_def)
  qed
qed
qed

text \<open>Successive reads, each with the size of its buffer, up to the first that gives nothing.\<close>

fun ssl_reads :: "'c sspi \<Rightarrow> nat list \<Rightarrow> 'c ssl_client \<Rightarrow> string list result" where
  "ssl_reads api [] s = Inr []"
| "ssl_reads api (len # lens) s =
     bind_result (ssl_recv api len s) (\<lambda>(r, d, s1).
       if r \<le> 0 then Inr [] else bind_result (ssl_reads api lens s1) (\<lambda>ds. Inr (d # ds)))"

text \<open>
  C33. Over a Schannel that decrypts as documented, the reads of the TLS client deliver the peer's
  plaintext in order and without a gap, for any buffer sizes, any cut of the ciphertext into packets,
  records merged or split, data moved down in the read buffer and plaintext kept for a later read; no
  read leaves a buffer.
\<close>

theorem ssl_reads_deliver_plaintext:
  assumes "in_sync api s rs" and "list_all (\<lambda>len. 0 < len \<and> len < 2 ^ 31) lens"
  shows "\<exists>ds. ssl_reads api lens s = Inr ds \<and> prefix (concat ds) (plain_stream s rs)"
  using assms
proof (induction lens arbitrary: s rs)
  case (Cons len lens)
  have len: "0 < len" "len < 2 ^ 31" using Cons.prems(2) by simp_all
  from ssl_recv_reads [OF Cons.prems(1) len] obtain r d s' where r: "ssl_recv api len s = Inr (r, d, s')"
      "r = -1 \<and> d = [] \<or> r = int (length d) \<and> length d \<le> len
        \<and> (\<exists>rs'. in_sync api s' rs' \<and> plain_stream s rs = d @ plain_stream s' rs')" by blast
  show ?case
  proof (cases "r \<le> 0")
    case True
    then show ?thesis using r(1) by simp
  next
    case False
    then obtain rs' where rs': "in_sync api s' rs'" "plain_stream s rs = d @ plain_stream s' rs'" using r(2) by auto
    with Cons.IH [OF rs'(1)] Cons.prems(2) obtain ds where "ssl_reads api lens s' = Inr ds"
        "prefix (concat ds) (plain_stream s' rs')" by auto
    with False r(1) rs'(2) show ?thesis by simp
  qed
qed simp

text \<open>
  A record without plaintext, which TLS allows, is reported as 0 bytes, the value the callers take
  for the end of the connection, although the session goes on and more records are buffered.
\<close>

theorem empty_record_reads_as_close:
  assumes "in_sync api s ((ct, []) # rs)" and "prefix ct (live_bytes s)" and "plain_pending s = []"
    and "ssl_encrypting s" and "0 < len" and "len < 2 ^ 31"
  shows "\<exists>s' rs'. ssl_recv api len s = Inr (0, [], s') \<and> in_sync api s' rs' \<and> plain_stream s' rs' = concat (map snd rs)"
proof -
  have l: "length (live_bytes s) = read_bytes s" using assms(1) by (intro length_live) (simp_all add: in_sync_def)
  have "0 < length ct" using assms(1) by (simp add: in_sync_def)
  then have n: "read_bytes s \<noteq> 0" using prefix_length_le [OF assms(2)] l by linarith
  obtain a s1 where d: "decrypt_saved api s = (a, s1)" by force
  have "\<not> strict_prefix (live_bytes s) ct" using assms(2) by (metis prefix_order.less_le_not_le)
  then have o: "opened api a s1 ((ct, []) # rs)" using decrypt_saved_cases [OF assms(1) n d] by auto
  then have o2: "opened api a (ssl_start_recv_timer s1) ((ct, []) # rs)" by (simp add: opened_def)
  have "dec_status a = 0" using o by (auto simp: opened_def)
  then have loop: "decrypt_loop api a (ssl_start_recv_timer s1) = Inr (Inr (a, ssl_start_recv_timer s1))"
    by (subst decrypt_loop.simps) (simp add: sec_e_incomplete_message_def)
  have p: "plain_pending (ssl_start_recv_timer s1) = []" using decrypt_saved_frame [OF d] assms(3) by simp
  obtain x t rs' where x: "deliver len a (ssl_start_recv_timer s1) = (int (length x), x, t)" "in_sync api t rs'"
      "concat (map snd ((ct, []) # rs)) = x @ plain_stream t rs'"
    using deliver_opened [OF o2 p assms(6)] by blast
  have "x = []"
  proof -
    obtain db where "find (\<lambda>b. sb_type b = secbuffer_data) (dec_buffers a) = Some db"
        "substr (read_buffer s1) (read_off s1 + sb_at db) (sb_count db) = []"
      using o by (auto simp: opened_def)
    then have "fst (snd (deliver len a (ssl_start_recv_timer s1))) = []"
      using \<open>dec_status a = 0\<close> by (simp add: deliver_def sec_i_context_expired_def Let_def)
    with x(1) show ?thesis by simp
  qed
  with x n d loop assms(3,4) show ?thesis by (auto simp: ssl_recv_def recv_partial_encrypted_def)
qed

section \<open>Sending stays in the buffer\<close>

lemma send_record_fits:
  assumes "cb_header (ssl_sizes s) + length data + cb_trailer (ssl_sizes s) \<le> write_buffer_size"
  shows "\<exists>r s'. send_record api data s = Inr (r, s') \<and> (r = -1 \<or> r = int (length data)) \<and> ssl_sizes s' = ssl_sizes s"
proof -
  have "to_int32 (int (length data)) = int (length data)"
    using assms by (intro to_int32_id) (simp_all add: write_buffer_size_def)
  then show ?thesis
    using assms by (auto simp: send_record_def Let_def split: prod.splits)
qed

lemma max_chunk_range: "0 < max_chunk s \<and> max_chunk s \<le> max_msg_size"
  by (auto simp: max_chunk_def max_msg_size_def Let_def)

lemma send_records_fit:
  "cb_header (ssl_sizes s) + cb_trailer (ssl_sizes s) \<le> 50 \<Longrightarrow> 0 < chunk \<Longrightarrow> chunk \<le> max_msg_size
   \<Longrightarrow> done \<le> length data \<Longrightarrow> length data < 2 ^ 31
   \<Longrightarrow> \<exists>r s'. send_records api chunk data done s = Inr (r, s') \<and> (r = -1 \<or> r = int (length data))"
proof (induction api chunk data "done" s rule: send_records.induct)
  case (1 api chunk data "done" s)
  show ?case
  proof (cases "done < length data")
    case False
    then show ?thesis using "1.prems" by (subst send_records.simps) (simp add: to_int32_id)
  next
    case True
    let ?n = "min chunk (length data - done)" let ?d = "substr data done ?n"
    have n: "length ?d = ?n" "0 < ?n" "?n \<le> max_msg_size" using True "1.prems" by (simp_all add: substr_def)
    have "cb_header (ssl_sizes s) + length ?d + cb_trailer (ssl_sizes s) \<le> write_buffer_size"
      using n "1.prems"(1) by (simp add: write_buffer_size_def max_msg_size_def)
    from send_record_fits [OF this] obtain r s1 where r: "send_record api ?d s = Inr (r, s1)"
        "r = -1 \<or> r = int ?n" "ssl_sizes s1 = ssl_sizes s" using n(1) by metis
    show ?thesis
    proof (cases "r = -1")
      case True
      with r(1) \<open>done < length data\<close> show ?thesis by (subst send_records.simps) simp
    next
      case False
      then have pos: "\<not> r \<le> 0" "nat r = ?n" using r(2) n(2) by auto
      have "done + nat r \<le> length data" using pos(2) True by simp
      with "1.IH" [OF True r(1) refl pos(1)] "1.prems" r(3) r(1) True pos(1) show ?thesis
        by (subst send_records.simps) simp
    qed
  qed
qed


text \<open>
  With a cipher that needs more than 50 bytes besides the data, such as AES-CBC with SHA-384 (21 and
  64), a write of a full chunk leaves the write buffer.
\<close>

theorem ssl_send_overflows:
  assumes "ssl_encrypting s" and "50 < cb_header (ssl_sizes s) + cb_trailer (ssl_sizes s)"
    and "max_msg_size \<le> cb_maximum (ssl_sizes s)" and "max_msg_size \<le> length data"
  shows "ssl_send api data s = Inl Undefined"
proof -
  have m: "max_chunk s = max_msg_size" using assms(3) by (auto simp: max_chunk_def max_msg_size_def Let_def)
  have big: "send_record api d s = Inl Undefined" if "length d = max_msg_size" for d
    using that assms(1,2) by (simp add: send_record_def write_buffer_size_def max_msg_size_def)
  show ?thesis
  proof (cases "length data = max_msg_size")
    case True
    then show ?thesis using big m assms(1) by (simp add: ssl_send_def)
  next
    case False
    then have l: "max_msg_size < length data" "0 < length data" using assms(4) by (auto simp: max_msg_size_def)
    have "length (substr data 0 (min max_msg_size (length data - 0))) = max_msg_size"
      using l by (simp add: substr_def)
    then have "send_records api max_msg_size data 0 s = Inl Undefined"
      using big l(2) by (subst send_records.simps) simp
    then show ?thesis using m l assms(1) by (simp add: ssl_send_def)
  qed
qed

section \<open>Witnesses\<close>

text \<open>A toy cipher: a record is the length of its plaintext and the plaintext.\<close>

definition demo_decrypt :: "unit option \<Rightarrow> string \<Rightarrow> unit decrypt_answer" where
  "demo_decrypt c s =
     (if s = [] \<or> length s < byte (hd s) + 1
      then \<lparr>dec_status = sec_e_incomplete_message, dec_region = s, dec_buffers = [], dec_context = c\<rparr>
      else let n = byte (hd s) in
        \<lparr>dec_status = 0, dec_region = s,
         dec_buffers = \<lparr>sb_type = secbuffer_data, sb_at = 1, sb_count = n\<rparr>
           # (if length s = n + 1 then []
              else [\<lparr>sb_type = secbuffer_extra, sb_at = n + 1, sb_count = length s - (n + 1)\<rparr>]),
         dec_context = c\<rparr>)"

definition demo_answer :: "unit handshake_answer" where
  "demo_answer = \<lparr>isc_status = 0, isc_token = None, isc_extra = None, isc_extended_error = False, isc_context = Some ()\<rparr>"

definition demo_sspi :: "unit sspi" where
  "demo_sspi = \<lparr>interface_error = None, acquire = (\<lambda>c. 0),
     first_token = (\<lambda>c n. demo_answer\<lparr>isc_status := sec_i_continue_needed\<rparr>),
     next_token = (\<lambda>c x s. demo_answer), remote_cert = (\<lambda>c. Inr (context_of [])),
     query_sizes = (\<lambda>c. Inr \<lparr>cb_header = 5, cb_trailer = 36, cb_maximum = 16384\<rparr>),
     query_issuers = (\<lambda>c. Inl sec_e_internal_error), query_extended = (\<lambda>c. None),
     decrypt = demo_decrypt, encrypt = (\<lambda>c z d. (0, d, c)), apply_control = (\<lambda>c. (0, c)),
     shutdown_token = (\<lambda>c x. demo_answer), wsa_last_error = 0\<rparr>"

definition demo_record :: "string \<Rightarrow> string \<times> string" where
  "demo_record pt = (chr_of (length pt) # pt, pt)"

lemma demo_decrypts: "list_all (\<lambda>pt. length pt < 256) pts \<Longrightarrow> decrypts demo_sspi c (map demo_record pts)"
proof (induction pts)
  case (Cons pt pts)
  have n: "length pt < 256" using Cons.prems by simp
  have "opens demo_sspi c (chr_of (length pt) # pt) pt c"
    using n by (auto simp: opens_def demo_sspi_def demo_decrypt_def Let_def substr_def secbuffer_data_def
        secbuffer_extra_def)
  moreover have "waits demo_sspi c (chr_of (length pt) # pt)"
  proof -
    have "demo_decrypt c p = \<lparr>dec_status = sec_e_incomplete_message, dec_region = p, dec_buffers = [], dec_context = c\<rparr>"
      if "p \<noteq> []" "strict_prefix p (chr_of (length pt) # pt)" for p
    proof -
      have "hd p = chr_of (length pt)" using that by (cases p) (auto simp: strict_prefix_def)
      moreover have "length p < length pt + 1" using prefix_length_less [OF that(2)] by simp
      ultimately show ?thesis using n by (simp add: demo_decrypt_def)
    qed
    then show ?thesis by (auto simp: waits_def demo_sspi_def)
  qed
  ultimately show ?case using Cons n by (auto simp: demo_record_def read_buffer_size_def plain_text_size_def)
qed simp

definition demo_ssl :: "string \<Rightarrow> unit ssl_client" where
  "demo_ssl data = (new_ssl_client new_sock)\<lparr>ssl_encrypting := True, ssl_context := Some (),
     ssl_sizes := \<lparr>cb_header = 5, cb_trailer = 36, cb_maximum = 16384\<rparr>,
     read_buffer := data @ replicate (read_buffer_size - length data) (CHR 0x00), read_bytes := length data\<rparr>"

lemma demo_in_sync:
  assumes "list_all (\<lambda>pt. length pt < 256) pts" and "length (concat (map fst (map demo_record pts))) \<le> read_buffer_size"
  shows "in_sync demo_sspi (demo_ssl (concat (map fst (map demo_record pts)))) (map demo_record pts)
    \<and> live_bytes (demo_ssl (concat (map fst (map demo_record pts)))) = concat (map fst (map demo_record pts))"
  using assms(2) demo_decrypts [OF assms(1), of "Some ()"]
  by (simp add: in_sync_def demo_ssl_def new_ssl_client_def live_bytes_def substr_def new_sock_def)

theorem ssl_reads_deliver_plaintext_witness:
  "\<exists>ds. ssl_reads demo_sspi [2, 5] (demo_ssl (concat (map fst (map demo_record [''abc'', ''de''])))) = Inr ds
    \<and> prefix (concat ds) ''abcde''"
  using ssl_reads_deliver_plaintext [of demo_sspi "demo_ssl (concat (map fst (map demo_record [''abc'', ''de''])))"
      "map demo_record [''abc'', ''de'']" "[2, 5]"] demo_in_sync [of "[''abc'', ''de'']"]
  by (simp add: plain_stream_def demo_ssl_def new_ssl_client_def demo_record_def read_buffer_size_def)

theorem empty_record_reads_as_close_witness:
  "\<exists>s' rs'. ssl_recv demo_sspi 16 (demo_ssl (concat (map fst (map demo_record [[], ''de''])))) = Inr (0, [], s')
    \<and> in_sync demo_sspi s' rs' \<and> plain_stream s' rs' = ''de''"
  using empty_record_reads_as_close [of demo_sspi "demo_ssl (concat (map fst (map demo_record [[], ''de''])))"
      "chr_of 0 # []" "[demo_record ''de'']" 16] demo_in_sync [of "[[], ''de'']"]
  by (simp add: demo_ssl_def new_ssl_client_def demo_record_def read_buffer_size_def)


theorem ssl_send_overflows_witness:
  "ssl_send demo_sspi (replicate 16000 CHR ''x'')
     ((demo_ssl [])\<lparr>ssl_sizes := \<lparr>cb_header = 21, cb_trailer = 64, cb_maximum = 16384\<rparr>\<rparr>) = Inl Undefined"
  by (rule ssl_send_overflows) (simp_all add: demo_ssl_def max_msg_size_def)

end
