(* ===== verification/SslHandshake.thy ===== *)
theory SslHandshake imports SslClient begin

text \<open>
  The TLS handshake of \<open>CSSLClient\<close> (\<open>socket/SSLClient.cpp\<close>): \<open>Initialize\<close>, \<open>SSPINegotiateLoop\<close>,
  \<open>GetNewClientCredentials\<close>, \<open>CreateCredentialsFromCertificate\<close> and \<open>Disconnect\<close>, over what Schannel
  answers. One turn of the negotiation loop is a function that says how it ends; the loop itself may run
  forever, since Schannel and the server decide when it is over. The two hooks are parameters; the one
  that judges certificates has a state of its own.
\<close>

section \<open>Hooks and state\<close>

record 'v tls_hooks =
  accept_hook :: "(cert_context \<Rightarrow> bool \<Rightarrow> bool \<Rightarrow> 'v \<Rightarrow> (bool \<times> 'v) result) option"
  select_hook :: "(cert_context option \<Rightarrow> string list option \<Rightarrow> bool \<Rightarrow> store_cache
                   \<Rightarrow> nat \<times> cert_context option \<times> store_cache) option"

record ('c, 'v) handshake =
  hs_client :: "'c ssl_client"
  hs_stores :: store_cache
  hs_judge :: 'v
  hs_status :: nat
  hs_io :: nat
  hs_do_read :: bool

text \<open>How a part of the loop's body ends: it goes on, leaves the loop, or returns from the function.\<close>

datatype 'h flow = Again 'h | Leave 'h | Give_Up nat 'h

definition e_fail :: nat where "e_fail = 0x80004005"

definition close_context :: "('c, 'v) handshake \<Rightarrow> ('c, 'v) handshake" where
  "close_context h = h\<lparr>hs_client := (hs_client h)\<lparr>ssl_context := None\<rparr>\<rparr>"

definition on_stream :: "base_sock \<Rightarrow> ('c, 'v) handshake \<Rightarrow> ('c, 'v) handshake" where
  "on_stream s h = h\<lparr>hs_client := (hs_client h)\<lparr>ssl_stream := s\<rparr>\<rparr>"

section \<open>Credentials\<close>

definition create_credentials :: "'c sspi \<Rightarrow> cert_context option \<Rightarrow> nat \<times> creds" where
  "create_credentials api cert =
     (let status = acquire api cert in if status \<noteq> 0 then (status, None) else (0, Some cert))"

definition get_new_credentials :: "'c sspi \<Rightarrow> 'v tls_hooks \<Rightarrow> ('c, 'v) handshake \<Rightarrow> nat \<times> ('c, 'v) handshake" where
  "get_new_credentials api hooks h =
     (case query_issuers api (ssl_context (hs_client h)) of
        Inl status \<Rightarrow> (status, h)
      | Inr issuers \<Rightarrow>
          (let (status, cert, stores) =
                 (case select_hook hooks of
                    None \<Rightarrow> (0, None, hs_stores h)
                  | Some select \<Rightarrow> select None (Some issuers) True (hs_stores h));
               h1 = h\<lparr>hs_stores := stores\<rparr>
           in if failed status then (status, h1)
              else let (status1, new) = create_credentials api cert in
                (status1, if succeeded status1 \<and> new \<noteq> None
                          then h1\<lparr>hs_client := (hs_client h1)\<lparr>ssl_creds := new\<rparr>\<rparr> else h1)))"

section \<open>One turn of the loop\<close>

text \<open>Reading more of the server's flight, behind what is there; a count out of range is \<open>Undefined\<close>.\<close>

definition read_server :: "('c, 'v) handshake \<Rightarrow> ('c, 'v) handshake flow result" where
  "read_server h =
     (if hs_io h \<noteq> 0 \<and> hs_status h \<noteq> sec_e_incomplete_message then Inr (Again h)
      else if \<not> hs_do_read h then Inr (Again (h\<lparr>hs_do_read := True\<rparr>))
      else case recv (hs_io h) (read_buffer_size - hs_io h) 1 (ssl_stream (hs_client h)) of
        (n, ws, sock) \<Rightarrow>
          let h1 = h\<lparr>hs_client := (hs_client h)\<lparr>ssl_stream := sock,
                       read_buffer := apply_writes 0 (read_buffer (hs_client h)) ws\<rparr>\<rparr> in
          if n = -1 \<or> n = 0 then Inr (Leave (h1\<lparr>hs_status := sec_e_internal_error\<rparr>))
          else if n < 0 \<or> read_buffer_size < hs_io h + nat n then Inl Undefined
          else Inr (Again (h1\<lparr>hs_io := hs_io h + nat n\<rparr>)))"

text \<open>The certificate Schannel shows is judged by the hook; without a hook it is accepted.\<close>

definition judge_certificate ::
    "'c sspi \<Rightarrow> cert_env \<Rightarrow> 'v tls_hooks \<Rightarrow> wstring \<Rightarrow> ('c, 'v) handshake \<Rightarrow> (bool \<times> ('c, 'v) handshake) result" where
  "judge_certificate api env hooks name h =
     (case remote_cert api (ssl_context (hs_client h)) of
        Inl err \<Rightarrow> Inr (True, h)
      | Inr cert \<Rightarrow>
          (let matches = match_certificate_name env cert name;
               trusted = cert_trusted env cert False = 0;
               h1 = h\<lparr>hs_client := (hs_client h)\<lparr>cert_name_matches := matches, cert_is_trusted := trusted\<rparr>\<rparr>
           in case accept_hook hooks of
                None \<Rightarrow> Inr (True, h1)
              | Some accept \<Rightarrow> bind_result (accept cert trusted matches (hs_judge h1))
                  (\<lambda>(ok, v). Inr (ok, h1\<lparr>hs_judge := v\<rparr>))))"

definition send_token :: "string option \<Rightarrow> ('c, 'v) handshake \<Rightarrow> ('c, 'v) handshake flow" where
  "send_token token h =
     (case token of
        None \<Rightarrow> Again h
      | Some t \<Rightarrow>
          if t = [] then Again h
          else (case send t (ssl_stream (hs_client h)) of
                  (n, sock) \<Rightarrow> if n = -1 \<or> n = 0
                    then Give_Up sec_e_internal_error (close_context (on_stream sock h))
                    else Again (on_stream sock h)))"

text \<open>The bytes Schannel did not use are moved to the start of the buffer.\<close>

definition keep_extra :: "nat option \<Rightarrow> ('c, 'v) handshake \<Rightarrow> (nat \<times> ('c, 'v) handshake) result" where
  "keep_extra extra h =
     (case extra of
        None \<Rightarrow> Inr (0, h)
      | Some n \<Rightarrow>
          if hs_io h < n then Inl Undefined
          else let buf = read_buffer (hs_client h) in
            Inr (n, h\<lparr>hs_client := (hs_client h)\<lparr>read_buffer := substr buf (hs_io h - n) n @ drop n buf\<rparr>\<rparr>))"

definition after_token ::
    "'c sspi \<Rightarrow> 'v tls_hooks \<Rightarrow> nat option \<Rightarrow> ('c, 'v) handshake \<Rightarrow> ('c, 'v) handshake flow result" where
  "after_token api hooks extra h =
     (if hs_status h = sec_e_incomplete_message then Inr (Again h)
      else if hs_status h = 0 then bind_result (keep_extra extra h) (\<lambda>(n, h1).
        Inr (Leave (h1\<lparr>hs_client := (hs_client h1)\<lparr>read_bytes := n\<rparr>\<rparr>)))
      else if failed (hs_status h)
      then Inr (Leave (h\<lparr>hs_client := capture_extended_error api (hs_client h)\<rparr>))
      else if hs_status h = sec_i_incomplete_credentials
      then (let (status, h1) = get_new_credentials api hooks h in
            Inr (if status = 0 then Again (h1\<lparr>hs_do_read := False, hs_status := sec_i_continue_needed\<rparr>)
                 else Leave (h1\<lparr>hs_status := status\<rparr>)))
      else bind_result (keep_extra extra h) (\<lambda>(n, h1). Inr (Again (h1\<lparr>hs_io := n\<rparr>))))"

definition ask_schannel :: "'c sspi \<Rightarrow> ('c, 'v) handshake \<Rightarrow> 'c handshake_answer \<times> ('c, 'v) handshake" where
  "ask_schannel api h =
     (let c = hs_client h;
          a = next_token api (ssl_creds c) (ssl_context c) (take (hs_io h) (read_buffer c))
      in (a, h\<lparr>hs_client := c\<lparr>ssl_context := isc_context a\<rparr>, hs_status := isc_status a\<rparr>))"

definition wants_judgement :: "'c handshake_answer \<Rightarrow> bool" where
  "wants_judgement a \<longleftrightarrow> isc_status a = 0 \<or> isc_status a = sec_i_continue_needed
     \<or> failed (isc_status a) \<and> isc_extended_error a"

definition negotiate_step ::
    "'c sspi \<Rightarrow> cert_env \<Rightarrow> 'v tls_hooks \<Rightarrow> wstring \<Rightarrow> ('c, 'v) handshake \<Rightarrow> ('c, 'v) handshake flow result" where
  "negotiate_step api env hooks name h =
     bind_result (read_server h) (\<lambda>f. case f of
       Again h1 \<Rightarrow>
         (let (a, h2) = ask_schannel api h1 in
          if \<not> wants_judgement a then after_token api hooks (isc_extra a) h2
          else bind_result (judge_certificate api env hooks name h2) (\<lambda>(ok, h3).
            if \<not> ok then Inr (Give_Up sec_e_unknown_credentials h3)
            else case send_token (isc_token a) h3 of
                Again h4 \<Rightarrow> after_token api hooks (isc_extra a) h4
              | other \<Rightarrow> Inr other))
     | other \<Rightarrow> Inr other)"

section \<open>The loop\<close>

definition negotiating :: "nat \<Rightarrow> bool" where
  "negotiating status \<longleftrightarrow> status = sec_i_continue_needed \<or> status = sec_e_incomplete_message
     \<or> status = sec_i_incomplete_credentials"

definition end_negotiation :: "('c, 'v) handshake \<Rightarrow> nat \<times> ('c, 'v) handshake" where
  "end_negotiation h =
     (let h1 = (if failed (hs_status h) then close_context h
                else h\<lparr>hs_client := (hs_client h)\<lparr>ssl_encrypting := True\<rparr>\<rparr>)
      in (hs_status h, h1\<lparr>hs_client := (hs_client h1)\<lparr>ssl_status := hs_status h\<rparr>\<rparr>))"

partial_function (option) negotiate_loop ::
    "'c sspi \<Rightarrow> cert_env \<Rightarrow> 'v tls_hooks \<Rightarrow> wstring \<Rightarrow> ('c, 'v) handshake \<Rightarrow> (nat \<times> ('c, 'v) handshake) result option" where
  "negotiate_loop api env hooks name h =
     (if \<not> negotiating (hs_status h) then Some (Inr (end_negotiation h))
      else case negotiate_step api env hooks name h of
          Inl e \<Rightarrow> Some (Inl e)
        | Inr (Again h1) \<Rightarrow> negotiate_loop api env hooks name h1
        | Inr (Leave h1) \<Rightarrow> Some (Inr (end_negotiation h1))
        | Inr (Give_Up status h1) \<Rightarrow> Some (Inr (status, h1)))"

text \<open>The first message to the server.\<close>

definition client_hello :: "'c sspi \<Rightarrow> wstring \<Rightarrow> ('c, 'v) handshake \<Rightarrow> ('c, 'v) handshake flow" where
  "client_hello api name h =
     (let c = hs_client h;
          a = first_token api (ssl_creds c) name;
          h1 = h\<lparr>hs_client := c\<lparr>ssl_context := isc_context a\<rparr>, hs_status := isc_status a, hs_io := 0, hs_do_read := True\<rparr>
      in if isc_status a \<noteq> sec_i_continue_needed
         then Give_Up (isc_status a)
                (h1\<lparr>hs_client := (capture_extended_error api (hs_client h1))\<lparr>ssl_status := isc_status a\<rparr>\<rparr>)
         else case isc_token a of
             None \<Rightarrow> Again h1
           | Some t \<Rightarrow>
               if t = [] then Again h1
               else (case send t (ssl_stream (hs_client h1)) of
                       (n, sock) \<Rightarrow>
                         if n = -1 then Give_Up crypt_e_file_error (close_context (on_stream sock h1))
                         else if 0 \<le> n \<and> nat n \<noteq> length t
                         then Give_Up sec_e_internal_error (close_context (on_stream sock h1))
                         else Again (on_stream sock h1)))"

definition sspi_negotiate ::
    "'c sspi \<Rightarrow> cert_env \<Rightarrow> 'v tls_hooks \<Rightarrow> wstring \<Rightarrow> ('c, 'v) handshake \<Rightarrow> (nat \<times> ('c, 'v) handshake) result option" where
  "sspi_negotiate api env hooks name h =
     (case client_hello api name h of
        Again h1 \<Rightarrow> negotiate_loop api env hooks name h1
      | Leave h1 \<Rightarrow> Some (Inr (hs_status h1, h1))
      | Give_Up status h1 \<Rightarrow> Some (Inr (status, h1)))"

section \<open>Starting and ending a session\<close>

text \<open>
  The table of Schannel's functions is fetched once for all clients. Bytes the caller read before are put
  into the read buffer; more than fit are \<open>Undefined\<close>.
\<close>

definition initialize_class :: "'c sspi \<Rightarrow> nat" where
  "initialize_class api =
     (case interface_error api of
        None \<Rightarrow> 0
      | Some err \<Rightarrow> if err = 0 then e_fail else hresult_from_win32 err)"

definition query_sizes_after :: "'c sspi \<Rightarrow> ('c, 'v) handshake \<Rightarrow> nat \<times> ('c, 'v) handshake" where
  "query_sizes_after api h =
     (case query_sizes api (ssl_context (hs_client h)) of
        Inl err \<Rightarrow> (err, h)
      | Inr sizes \<Rightarrow> (0, h\<lparr>hs_client := (hs_client h)\<lparr>ssl_sizes := sizes\<rparr>\<rparr>))"

definition preload :: "string \<Rightarrow> 'c ssl_client \<Rightarrow> 'c ssl_client result" where
  "preload data c =
     (if data = [] then Inr (c\<lparr>read_bytes := 0\<rparr>)
      else if read_buffer_size < length data then Inl Undefined
      else Inr (c\<lparr>read_bytes := length data, read_buffer := data @ drop (length data) (read_buffer c)\<rparr>))"

definition prepare_session ::
    "'c sspi \<Rightarrow> 'v tls_hooks \<Rightarrow> string \<Rightarrow> bool \<Rightarrow> ('c, 'v) handshake
     \<Rightarrow> ((nat \<times> bool \<times> ('c, 'v) handshake) + ('c, 'v) handshake) result" where
  "prepare_session api hooks data ready h0 =
     (let h = h0\<lparr>hs_client := (hs_client h0)\<lparr>cert_name_matches := False, cert_is_trusted := False\<rparr>\<rparr>;
          opened = (if ready then 0 else initialize_class api)
      in if failed opened then Inr (Inl (opened, False, h))
         else let (cert, stores) =
                    (case select_hook hooks of
                       None \<Rightarrow> (None, hs_stores h)
                     | Some select \<Rightarrow> snd (select None None False (hs_stores h)));
                  (status, new) = create_credentials api cert;
                  h1 = h\<lparr>hs_stores := stores, hs_client := (hs_client h)\<lparr>ssl_creds := new\<rparr>\<rparr>
              in if failed status then Inr (Inl (status, True, h1))
                 else bind_result (preload data (hs_client h1)) (\<lambda>c. Inr (Inr (h1\<lparr>hs_client := c\<rparr>))))"

definition conclude_session :: "'c sspi \<Rightarrow> nat \<times> ('c, 'v) handshake \<Rightarrow> nat \<times> bool \<times> ('c, 'v) handshake" where
  "conclude_session api r =
     (case r of (result, h) \<Rightarrow>
        if failed result then (result, True, h)
        else let (sized, h1) = query_sizes_after api h in (if failed sized then sized else 0, True, h1))"

definition ssl_initialize ::
    "'c sspi \<Rightarrow> cert_env \<Rightarrow> 'v tls_hooks \<Rightarrow> wstring \<Rightarrow> string \<Rightarrow> bool \<Rightarrow> ('c, 'v) handshake
     \<Rightarrow> (nat \<times> bool \<times> ('c, 'v) handshake) result option" where
  "ssl_initialize api env hooks name data ready h =
     (case prepare_session api hooks data ready h of
        Inl e \<Rightarrow> Some (Inl e)
      | Inr (Inl r) \<Rightarrow> Some (Inr r)
      | Inr (Inr h1) \<Rightarrow>
          map_option (\<lambda>r. bind_result r (\<lambda>x. Inr (conclude_session api x))) (sspi_negotiate api env hooks name h1))"

text \<open>
  A close notify that the socket could not send leaves an error code of the socket as the status, which
  is no failure as an \<open>HRESULT\<close>: the underlying socket is closed all the same.
\<close>

definition disconnect_ssl :: "'c sspi \<Rightarrow> 'c ssl_client \<Rightarrow> nat \<times> 'c ssl_client" where
  "disconnect_ssl api s =
     (let (status, c) = apply_control api (ssl_context s); s1 = s\<lparr>ssl_context := c\<rparr> in
      if failed status then (status, s1)
      else let a = shutdown_token api (ssl_creds s1) (ssl_context s1); s2 = s1\<lparr>ssl_context := isc_context a\<rparr> in
        if failed (isc_status a) then (isc_status a, s2)
        else case isc_token a of
            None \<Rightarrow> (isc_status a, s2)
          | Some t \<Rightarrow>
              if t = [] then (isc_status a, s2)
              else (case send t (ssl_stream s2) of
                      (n, sock) \<Rightarrow> if n = -1 \<or> n = 0 then (wsa_last_error api, s2\<lparr>ssl_stream := sock\<rparr>)
                        else (isc_status a, s2\<lparr>ssl_stream := sock\<rparr>)))"

definition ssl_disconnect :: "'c sspi \<Rightarrow> bool \<Rightarrow> 'c ssl_client \<Rightarrow> nat \<times> 'c ssl_client" where
  "ssl_disconnect api close_underlying s =
     (let (status, s1) = (if ssl_context s = None then (0, s) else disconnect_ssl api s) in
      if failed status then (status, s1)
      else if \<not> close_underlying then (0, s1)
      else case disconnect True (ssl_stream s1) of (r, sock) \<Rightarrow> (r, s1\<lparr>ssl_stream := sock\<rparr>))"


section \<open>What each part of a turn leaves alone\<close>

lemma close_context_frame [simp]:
  "hs_judge (close_context h) = hs_judge h" "hs_status (close_context h) = hs_status h"
  "hs_io (close_context h) = hs_io h" "hs_do_read (close_context h) = hs_do_read h"
  "ssl_stream (hs_client (close_context h)) = ssl_stream (hs_client h)"
  by (simp_all add: close_context_def)

lemma on_stream_frame [simp]:
  "hs_judge (on_stream s h) = hs_judge h" "hs_status (on_stream s h) = hs_status h"
  "hs_io (on_stream s h) = hs_io h" "hs_do_read (on_stream s h) = hs_do_read h"
  "ssl_context (hs_client (on_stream s h)) = ssl_context (hs_client h)"
  "read_buffer (hs_client (on_stream s h)) = read_buffer (hs_client h)"
  "ssl_stream (hs_client (on_stream s h)) = s"
  by (simp_all add: on_stream_def)

lemma capture_frame [simp]:
  "ssl_context (capture_extended_error api c) = ssl_context c"
  "ssl_stream (capture_extended_error api c) = ssl_stream c"
  "read_buffer (capture_extended_error api c) = read_buffer c"
  "read_bytes (capture_extended_error api c) = read_bytes c"
  "read_off (capture_extended_error api c) = read_off c"
  by (simp_all add: capture_extended_error_def Let_def split: option.splits prod.splits)

lemma new_credentials_frame:
  assumes "get_new_credentials api hooks h = (status, h')"
  shows "hs_judge h' = hs_judge h \<and> hs_io h' = hs_io h \<and> hs_status h' = hs_status h \<and> hs_do_read h' = hs_do_read h
    \<and> ssl_context (hs_client h') = ssl_context (hs_client h) \<and> ssl_stream (hs_client h') = ssl_stream (hs_client h)
    \<and> read_buffer (hs_client h') = read_buffer (hs_client h)"
  using assms
  by (auto simp: get_new_credentials_def Let_def split: sum.splits option.splits prod.splits if_splits)

lemma keep_extra_frame:
  assumes "keep_extra extra h = Inr (n, h')"
  shows "hs_judge h' = hs_judge h \<and> hs_io h' = hs_io h \<and> hs_status h' = hs_status h \<and> hs_do_read h' = hs_do_read h
    \<and> ssl_context (hs_client h') = ssl_context (hs_client h) \<and> ssl_stream (hs_client h') = ssl_stream (hs_client h)
    \<and> n \<le> hs_io h"
  using assms by (auto simp: keep_extra_def Let_def split: option.splits if_splits)

lemma judge_frame:
  assumes "judge_certificate api env hooks name h = Inr (ok, h')"
  shows "hs_io h' = hs_io h \<and> hs_status h' = hs_status h \<and> hs_do_read h' = hs_do_read h
    \<and> ssl_context (hs_client h') = ssl_context (hs_client h) \<and> ssl_stream (hs_client h') = ssl_stream (hs_client h)
    \<and> read_buffer (hs_client h') = read_buffer (hs_client h)"
  using assms
  by (auto simp: judge_certificate_def Let_def bind_result_Inr split: sum.splits option.splits)

lemma send_token_cases:
  assumes "send_token token h = f"
  obtains (sent) h' where "f = Again h'" "hs_judge h' = hs_judge h" "hs_io h' = hs_io h" "hs_status h' = hs_status h"
      "hs_do_read h' = hs_do_read h" "ssl_context (hs_client h') = ssl_context (hs_client h)"
      "read_buffer (hs_client h') = read_buffer (hs_client h)"
      "wire (ssl_stream (hs_client h')) = wire (ssl_stream (hs_client h))"
      "recv_initiated (ssl_stream (hs_client h')) = recv_initiated (ssl_stream (hs_client h))"
    | (lost) h' where "f = Give_Up sec_e_internal_error h'"
proof -
  consider "token = None \<or> token = Some []" | t n s where "token = Some t" "t \<noteq> []"
      "send t (ssl_stream (hs_client h)) = (n, s)"
    by (cases token) (auto, metis surj_pair)
  then show ?thesis
  proof cases
    case 1
    then have "f = Again h" using assms by (auto simp: send_token_def)
    then show ?thesis using sent by blast
  next
    case 2
    note frame = send_cases [OF 2(3)]
    show ?thesis
    proof (cases "n = -1 \<or> n = 0")
      case True
      then have "f = Give_Up sec_e_internal_error (close_context (on_stream s h))"
        using assms 2 by (simp add: send_token_def)
      then show ?thesis by (rule lost)
    next
      case False
      then have "f = Again (on_stream s h)" using assms 2 by (simp add: send_token_def)
      then show ?thesis using sent frame by simp
    qed
  qed
qed

section \<open>The loop ends\<close>

text \<open>
  A handshake has finitely many flights: each answer that asks for more moves Schannel's context closer
  to the end, and an incomplete message does not move it back.
\<close>

definition finite_flights :: "'c sspi \<Rightarrow> ('c option \<Rightarrow> nat) \<Rightarrow> bool" where
  "finite_flights api rank \<longleftrightarrow> (\<forall>cr c s.
     let a = next_token api cr c s in
       (isc_status a = sec_e_incomplete_message \<longrightarrow> rank (isc_context a) \<le> rank c)
       \<and> (isc_status a = sec_i_continue_needed \<or> isc_status a = sec_i_incomplete_credentials
            \<longrightarrow> rank (isc_context a) < rank c))"

definition turn_order :: "('c option \<Rightarrow> nat) \<Rightarrow> (('c, 'v) handshake \<times> ('c, 'v) handshake) set" where
  "turn_order rank = measures
     [\<lambda>h. rank (ssl_context (hs_client h)), \<lambda>h. if hs_status h = sec_e_incomplete_message then 0 else 1,
      \<lambda>h. read_buffer_size - hs_io h, \<lambda>h. if hs_do_read h then 0 else 1]"

lemmas statuses = sec_i_continue_needed_def sec_e_incomplete_message_def sec_i_incomplete_credentials_def
  sec_e_internal_error_def sec_e_unknown_credentials_def crypt_e_file_error_def succeeded_def

lemma read_server_cases:
  assumes "read_server h = Inr (Again h1)"
  shows "hs_judge h1 = hs_judge h \<and> hs_status h1 = hs_status h
    \<and> ssl_context (hs_client h1) = ssl_context (hs_client h)
    \<and> (hs_status h = sec_e_incomplete_message \<longrightarrow>
         hs_io h < hs_io h1 \<and> hs_io h1 \<le> read_buffer_size \<or> hs_io h1 = hs_io h \<and> \<not> hs_do_read h \<and> hs_do_read h1)"
  using assms by (auto simp: read_server_def Let_def split: if_splits prod.splits)

lemma after_token_again:
  assumes "after_token api hooks extra h = Inr (Again h')"
  shows "hs_judge h' = hs_judge h \<and> ssl_context (hs_client h') = ssl_context (hs_client h)
    \<and> (hs_status h = sec_e_incomplete_message \<and> h' = h
       \<or> hs_status h = sec_i_incomplete_credentials \<and> hs_status h' = sec_i_continue_needed
       \<or> hs_status h \<noteq> sec_e_incomplete_message \<and> hs_status h' = hs_status h)
    \<and> hs_status h \<noteq> 0 \<and> (succeeded (hs_status h) \<or> hs_status h = sec_e_incomplete_message)"
  using assms
  by (auto simp: after_token_def bind_result_Inr sec_e_incomplete_message_def split: if_splits prod.splits
      dest!: new_credentials_frame keep_extra_frame)

lemma ask_schannel_frame:
  assumes "ask_schannel api h = (a, h')"
  shows "hs_judge h' = hs_judge h \<and> hs_io h' = hs_io h \<and> hs_do_read h' = hs_do_read h \<and> hs_status h' = isc_status a
    \<and> ssl_context (hs_client h') = isc_context a \<and> ssl_stream (hs_client h') = ssl_stream (hs_client h)
    \<and> read_buffer (hs_client h') = read_buffer (hs_client h)
    \<and> a = next_token api (ssl_creds (hs_client h)) (ssl_context (hs_client h)) (take (hs_io h) (read_buffer (hs_client h)))"
  using assms by (auto simp: ask_schannel_def Let_def)

text \<open>A turn that goes on: what it read, what Schannel answered, and what came out of the answer.\<close>

lemma negotiate_step_again:
  assumes "negotiate_step api env hooks name h = Inr (Again h')"
  obtains h1 a h2 h4 where "read_server h = Inr (Again h1)" "ask_schannel api h1 = (a, h2)"
    "after_token api hooks (isc_extra a) h4 = Inr (Again h')"
    "hs_status h4 = hs_status h2" "hs_io h4 = hs_io h2" "hs_do_read h4 = hs_do_read h2"
    "ssl_context (hs_client h4) = ssl_context (hs_client h2)"
proof -
  from assms obtain h1 where r: "read_server h = Inr (Again h1)"
    by (cases "read_server h" rule: sum.exhaust; cases "projr (read_server h)") (auto simp: negotiate_step_def)
  obtain a h2 where q: "ask_schannel api h1 = (a, h2)" by force
  show ?thesis
  proof (cases "wants_judgement a")
    case False
    then show ?thesis using assms r q that [OF r q, of h2] by (simp add: negotiate_step_def)
  next
    case True
    with assms r q obtain h3 where j: "judge_certificate api env hooks name h2 = Inr (True, h3)"
        and s: "(case send_token (isc_token a) h3 of Again h4 \<Rightarrow> after_token api hooks (isc_extra a) h4
                 | other \<Rightarrow> Inr other) = Inr (Again h')"
      by (auto simp: negotiate_step_def bind_result_Inr split: if_splits)
    show ?thesis
    proof (cases rule: send_token_cases [OF refl, of "isc_token a" h3])
      case (1 h4)
      then show ?thesis using that [OF r q, of h4] s judge_frame [OF j] by simp
    next
      case 2
      then show ?thesis using s by simp
    qed
  qed
qed

lemma turn_decreases:
  assumes "finite_flights api rank" and "negotiating (hs_status h)"
    and "negotiate_step api env hooks name h = Inr (Again h')" and "negotiating (hs_status h')"
  shows "(h', h) \<in> turn_order rank"
proof -
  obtain h1 a h2 h4 where r: "read_server h = Inr (Again h1)" and q: "ask_schannel api h1 = (a, h2)"
    and t: "after_token api hooks (isc_extra a) h4 = Inr (Again h')"
    and e: "hs_status h4 = hs_status h2" "hs_io h4 = hs_io h2" "hs_do_read h4 = hs_do_read h2"
      "ssl_context (hs_client h4) = ssl_context (hs_client h2)"
    using negotiate_step_again [OF assms(3)] by metis
  note r = read_server_cases [OF r] and q = ask_schannel_frame [OF q] and t = after_token_again [OF t]
  have rank: "isc_status a = sec_e_incomplete_message \<Longrightarrow> rank (isc_context a) \<le> rank (ssl_context (hs_client h))"
    "isc_status a = sec_i_continue_needed \<or> isc_status a = sec_i_incomplete_credentials
      \<Longrightarrow> rank (isc_context a) < rank (ssl_context (hs_client h))"
    using assms(1) r q unfolding finite_flights_def Let_def by metis+
  have ctx: "ssl_context (hs_client h') = isc_context a" using q t e by simp
  consider "isc_status a = sec_e_incomplete_message" "h' = h4"
    | "isc_status a = sec_i_continue_needed \<or> isc_status a = sec_i_incomplete_credentials"
    using t q e assms(4) unfolding negotiating_def by metis
  then show ?thesis
  proof cases
    case 1
    with r q e rank(1) show ?thesis by (auto simp: turn_order_def in_measures)
  next
    case 2
    then show ?thesis using rank(2) ctx by (simp add: turn_order_def in_measures)
  qed
qed

lemma negotiate_loop_returns:
  assumes "finite_flights api rank"
  shows "\<exists>r. negotiate_loop api env hooks name h = Some r"
proof -
  have "wf (turn_order rank)" unfolding turn_order_def by simp
  then show ?thesis
proof (induction h rule: wf_induct_rule)
  case (less h)
  show ?case
  proof (cases "negotiating (hs_status h)")
    case False
    then show ?thesis by (subst negotiate_loop.simps) simp
  next
    case neg: True
    show ?thesis
    proof (cases "\<exists>h1. negotiate_step api env hooks name h = Inr (Again h1)")
      case False
      then show ?thesis using neg by (subst negotiate_loop.simps) (auto split: sum.splits flow.splits)
    next
      case True
      then obtain h1 where s: "negotiate_step api env hooks name h = Inr (Again h1)" by blast
      have "\<exists>r. negotiate_loop api env hooks name h1 = Some r"
      proof (cases "negotiating (hs_status h1)")
        case True
        then show ?thesis using less turn_decreases [OF assms neg s True] by blast
      next
        case False
        then show ?thesis by (subst negotiate_loop.simps) simp
      qed
      with s neg show ?thesis by (subst negotiate_loop.simps) simp
    qed
  qed
qed
qed


section \<open>A session only stands on accepted certificates\<close>

lemma after_token_judge:
  assumes "after_token api hooks extra h = Inr f"
  shows "(\<exists>h'. (f = Again h' \<or> f = Leave h') \<and> hs_judge h' = hs_judge h)"
  using assms
  by (auto simp: after_token_def bind_result_Inr split: if_splits prod.splits
      dest!: new_credentials_frame keep_extra_frame)

lemma read_server_judge:
  assumes "read_server h = Inr f"
  shows "(\<exists>h'. (f = Again h' \<or> f = Leave h') \<and> hs_judge h' = hs_judge h)"
  using assms by (auto simp: read_server_def Let_def split: if_splits prod.splits)

text \<open>
  The contract between the handshake and the hook that judges certificates: what the hook keeps when it
  accepts, a successful handshake keeps.
\<close>

locale certificate_judge =
  fixes accept :: "cert_context \<Rightarrow> bool \<Rightarrow> bool \<Rightarrow> 'v \<Rightarrow> (bool \<times> 'v) result"
    and good :: "'v \<Rightarrow> bool"
  assumes accept_keeps: "good v \<Longrightarrow> accept c trusted matches v = Inr (True, v') \<Longrightarrow> good v'"
begin

definition good_flow :: "('c, 'v) handshake flow \<Rightarrow> bool" where
  "good_flow f \<longleftrightarrow> (case f of Again h \<Rightarrow> good (hs_judge h) | Leave h \<Rightarrow> good (hs_judge h) | Give_Up status h \<Rightarrow> failed status)"

lemma judge_good:
  assumes "judge_certificate api env hooks name h = Inr (True, h')" and "accept_hook hooks = Some accept"
    and "good (hs_judge h)"
  shows "good (hs_judge h')"
  using assms accept_keeps
  by (auto simp: judge_certificate_def Let_def bind_result_Inr split: sum.splits)

lemma step_good:
  assumes "negotiate_step api env hooks name h = Inr f" and "accept_hook hooks = Some accept"
    and "good (hs_judge h)"
  shows "good_flow f"
proof -
  obtain f1 where r: "read_server h = Inr f1" using assms(1) by (auto simp: negotiate_step_def bind_result_Inr)
  obtain h1 where h1: "f1 = Again h1 \<or> f1 = Leave h1" "hs_judge h1 = hs_judge h"
    using read_server_judge [OF r] by blast
  show ?thesis
  proof (cases "f1 = Again h1")
    case False
    then show ?thesis using h1 r assms by (auto simp: negotiate_step_def good_flow_def)
  next
    case True
    obtain a h2 where q: "ask_schannel api h1 = (a, h2)" by force
    have g: "good (hs_judge h2)" using ask_schannel_frame [OF q] h1(2) assms(3) by simp
    show ?thesis
    proof (cases "wants_judgement a")
      case False
      then have "after_token api hooks (isc_extra a) h2 = Inr f"
        using assms(1) r q True by (simp add: negotiate_step_def)
      then show ?thesis using after_token_judge [of api hooks "isc_extra a" h2 f] g by (auto simp: good_flow_def)
    next
      case wants: True
      with assms(1) r q True obtain ok h3 where j: "judge_certificate api env hooks name h2 = Inr (ok, h3)"
          and f: "(if \<not> ok then Inr (Give_Up sec_e_unknown_credentials h3)
                   else case send_token (isc_token a) h3 of Again h4 \<Rightarrow> after_token api hooks (isc_extra a) h4
                   | other \<Rightarrow> Inr other) = Inr f"
        by (auto simp: negotiate_step_def bind_result_Inr)
      show ?thesis
      proof (cases ok)
        case False
        then show ?thesis using f by (auto simp: good_flow_def statuses)
      next
        case True
        have g3: "good (hs_judge h3)" using judge_good j g assms(2) True by metis
        show ?thesis
        proof (cases rule: send_token_cases [OF refl, of "isc_token a" h3])
          case (1 h4)
          then have "after_token api hooks (isc_extra a) h4 = Inr f" using f True by simp
          then show ?thesis
            using after_token_judge [of api hooks "isc_extra a" h4 f] g3 1 by (auto simp: good_flow_def)
        next
          case (2 h')
          then have "f = Give_Up sec_e_internal_error h'" using f True by simp
          then show ?thesis by (simp add: good_flow_def statuses)
        qed
      qed
    qed
  qed
qed

lemma end_good: "good (hs_judge h) \<Longrightarrow> end_negotiation h = (status, h') \<Longrightarrow> good (hs_judge h')
    \<and> (succeeded status \<longrightarrow> ssl_encrypting (hs_client h'))"
  by (auto simp: end_negotiation_def Let_def)

lemma loop_good:
  assumes "negotiate_loop api env hooks name h = Some r" and "accept_hook hooks = Some accept"
    and "good (hs_judge h)" and "r = Inr (status, h')" and "succeeded status"
  shows "good (hs_judge h') \<and> ssl_encrypting (hs_client h')"
  using assms
proof (induction arbitrary: status h' rule: negotiate_loop.raw_induct [rotated, consumes 1, case_names 1])
  case (1 loop api env hooks name h r)
  show ?case
  proof (cases "negotiating (hs_status h)")
    case False
    then show ?thesis using 1 end_good [of h] by simp
  next
    case True
    with "1.prems"(3) "1.hyps" obtain f where s: "negotiate_step api env hooks name h = Inr f"
      by (auto split: sum.splits)
    note g = step_good [OF s "1.prems"(1,2)]
    show ?thesis
    proof (cases f)
      case (Again h1)
      then show ?thesis using 1 s True g by (auto simp: good_flow_def)
    next
      case (Leave h1)
      then show ?thesis using 1 s True g end_good [of h1] by (auto simp: good_flow_def)
    next
      case (Give_Up st h1)
      then show ?thesis using 1 s True g by (auto simp: good_flow_def)
    qed
  qed
qed

end

text \<open>Schannel's first answer is a request to go on or a failure.\<close>

definition starts_handshake :: "'c sspi \<Rightarrow> bool" where
  "starts_handshake api \<longleftrightarrow> (\<forall>cr name. isc_status (first_token api cr name) = sec_i_continue_needed
     \<or> failed (isc_status (first_token api cr name)))"

lemma client_hello_cases:
  "\<exists>h'. (client_hello api name h = Again h'
         \<or> (\<exists>st. client_hello api name h = Give_Up st h' \<and> (starts_handshake api \<longrightarrow> failed st)))
      \<and> hs_judge h' = hs_judge h"
  by (auto simp: client_hello_def starts_handshake_def Let_def statuses split: option.splits prod.splits)

lemma prepare_cases:
  assumes "prepare_session api hooks data ready h = Inr r"
  shows "(\<exists>st b g. r = Inl (st, b, g) \<and> failed st) \<or> (\<exists>g. r = Inr g \<and> hs_judge g = hs_judge h)"
  using assms by (auto simp: prepare_session_def Let_def bind_result_Inr split: prod.splits if_splits)

lemma conclude_cases:
  "conclude_session api (result, g) = (status, b, g') \<Longrightarrow> succeeded status \<Longrightarrow>
    succeeded result \<and> hs_judge g' = hs_judge g \<and> ssl_encrypting (hs_client g') = ssl_encrypting (hs_client g)"
  by (auto simp: conclude_session_def query_sizes_after_def split: prod.splits sum.splits if_splits)

lemma initialize_cases:
  assumes "ssl_initialize api env hooks name data ready h = Some (Inr (status, ready', h'))" and "succeeded status"
  shows "\<exists>g result g'. hs_judge g = hs_judge h \<and> sspi_negotiate api env hooks name g = Some (Inr (result, g'))
    \<and> succeeded result \<and> hs_judge h' = hs_judge g' \<and> ssl_encrypting (hs_client h') = ssl_encrypting (hs_client g')"
proof -
  obtain r where r: "prepare_session api hooks data ready h = Inr r"
    using assms(1) by (auto simp: ssl_initialize_def split: sum.splits)
  from prepare_cases [OF r] assms r obtain g where g: "r = Inr g" "hs_judge g = hs_judge h"
    by (auto simp: ssl_initialize_def)
  with assms(1) r obtain result g' where
      n: "sspi_negotiate api env hooks name g = Some (Inr (result, g'))" "conclude_session api (result, g') = (status, ready', h')"
    by (auto simp: ssl_initialize_def bind_result_Inr)
  with g conclude_cases [OF n(2) assms(2)] show ?thesis by auto
qed

context certificate_judge
begin

lemma initialize_good:
  assumes "ssl_initialize api env hooks name data ready h = Some (Inr (status, ready', h'))" and "succeeded status"
    and "accept_hook hooks = Some accept" and "good (hs_judge h)"
  shows "good (hs_judge h') \<and> (starts_handshake api \<longrightarrow> ssl_encrypting (hs_client h'))"
proof -
  obtain g result g' where g: "hs_judge g = hs_judge h" "sspi_negotiate api env hooks name g = Some (Inr (result, g'))"
      "succeeded result" "hs_judge h' = hs_judge g'" "ssl_encrypting (hs_client h') = ssl_encrypting (hs_client g')"
    using initialize_cases [OF assms(1,2)] by blast
  obtain g1 where j: "hs_judge g1 = hs_judge g" and g1: "client_hello api name g = Again g1
       \<or> (\<exists>st. client_hello api name g = Give_Up st g1 \<and> (starts_handshake api \<longrightarrow> failed st))"
    using client_hello_cases [of api name g] by blast
  show ?thesis
  proof (cases "client_hello api name g = Again g1")
    case True
    then have "negotiate_loop api env hooks name g1 = Some (Inr (result, g'))"
      using g(2) by (simp add: sspi_negotiate_def)
    from loop_good [OF this assms(3) _ refl g(3)] g j assms(4) show ?thesis by simp
  next
    case False
    with g1 g j assms(4) show ?thesis by (auto simp: sspi_negotiate_def)
  qed
qed

end

section \<open>Witness\<close>


end
