(* ===== verification/Dial.thy ===== *)
theory Dial imports SslHandshake Socks5 begin

text \<open>
  \<open>Dial\<close> (\<open>socket/Dial.cpp\<close>): one path from the options to a connection, direct or through a SOCKS5
  proxy, in the clear or under TLS with the certificate verified. What the outside answers (the network,
  the name services, Windows' certificate functions, Schannel) is one record; the certificate stores and
  the function table that live as long as the process are a state of their own.
\<close>

section \<open>The outside and the process\<close>

record 'c dial_env =
  env_names :: name_api
  env_crypto :: crypto_api
  env_certs :: cert_env
  env_schannel :: "'c sspi"
  env_startup_ok :: bool
  env_network :: "wstring \<Rightarrow> u16 \<Rightarrow> connect_io"

record process_state =
  proc_stores :: store_cache
  proc_ready :: bool

text \<open>\<open>DialedConnection\<close>: a socket, and a TLS client on it when the connection is secure.\<close>

datatype 'c connection = Plain base_sock | Secure "'c ssl_client"

definition secure :: "'c connection \<Rightarrow> bool" where
  "secure conn = (case conn of Plain s \<Rightarrow> False | Secure s \<Rightarrow> True)"

section \<open>Error texts\<close>

definition connect_failure :: "nat \<Rightarrow> string \<times> string" where
  "connect_failure code =
     (if code = 10061 then (''connect_refused'', ''connection refused'')
      else if code = 10060 \<or> code = error_timeout then (''connect_timeout'', ''connection timed out'')
      else if code = 10051 then (''connect_network_unreachable'', ''network unreachable'')
      else if code = 10065 then (''connect_network_unreachable'', ''host unreachable'')
      else if code = 10064 then (''connect_network_unreachable'', ''host down'')
      else if code = 11001 then (''dns_failed'', ''host not found'')
      else (''connect_failed'', ''connection failed''))"

definition dial_error_text :: "text_api \<Rightarrow> wstring \<Rightarrow> u16 \<Rightarrow> nat \<Rightarrow> string" where
  "dial_error_text api host port code =
     (let (detail, text) = connect_failure code in
      ''['' @ detail @ ''] '' @ endpoint api host port @ '': '' @ text
      @ (if code \<noteq> 0 then '' (error '' @ nat_str code @ '')'' else []))"

definition hex8 :: "nat \<Rightarrow> string" where
  "hex8 n = map (\<lambda>k. digit_chr (n div 16 ^ k mod 16)) [7, 6, 5, 4, 3, 2, 1, 0]"

definition handshake_failure :: "text_api \<Rightarrow> wstring \<Rightarrow> u16 \<Rightarrow> 'c ssl_client \<Rightarrow> error" where
  "handshake_failure api name port tls =
     dial_error ''tls_handshake_failed''
       (endpoint api name port @ '': TLS handshake failed (SSPI 0x'' @ hex8 (ssl_status tls) @ '')''
        @ (if ssl_extended tls = [] then [] else '': '' @ utf8 api (ssl_extended tls)))"

section \<open>Dialling\<close>

text \<open>
  The connection below TLS. With a proxy only the proxy is connected to, and the target goes to it in
  the SOCKS5 handshake.
\<close>

definition connect_to :: "'c dial_env \<Rightarrow> wstring \<Rightarrow> u16 \<Rightarrow> string \<Rightarrow> unit dialing" where
  "connect_to env host port code st =
     (case connect (env_network env host port) (sock st) of
        (ok, s) \<Rightarrow>
          (if ok then Inr ()
           else Inl (Dial_Error code (dial_error_text (texts (env_names env)) host port (last_error s))),
           st\<lparr>sock := s\<rparr>))"

definition reach_target :: "'c dial_env \<Rightarrow> dial_options \<Rightarrow> nat \<Rightarrow> unit dialing" where
  "reach_target env opts started =
     (case dial_proxy opts of
        Some proxy \<Rightarrow>
          bind_dial (connect_to env (proxy_host proxy) (proxy_port proxy) ''proxy_connect_refused'') (\<lambda>_.
            socks5_handshake (env_names env) proxy opts started (dial_host opts) (dial_port opts))
      | None \<Rightarrow> connect_to env (dial_host opts) (dial_port opts) ''connect_failed'')"

definition open_transport :: "'c dial_env \<Rightarrow> dial_options \<Rightarrow> nat \<Rightarrow> unit dialing" where
  "open_transport env opts started =
     bind_dial (lift_result (BaseSock.construct (env_startup_ok env))) (\<lambda>_.
     bind_dial (arm opts started) (\<lambda>_. reach_target env opts started))"

text \<open>The verdict on a finished handshake: the connection, or the reason that is reported.\<close>

definition verifier_hooks :: "'c dial_env \<Rightarrow> verifier tls_hooks" where
  "verifier_hooks env =
     \<lparr>accept_hook = Some (\<lambda>cert trusted matches v. check (env_crypto env) (Some cert) v),
      select_hook = Some (select_client_certificate (env_certs env))\<rparr>"

definition tls_verdict :: "'c dial_env \<Rightarrow> dial_options \<Rightarrow> wstring \<Rightarrow> nat \<Rightarrow> verifier \<Rightarrow> 'c ssl_client \<Rightarrow> 'c connection result" where
  "tls_verdict env opts name status v tls =
     (if failed status
      then if ver_checked v \<and> \<not> passed v
           then Inl (Dial_Error (if ver_code v = [] then ''tls_handshake_failed'' else ver_code v)
                       (message (env_crypto env) v))
           else Inl (handshake_failure (texts (env_names env)) name (dial_port opts) tls)
      else if dial_tls_verify opts \<and> \<not> ver_checked v
      then Inl (dial_error ''tls_no_certificate'' (endpoint (texts (env_names env)) name (dial_port opts)
             @ '': the peer completed a TLS handshake without presenting a certificate to verify''))
      else Inr (Secure tls))"

definition tls_session ::
    "'c dial_env \<Rightarrow> dial_options \<Rightarrow> process_state \<Rightarrow> dial_state
     \<Rightarrow> ('c connection result \<times> process_state \<times> dial_state) option" where
  "tls_session env opts p st =
     (let name = sni_name (dial_host opts) (dial_sni opts);
          v = new_verifier (env_crypto env) name (dial_ca_file opts) (dial_tls_verify opts) (dial_tls_check_revocation opts);
          h = \<lparr>hs_client = new_ssl_client (sock st), hs_stores = proc_stores p, hs_judge = v,
               hs_status = 0, hs_io = 0, hs_do_read = True\<rparr>
      in case ssl_initialize (env_schannel env) (env_certs env) (verifier_hooks env) name [] (proc_ready p) h of
           None \<Rightarrow> None
         | Some (Inl e) \<Rightarrow> Some (Inl e, p, st)
         | Some (Inr (status, ready, h1)) \<Rightarrow>
             Some (tls_verdict env opts name status (hs_judge h1) (hs_client h1),
               p\<lparr>proc_stores := hs_stores h1, proc_ready := ready\<rparr>, st\<lparr>sock := ssl_stream (hs_client h1)\<rparr>))"

definition dial ::
    "'c dial_env \<Rightarrow> dial_options \<Rightarrow> process_state \<Rightarrow> dial_state
     \<Rightarrow> ('c connection result \<times> process_state \<times> dial_state) option" where
  "dial env opts p st0 =
     (let (started, st) = read_steady st0 in
      case open_transport env opts started st of
        (Inl e, st1) \<Rightarrow> Some (Inl e, p, st1)
      | (Inr _, st1) \<Rightarrow>
          if \<not> dial_ssl opts then Some (Inr (Plain (sock st1)), p, st1)
          else (case arm opts started st1 of
              (Inl e, st2) \<Rightarrow> Some (Inl e, p, st2)
            | (Inr _, st2) \<Rightarrow> tls_session env opts p st2))"

section \<open>The verifier as the judge of certificates\<close>

text \<open>
  The verifier the hook works on is the fresh one, or that one after a check; with verification on it
  has then been vouched for.
\<close>

definition so_far_so_good :: "crypto_api \<Rightarrow> verifier \<Rightarrow> verifier \<Rightarrow> bool" where
  "so_far_so_good api v0 v \<longleftrightarrow> v = v0 \<or> v = v0\<lparr>ver_checked := True\<rparr>
     \<and> (ver_verify v0 \<longrightarrow> \<not> ver_failed v0 \<and> (\<exists>c. vouches api c v0))"

lemma check_keeps_good:
  assumes "so_far_so_good api v0 v" and "check api (Some c) v = Inr (True, v')"
  shows "so_far_so_good api v0 v'"
proof (cases "ver_verify v")
  case False
  then have v': "v' = v\<lparr>ver_checked := True\<rparr>" using assms(2) by (simp add: check_def)
  have "ver_verify v = ver_verify v0" using assms(1) by (auto simp: so_far_so_good_def)
  with False v' assms(1) show ?thesis by (auto simp: so_far_so_good_def)
next
  case True
  from check_cases [OF assms(2) True] have v': "v' = v\<lparr>ver_checked := True\<rparr>" by simp
  have "\<not> ver_failed v" "vouches api c v" using check_accepts [OF True, of api "Some c"] assms(2) by auto
  moreover have "v\<lparr>ver_checked := True\<rparr> = v0\<lparr>ver_checked := True\<rparr>" "ver_failed v = ver_failed v0"
      "vouches api c v = vouches api c v0"
    using assms(1) by (auto simp: so_far_so_good_def)
  ultimately show ?thesis using v' by (auto simp: so_far_so_good_def)
qed

interpretation verifier_judge: certificate_judge "\<lambda>cert trusted matches v. check api (Some cert) v" "so_far_so_good api v0"
  for api v0
  by unfold_locales (rule check_keeps_good)

section \<open>What a connection stands for\<close>

lemma new_verifier_fields:
  "ver_verify (new_verifier api host ca verify revoke) = verify"
  "ver_host (new_verifier api host ca verify revoke) = host"
  "\<not> ver_checked (new_verifier api host ca verify revoke)"
proof -
  have add: "ver_verify (add_roots api cs v) = ver_verify v \<and> ver_host (add_roots api cs v) = ver_host v
      \<and> ver_checked (add_roots api cs v) = ver_checked v" for cs v
    by (induction cs arbitrary: v) (simp_all add: Let_def)
  have load: "ver_verify (load_roots api ca v) = ver_verify v \<and> ver_host (load_roots api ca v) = ver_host v
      \<and> ver_checked (load_roots api ca v) = ver_checked v" for v
    using add by (auto simp: load_roots_def fail_def Let_def split: option.splits)
  show "ver_verify (new_verifier api host ca verify revoke) = verify"
    "ver_host (new_verifier api host ca verify revoke) = host"
    "\<not> ver_checked (new_verifier api host ca verify revoke)"
    using load by (auto simp: new_verifier_def Let_def)
qed

definition the_verifier :: "'c dial_env \<Rightarrow> dial_options \<Rightarrow> verifier" where
  "the_verifier env opts = new_verifier (env_crypto env) (sni_name (dial_host opts) (dial_sni opts))
     (dial_ca_file opts) (dial_tls_verify opts) (dial_tls_check_revocation opts)"

lemma tls_session_success:
  fixes env :: "'c dial_env"
  assumes "tls_session env opts p st = Some (Inr conn, p', st')"
  shows "\<exists>tls. conn = Secure tls \<and> (starts_handshake (env_schannel env) \<longrightarrow> ssl_encrypting tls)
    \<and> (dial_tls_verify opts \<longrightarrow> \<not> ver_failed (the_verifier env opts) \<and> (\<exists>c. vouches (env_crypto env) c (the_verifier env opts)))"
proof -
  let ?v = "the_verifier env opts"
  let ?name = "sni_name (dial_host opts) (dial_sni opts)"
  define h :: "('c, verifier) handshake" where "h = \<lparr>hs_client = new_ssl_client (sock st), hs_stores = proc_stores p, hs_judge = ?v,
       hs_status = 0, hs_io = 0, hs_do_read = True\<rparr>"
  from assms obtain status ready h1 where
      i: "ssl_initialize (env_schannel env) (env_certs env) (verifier_hooks env) ?name [] (proc_ready p) h
           = Some (Inr (status, ready, h1))"
      and d: "tls_verdict env opts ?name status (hs_judge h1) (hs_client h1) = Inr conn"
    by (auto simp: tls_session_def Let_def h_def the_verifier_def split: option.splits sum.splits)
  have s: "succeeded status" "conn = Secure (hs_client h1)" "dial_tls_verify opts \<Longrightarrow> ver_checked (hs_judge h1)"
    using d by (auto simp: tls_verdict_def split: if_splits)
  have good: "so_far_so_good (env_crypto env) ?v (hs_judge h1)
      \<and> (starts_handshake (env_schannel env) \<longrightarrow> ssl_encrypting (hs_client h1))"
    by (rule verifier_judge.initialize_good [OF i s(1)]) (simp_all add: verifier_hooks_def h_def so_far_so_good_def)
  have "\<not> ver_checked ?v" "ver_verify ?v = dial_tls_verify opts"
    by (simp_all add: the_verifier_def new_verifier_fields)
  with good s show ?thesis by (auto simp: so_far_so_good_def)
qed

lemma dial_success:
  assumes "dial env opts p st = Some (Inr conn, p', st')"
  shows "if dial_ssl opts then (\<exists>st2. tls_session env opts p st2 = Some (Inr conn, p', st')) else conn = Plain (sock st')"
  using assms
  by (auto simp: dial_def Let_def split: prod.splits sum.splits if_splits)


section \<open>No way around the proxy\<close>

text \<open>
  C12. With a proxy configured nothing but the proxy is ever connected to: two networks that answer alike
  at the proxy's address give the same outcome, success or failure, whatever they answer for the target.
\<close>

theorem dial_only_proxy:
  assumes "dial_proxy opts = Some proxy" and "env_network env (proxy_host proxy) (proxy_port proxy) = reach (proxy_host proxy) (proxy_port proxy)"
  shows "dial (env\<lparr>env_network := reach\<rparr>) opts p st = dial env opts p st"
proof -
  have "connect_to (env\<lparr>env_network := reach\<rparr>) (proxy_host proxy) (proxy_port proxy) = connect_to env (proxy_host proxy) (proxy_port proxy)"
    using assms(2) by (auto simp: fun_eq_iff connect_to_def split: prod.splits)
  then have t: "open_transport (env\<lparr>env_network := reach\<rparr>) opts t0 = open_transport env opts t0" for t0
    using assms(1) by (simp add: open_transport_def reach_target_def)
  have v: "tls_verdict (env\<lparr>env_network := reach\<rparr>) opts name n ver tls = tls_verdict env opts name n ver tls" for name n ver tls
    by (simp add: tls_verdict_def)
  have "verifier_hooks (env\<lparr>env_network := reach\<rparr>) = verifier_hooks env" by (simp add: verifier_hooks_def)
  then have "tls_session (env\<lparr>env_network := reach\<rparr>) opts p st2 = tls_session env opts p st2" for st2
    by (auto simp: tls_session_def v Let_def split: option.splits sum.splits)
  with t show ?thesis by (auto simp: dial_def split: prod.splits sum.splits)
qed

section \<open>A concrete run\<close>

definition demo_network :: "wstring \<Rightarrow> u16 \<Rightarrow> connect_io" where
  "demo_network host port = \<lparr>co_socket = Some 1, co_connect_error = None, co_update_error = None,
     co_setup = \<lparr>nodelay_error = None, new_read_event = Some 1, new_write_event = Some 2, event_error = 0,
       resets_ok = True, reset_error = 0\<rparr>\<rparr>"

definition demo_dial_env :: "unit dial_env" where
  "demo_dial_env = \<lparr>env_names = demo_names, env_crypto = demo_crypto, env_certs = demo_env,
     env_schannel = demo_sspi\<lparr>remote_cert := (\<lambda>c. Inr (context_of demo_certificate))\<rparr>,
     env_startup_ok = True, env_network = demo_network\<rparr>"

definition demo_tls_options :: dial_options where
  "demo_tls_options = demo_options\<lparr>dial_host := widen ''a.b'', dial_port := 8443, dial_ssl := True, dial_proxy := None\<rparr>"

definition demo_process :: process_state where
  "demo_process = \<lparr>proc_stores = [], proc_ready = False\<rparr>"

lemma demo_verifier_is: "the_verifier demo_dial_env demo_tls_options = demo_verifier"
  by (simp add: the_verifier_def demo_dial_env_def demo_tls_options_def demo_options_def sni_name_def demo_verifier_def
      widen_def)

definition demo_ready :: "base_sock \<Rightarrow> bool" where
  "demo_ready s \<longleftrightarrow> \<not> recv_initiated s \<and> clock s = [] \<and> recv_answers s = [ready_io 600] \<and> wire s = ''x''
     \<and> recv_timer_automatic s \<and> recv_timeout_seconds s = 30"

lemma demo_read:
  assumes "demo_ready s"
  shows "\<exists>s'. recv 0 read_buffer_size (Suc 0) s = (1, [(0, ''x'')], s')"
  using assms
  by (simp add: demo_ready_def recv_def recv_loop.simps [of _ _ _ 0] recv_loop.simps [of _ _ _ "Suc 0"] recv_partial_def
      read_clock_def next_recv_def start_recv_timer_internal_def start_read_def ready_io_def silent_io_def await_io_def
      finish_read_def sz_sub_def read_buffer_size_def Let_def)

lemma demo_turn:
  fixes h :: "(unit, verifier) handshake"
  assumes "demo_ready (ssl_stream (hs_client h))" and "hs_status h = sec_i_continue_needed" and "hs_io h = 0"
    and "hs_do_read h" and "hs_judge h = demo_verifier"
  shows "\<exists>h'. negotiate_loop (env_schannel demo_dial_env) (env_certs demo_dial_env) (verifier_hooks demo_dial_env) name h
     = Some (Inr (0, h')) \<and> hs_judge h' = demo_verifier\<lparr>ver_checked := True\<rparr>"
proof -
  obtain s' where r: "recv 0 read_buffer_size (Suc 0) (ssl_stream (hs_client h)) = (1, [(0, ''x'')], s')"
    using demo_read [OF assms(1)] by blast
  obtain h1 where h1: "read_server h = Inr (Again h1)" "hs_judge h1 = demo_verifier"
    using r assms by (simp add: read_server_def read_buffer_size_def)
  obtain h2 where h2: "ask_schannel (env_schannel demo_dial_env) h1 = (demo_answer, h2)" "hs_judge h2 = demo_verifier"
      "hs_status h2 = 0"
    using h1(2) by (simp add: ask_schannel_def demo_dial_env_def demo_sspi_def demo_answer_def Let_def)
  obtain h3 where h3: "judge_certificate (env_schannel demo_dial_env) (env_certs demo_dial_env)
        (verifier_hooks demo_dial_env) name h2 = Inr (True, h3)" "hs_judge h3 = demo_verifier\<lparr>ver_checked := True\<rparr>" "hs_status h3 = 0"
    using h2(2,3) demo_check by (simp add: judge_certificate_def demo_dial_env_def verifier_hooks_def Let_def)
  have "\<exists>h4. negotiate_step (env_schannel demo_dial_env) (env_certs demo_dial_env) (verifier_hooks demo_dial_env) name h
      = Inr (Leave h4) \<and> hs_judge h4 = demo_verifier\<lparr>ver_checked := True\<rparr> \<and> hs_status h4 = 0"
    using h1 h2 h3
    by (simp add: negotiate_step_def wants_judgement_def demo_answer_def send_token_def after_token_def keep_extra_def statuses)
  then obtain h4 where "negotiate_step (env_schannel demo_dial_env) (env_certs demo_dial_env) (verifier_hooks demo_dial_env) name h
      = Inr (Leave h4)" "hs_judge h4 = demo_verifier\<lparr>ver_checked := True\<rparr>" "hs_status h4 = 0" by blast
  then show ?thesis
    using assms(2) by (subst negotiate_loop.simps) (simp add: negotiating_def end_negotiation_def statuses Let_def)
qed

lemma demo_session:
  assumes "demo_ready (sock st)"
  shows "\<exists>tls p' st'. tls_session demo_dial_env demo_tls_options p st = Some (Inr (Secure tls), p', st')"
proof -
  let ?env = demo_dial_env
  define h :: "(unit, verifier) handshake" where "h = \<lparr>hs_client = new_ssl_client (sock st), hs_stores = proc_stores p,
     hs_judge = demo_verifier, hs_status = 0, hs_io = 0, hs_do_read = True\<rparr>"
  obtain g where g: "prepare_session (env_schannel ?env) (verifier_hooks ?env) [] (proc_ready p) h = Inr (Inr g)"
      "hs_judge g = demo_verifier" "ssl_stream (hs_client g) = sock st"
    by (simp add: prepare_session_def h_def demo_dial_env_def demo_sspi_def verifier_hooks_def select_client_certificate_def
        create_credentials_def initialize_class_def preload_def new_ssl_client_def succeeded_def)
  obtain g1 where g1: "client_hello (env_schannel ?env) name g = Again g1" "hs_judge g1 = demo_verifier"
      "hs_status g1 = sec_i_continue_needed" "hs_io g1 = 0" "hs_do_read g1" "demo_ready (ssl_stream (hs_client g1))" for name
    using g assms by (simp add: client_hello_def demo_dial_env_def demo_sspi_def demo_answer_def Let_def)
  obtain h1 where "negotiate_loop (env_schannel ?env) (env_certs ?env) (verifier_hooks ?env) (widen ''a.b'') g1
      = Some (Inr (0, h1))" "hs_judge h1 = demo_verifier\<lparr>ver_checked := True\<rparr>"
    using demo_turn [OF g1(6,3,4,5,2)] by blast
  moreover have "conclude_session (env_schannel ?env) (0, h1) =
      (0, True, h1\<lparr>hs_client := (hs_client h1)\<lparr>ssl_sizes := \<lparr>cb_header = 5, cb_trailer = 36, cb_maximum = 16384\<rparr>\<rparr>\<rparr>)" for h1 :: "(unit, verifier) handshake"
    by (simp add: conclude_session_def query_sizes_after_def demo_dial_env_def demo_sspi_def succeeded_def)
  ultimately have "\<exists>h2. ssl_initialize (env_schannel ?env) (env_certs ?env) (verifier_hooks ?env) (widen ''a.b'') [] (proc_ready p) h
      = Some (Inr (0, True, h2)) \<and> hs_judge h2 = demo_verifier\<lparr>ver_checked := True\<rparr>"
    using g g1 by (simp add: ssl_initialize_def sspi_negotiate_def)
  then show ?thesis
    using demo_verifier_is
    by (auto simp: tls_session_def the_verifier_def tls_verdict_def h_def demo_tls_options_def demo_options_def sni_name_def
        widen_def succeeded_def Let_def)
qed

lemma demo_dialled:
  "\<exists>tls p' st'. dial demo_dial_env demo_tls_options demo_process
     \<lparr>sock = new_sock\<lparr>recv_answers := [ready_io 600], wire := ''x''\<rparr>, steady = []\<rparr> = Some (Inr (Secure tls), p', st')"
proof -
  let ?st = "\<lparr>sock = new_sock\<lparr>recv_answers := [ready_io 600], wire := ''x''\<rparr>, steady = []\<rparr>"
  have sec: "seconds 30000 = 30" by (simp add: seconds_def to_int32_def)
  obtain st1 where t: "open_transport demo_dial_env demo_tls_options 0 ?st = (Inr (), st1)"
      "\<not> recv_initiated (sock st1)" "clock (sock st1) = []" "recv_answers (sock st1) = [ready_io 600]" "wire (sock st1) = ''x''"
    by (simp add: sec open_transport_def bind_dial_def BaseSock.construct_def arm_def remaining_ms_def reach_target_def
        connect_to_def demo_dial_env_def demo_tls_options_def demo_options_def demo_network_def connect_def setup_socket_def
        set_timeouts_def set_recv_timeout_seconds_def set_send_timeout_seconds_def new_sock_def succeeded_def Let_def)
  have a: "arm demo_tls_options 0 st1 = (Inr (), set_timeouts 30000 st1)"
    by (simp add: arm_prompt demo_tls_options_def demo_options_def)
  have "demo_ready (sock (set_timeouts 30000 st1))"
    using t by (simp add: demo_ready_def set_timeouts_def set_recv_timeout_seconds_def set_send_timeout_seconds_def sec Let_def)
  from demo_session [OF this] show ?thesis
    using t(1) a by (simp add: dial_def read_steady_def demo_tls_options_def)
qed


theorem dial_only_proxy_witness:
  "dial (demo_dial_env\<lparr>env_network := (\<lambda>host port. if host = [112] then demo_network host port
       else (demo_network host port)\<lparr>co_connect_error := Some 10061\<rparr>)\<rparr>) demo_options demo_process (demo_dial [])
   = dial demo_dial_env demo_options demo_process (demo_dial [])"
  by (rule dial_only_proxy [of _ demo_target]) (simp_all add: demo_options_def demo_target_def demo_dial_env_def)

end
