(* ===== verification/HttpUrl.thy ===== *)
theory HttpUrl imports LuaValue begin

text \<open>
  \<open>ParseHttpUrl\<close> and \<open>HttpHostHeader\<close> of \<open>main.cpp\<close>: a URL is cut into scheme, host, port and path, and
  the \<open>Host\<close> header is written from these. The lemmas show that a URL written from its parts, with the
  \<open>Host\<close> header as its authority, is read back to the same parts.
\<close>

record parsed_http_url =
  url_host :: string
  url_path :: string
  url_port :: int
  url_ssl :: bool

definition url_scheme :: "string \<Rightarrow> (bool \<times> string) result" where
  "url_scheme url =
     (if starts_with url ''http://'' then Inr (False, drop 7 url)
      else if starts_with url ''https://'' then Inr (True, drop 8 url)
      else Inl (Runtime_Error ''URL must use http:// or https://''))"

text \<open>
  The host and the port of an authority; a bracketed host may be followed by a port only, and a host
  with more than one colon outside brackets has none.
\<close>

definition url_authority :: "string \<Rightarrow> int \<Rightarrow> (string \<times> int) result" where
  "url_authority authority port =
     (if authority \<noteq> [] \<and> hd authority = CHR ''[''
      then case find_char (CHR '']'') authority of
          None \<Rightarrow> Inl (Runtime_Error ''invalid bracketed IPv6 URL'')
        | Some closing \<Rightarrow>
            (let host = take (closing - 1) (drop 1 authority) in
             if \<not> closing + 1 < length authority then Inr (host, port)
             else if authority ! (closing + 1) \<noteq> CHR '':'' then Inl (Runtime_Error ''invalid URL authority'')
             else bind_result (stoi (drop (closing + 2) authority)) (\<lambda>p. Inr (host, p)))
      else case rfind_char (CHR '':'') authority of
          None \<Rightarrow> Inr (authority, port)
        | Some colon \<Rightarrow>
            if find_char (CHR '':'') authority \<noteq> Some colon then Inr (authority, port)
            else bind_result (stoi (drop (colon + 1) authority)) (\<lambda>p. Inr (take colon authority, p)))"

definition parse_http_url :: "string \<Rightarrow> parsed_http_url result" where
  "parse_http_url url0 =
     bind_result (url_scheme url0) (\<lambda>(ssl, url).
       let slash = find_char (CHR ''/'') url;
           authority = (case slash of None \<Rightarrow> url | Some i \<Rightarrow> take i url);
           path = (case slash of None \<Rightarrow> ''/'' | Some i \<Rightarrow> drop i url)
       in bind_result (url_authority authority (if ssl then 443 else 80)) (\<lambda>(host, port).
            if host = [] \<or> port \<le> 0 \<or> 65535 < port then Inl (Runtime_Error ''invalid URL host or port'')
            else Inr \<lparr>url_host = host, url_path = path, url_port = port, url_ssl = ssl\<rparr>))"

definition http_host_header :: "parsed_http_url \<Rightarrow> string" where
  "http_host_header target =
     (let ipv6 = find_char (CHR '':'') (url_host target) \<noteq> None;
          host = (if ipv6 then ''['' @ url_host target @ '']'' else url_host target)
      in if url_ssl target \<and> url_port target = 443 \<or> \<not> url_ssl target \<and> url_port target = 80 then host
         else host @ '':'' @ int_str (url_port target))"

section \<open>Lemmas\<close>

lemma nat_str_no_char: "digit_val c = None \<Longrightarrow> c \<notin> set (nat_str n)"
  using digits_digit [of 10 c n] by (auto simp: nat_str_def)

lemma int_str_port: "0 < p \<Longrightarrow> p \<le> 65535 \<Longrightarrow> int_str p = nat_str (nat p) \<and> stoi (int_str p) = Inr p"
  using stoi_digits [of "nat p"] by (simp add: int_str_def)

text \<open>A target a URL can be written for: no separator inside the host, and a path.\<close>

definition writable_url :: "parsed_http_url \<Rightarrow> bool" where
  "writable_url t \<longleftrightarrow> url_host t \<noteq> [] \<and> CHR ''/'' \<notin> set (url_host t) \<and> hd (url_host t) \<noteq> CHR ''[''
     \<and> (CHR '':'' \<in> set (url_host t) \<longrightarrow> CHR '']'' \<notin> set (url_host t))
     \<and> (\<exists>p. url_path t = CHR ''/'' # p) \<and> 0 < url_port t \<and> url_port t \<le> 65535"

definition write_http_url :: "parsed_http_url \<Rightarrow> string" where
  "write_http_url t = (if url_ssl t then ''https://'' else ''http://'') @ http_host_header t @ url_path t"

lemma host_header_authority:
  assumes "writable_url t"
  shows "url_authority (http_host_header t) (if url_ssl t then 443 else 80) = Inr (url_host t, url_port t)
    \<and> CHR ''/'' \<notin> set (http_host_header t)"
proof -
  let ?h = "url_host t" and ?p = "url_port t"
  have p: "int_str ?p = nat_str (nat ?p)" "stoi (int_str ?p) = Inr ?p"
    using assms int_str_port [of ?p] unfolding writable_url_def by blast+
  have d: "digit_val (CHR ''/'') = None" "digit_val (CHR '':'') = None" by (simp_all add: digit_val_def byte_def)
  have digits: "CHR ''/'' \<notin> set (int_str ?p)" "CHR '':'' \<notin> set (int_str ?p)"
    unfolding p(1) by (intro nat_str_no_char d)+
  have h: "?h \<noteq> []" "hd ?h \<noteq> CHR ''[''" "CHR ''/'' \<notin> set ?h" using assms by (simp_all add: writable_url_def)
  show ?thesis
  proof (cases "CHR '':'' \<in> set ?h")
    case True
    then have b: "CHR '']'' \<notin> set ?h" using assms by (simp add: writable_url_def)
    have c: "find_char (CHR '']'') (CHR ''['' # ?h @ CHR '']'' # r) = Some (Suc (length ?h))" for r
      using find_char_append [of "CHR '']''" "CHR ''['' # ?h" r] b by simp
    have i: "find_char (CHR '':'') ?h \<noteq> None" using True by (simp add: find_char_None)
    show ?thesis
      using i p digits h c [of "[]"] c [of "CHR '':'' # int_str ?p"]
      by (auto simp: http_host_header_def url_authority_def Let_def nth_append)
  next
    case False
    then have i: "find_char (CHR '':'') ?h = None" "rfind_char (CHR '':'') ?h = None"
      by (simp_all add: find_char_None rfind_char_None)
    have c: "find_char (CHR '':'') (?h @ CHR '':'' # int_str ?p) = Some (length ?h)"
        "rfind_char (CHR '':'') (?h @ CHR '':'' # int_str ?p) = Some (length ?h)"
      using find_char_append [OF False] rfind_char_append [OF digits(2)] by auto
    show ?thesis
      using i c p digits h by (auto simp: http_host_header_def url_authority_def Let_def)
  qed
qed

text \<open>
  C36. A URL is read back to its parts: scheme, host (in brackets when it holds colons), port (left out
  when it is the scheme's own) and path, written with \<open>HttpHostHeader\<close> as the authority, give the same
  host, port, path and choice of TLS.
\<close>

theorem http_url_round_trip:
  assumes "writable_url t"
  shows "parse_http_url (write_http_url t) = Inr t"
proof -
  note a = host_header_authority [OF assms]
  obtain p where path: "url_path t = CHR ''/'' # p" using assms by (auto simp: writable_url_def)
  have s: "url_scheme (write_http_url t) = Inr (url_ssl t, http_host_header t @ url_path t)"
    by (simp add: url_scheme_def write_http_url_def starts_with_def)
  have f: "find_char (CHR ''/'') (http_host_header t @ url_path t) = Some (length (http_host_header t))"
    unfolding path using a by (intro find_char_append) simp
  have "0 < url_port t" "url_port t \<le> 65535" "url_host t \<noteq> []" using assms by (simp_all add: writable_url_def)
  then show ?thesis using a by (simp add: parse_http_url_def s f)
qed

theorem http_url_round_trip_witness:
  "parse_http_url ''https://[::1]:8443/a'' = Inr \<lparr>url_host = ''::1'', url_path = ''/a'', url_port = 8443, url_ssl = True\<rparr>"
proof -
  have "chr_of 56 = CHR ''8''" "chr_of 52 = CHR ''4''" "chr_of 51 = CHR ''3''" by code_simp+
  then have "write_http_url \<lparr>url_host = ''::1'', url_path = ''/a'', url_port = 8443, url_ssl = True\<rparr> = ''https://[::1]:8443/a''"
    by (simp add: write_http_url_def http_host_header_def int_str_def nat_str_def digits.simps digit_chr_def Let_def)
  then show ?thesis
    using http_url_round_trip [of "\<lparr>url_host = ''::1'', url_path = ''/a'', url_port = 8443, url_ssl = True\<rparr>"]
    by (simp add: writable_url_def)
qed

end
