(* ===== verification/RequestOptions.thy ===== *)
theory RequestOptions imports ProxyUrl LuaValue begin

text \<open>
  \<open>HttpRequestOptions\<close>, \<open>ReadRequestOptions\<close> and \<open>ReadOptions\<close> of \<open>main.cpp\<close>: the table of options a
  request is made with. The index of the table on Lua's stack has no counterpart; that there is one is
  \<open>opt_table\<close>. The lemma shows the range every option has after reading, whatever the table holds.
\<close>

record http_request_options =
  opt_connect_timeout_ms :: int
  opt_send_timeout_ms :: int
  opt_receive_timeout_ms :: int
  opt_total_timeout_ms :: int
  opt_max_response_bytes :: nat
  opt_buffer_size :: nat
  opt_table :: "(lua_value \<times> lua_value) list option"
  opt_return_response :: bool
  opt_ssl :: "bool option"
  opt_sni :: wstring
  opt_ca_file :: string
  opt_tls_verify :: bool
  opt_tls_check_revocation :: bool
  opt_proxy :: "proxy_target option"

definition default_options :: http_request_options where
  "default_options = \<lparr>opt_connect_timeout_ms = 30000, opt_send_timeout_ms = 60000,
     opt_receive_timeout_ms = 300000, opt_total_timeout_ms = 0, opt_max_response_bytes = 64 * 1024 * 1024,
     opt_buffer_size = 16384, opt_table = None, opt_return_response = False, opt_ssl = None, opt_sni = [],
     opt_ca_file = [], opt_tls_verify = True, opt_tls_check_revocation = True, opt_proxy = None\<rparr>"

definition use_ssl :: "http_request_options \<Rightarrow> int \<Rightarrow> bool" where
  "use_ssl opts port = (case opt_ssl opts of Some b \<Rightarrow> b | None \<Rightarrow> port = 443)"

text \<open>\<open>utf8_decode_lua\<close>: an empty string is not handed to Windows, and a failed conversion is empty.\<close>

definition utf8_decode_lua :: "text_api \<Rightarrow> string \<Rightarrow> wstring" where
  "utf8_decode_lua api s =
     (if s = [] then [] else case multi_byte_to_wide api s of None \<Rightarrow> [] | Some w \<Rightarrow> w)"

definition request_timeout :: "lua_api \<Rightarrow> option_table \<Rightarrow> string \<Rightarrow> int \<Rightarrow> int" where
  "request_timeout api t name fallback = to_int32 (request_integer api t name fallback)"

definition given_options :: "lua_api \<Rightarrow> option_table \<Rightarrow> http_request_options" where
  "given_options api t =
     (let d = default_options;
          rt1 = request_timeout api t ''receive_timeout_ms'' (opt_receive_timeout_ms d);
          rt2 = request_timeout api t ''read_timeout_ms'' rt1;
          rt3 = request_timeout api t ''timeout_ms'' rt2
      in d\<lparr>opt_table := t,
           opt_connect_timeout_ms := request_timeout api t ''connect_timeout_ms'' (opt_connect_timeout_ms d),
           opt_send_timeout_ms := request_timeout api t ''send_timeout_ms'' (opt_send_timeout_ms d),
           opt_receive_timeout_ms := rt3,
           opt_total_timeout_ms := request_timeout api t ''total_timeout_ms'' (opt_total_timeout_ms d),
           opt_max_response_bytes :=
             nat (max 1 (request_integer api t ''max_response_bytes'' (int (opt_max_response_bytes d)))),
           opt_buffer_size :=
             nat (min (1024 * 1024) (max 1024 (request_integer api t ''buffer_size'' (int (opt_buffer_size d))))),
           opt_return_response := request_boolean t ''return_response'' False,
           opt_ssl := request_optional_boolean t ''ssl'',
           opt_ca_file := request_string api t ''ca_file'',
           opt_tls_verify := request_boolean t ''tls_verify'' True,
           opt_tls_check_revocation := request_boolean t ''tls_revoke'' True\<rparr>)"

definition given_proxy :: "lua_api \<Rightarrow> text_api \<Rightarrow> option_table \<Rightarrow> proxy_target option result" where
  "given_proxy api texts t =
     (let url = request_string api t ''proxy'' in
      if url = [] then Inr None else bind_result (parse_proxy_url texts url) (\<lambda>p. Inr (Some p)))"

definition with_minimums :: "http_request_options \<Rightarrow> http_request_options" where
  "with_minimums opts =
     opts\<lparr>opt_connect_timeout_ms := max 1000 (opt_connect_timeout_ms opts),
          opt_send_timeout_ms := max 1000 (opt_send_timeout_ms opts),
          opt_receive_timeout_ms := max 1000 (opt_receive_timeout_ms opts),
          opt_total_timeout_ms := max 0 (opt_total_timeout_ms opts)\<rparr>"

definition read_request_options ::
    "lua_api \<Rightarrow> text_api \<Rightarrow> option_table \<Rightarrow> http_request_options result" where
  "read_request_options api texts t =
     (if t = None then Inr default_options
      else bind_result (given_proxy api texts t) (\<lambda>proxy.
        let sni = request_string api t ''sni''
        in Inr (with_minimums ((given_options api t)
             \<lparr>opt_proxy := proxy, opt_sni := (if sni = [] then [] else utf8_decode_lua texts sni)\<rparr>))))"

text \<open>Every exception becomes a Lua error with its text; the texts of the standard parsers are the library's.\<close>

definition error_text :: "error \<Rightarrow> string" where
  "error_text e =
     (case e of
        Runtime_Error t \<Rightarrow> t | Dial_Error code t \<Rightarrow> t | Lua_Error t \<Rightarrow> t | Thrown_Text t \<Rightarrow> t
      | Invalid_Argument \<Rightarrow> ''invalid argument'' | Out_Of_Range \<Rightarrow> ''out of range'' | Undefined \<Rightarrow> [])"

definition to_lua_error :: "'a result \<Rightarrow> 'a result" where
  "to_lua_error r =
     (case r of Inl Undefined \<Rightarrow> Inl Undefined | Inl e \<Rightarrow> Inl (Lua_Error (error_text e)) | Inr x \<Rightarrow> Inr x)"

definition read_options :: "lua_api \<Rightarrow> text_api \<Rightarrow> option_table \<Rightarrow> http_request_options result" where
  "read_options api texts t = to_lua_error (read_request_options api texts t)"

definition timeout_seconds :: "int \<Rightarrow> int" where
  "timeout_seconds ms =
     (let x = to_int32 (ms + 999) in max 1 (if x < 0 then - (- x div 1000) else x div 1000))"

section \<open>The range of the options\<close>

definition options_in_range :: "http_request_options \<Rightarrow> bool" where
  "options_in_range opts \<longleftrightarrow>
     1000 \<le> opt_connect_timeout_ms opts \<and> opt_connect_timeout_ms opts < 2 ^ 31
     \<and> 1000 \<le> opt_send_timeout_ms opts \<and> opt_send_timeout_ms opts < 2 ^ 31
     \<and> 1000 \<le> opt_receive_timeout_ms opts \<and> opt_receive_timeout_ms opts < 2 ^ 31
     \<and> 0 \<le> opt_total_timeout_ms opts \<and> opt_total_timeout_ms opts < 2 ^ 31
     \<and> 1 \<le> opt_max_response_bytes opts \<and> opt_max_response_bytes opts < 2 ^ 63
     \<and> 1024 \<le> opt_buffer_size opts \<and> opt_buffer_size opts \<le> 1024 * 1024"

text \<open>Lua's integers are \<open>long long\<close>.\<close>

definition lua_integers :: "lua_api \<Rightarrow> bool" where
  "lua_integers api \<longleftrightarrow> (\<forall>n. num_int api n \<in> {- (2 ^ 63)..<2 ^ 63})"

lemma request_integer_range:
  assumes "lua_integers api" and "fallback \<in> {- (2 ^ 63)..<2 ^ 63}"
  shows "request_integer api t name fallback \<in> {- (2 ^ 63)..<2 ^ 63}"
  using assms
  by (auto simp: request_integer_def to_integer_def lua_integers_def is_number_def Let_def split: option.splits)

lemma clamp_timeout:
  "0 \<le> low \<Longrightarrow> low \<le> 1000 \<Longrightarrow> low \<le> max low (request_timeout api t name d) \<and> max low (request_timeout api t name d) < 2 ^ 31"
  using to_int32_range [of "request_integer api t name d"] by (auto simp: request_timeout_def)

lemma clamp_limit: "x < 2 ^ 63 \<Longrightarrow> 1 \<le> nat (max 1 x) \<and> nat (max 1 x) < 2 ^ 63"
  by auto

lemma clamp_buffer: "1024 \<le> nat (min (1024 * 1024) (max 1024 x)) \<and> nat (min (1024 * 1024) (max 1024 x)) \<le> 1024 * 1024"
  for x :: int
  by auto

lemma given_in_range:
  assumes "lua_integers api"
  shows "options_in_range (with_minimums ((given_options api t)\<lparr>opt_proxy := proxy, opt_sni := sni\<rparr>))"
proof -
  let ?m = "request_integer api t ''max_response_bytes'' (int (opt_max_response_bytes default_options))"
  have "?m \<in> {- (2 ^ 63)..<2 ^ 63}"
    by (rule request_integer_range [OF assms]) (simp add: default_options_def)
  then have m: "1 \<le> nat (max 1 ?m)" "nat (max 1 ?m) < 2 ^ 63" using clamp_limit [of ?m] by auto
  let ?o = "with_minimums ((given_options api t)\<lparr>opt_proxy := proxy, opt_sni := sni\<rparr>)"
  let ?d = default_options
  let ?t = "request_timeout api t"
  have fields: "opt_connect_timeout_ms ?o = max 1000 (?t ''connect_timeout_ms'' (opt_connect_timeout_ms ?d))"
    "opt_send_timeout_ms ?o = max 1000 (?t ''send_timeout_ms'' (opt_send_timeout_ms ?d))"
    "opt_receive_timeout_ms ?o = max 1000 (?t ''timeout_ms'' (?t ''read_timeout_ms''
       (?t ''receive_timeout_ms'' (opt_receive_timeout_ms ?d))))"
    "opt_total_timeout_ms ?o = max 0 (?t ''total_timeout_ms'' (opt_total_timeout_ms ?d))"
    "opt_max_response_bytes ?o = nat (max 1 ?m)"
    "opt_buffer_size ?o = nat (min (1024 * 1024)
       (max 1024 (request_integer api t ''buffer_size'' (int (opt_buffer_size ?d)))))"
    unfolding with_minimums_def given_options_def Let_def by simp_all
  show ?thesis
    unfolding options_in_range_def fields
    using m by (intro conjI clamp_timeout [THEN conjunct1] clamp_timeout [THEN conjunct2]
        clamp_buffer [THEN conjunct1] clamp_buffer [THEN conjunct2]) simp_all
qed

text \<open>
  C35. Whatever a table of options holds, the options read from it are in range: timeouts of at least one
  second (none or more for the total) that fit an \<open>int\<close>, a limit of at least one byte below \<open>2 ^ 63\<close>, a
  buffer from 1 KiB to 1 MiB; and a proxy URL is never dropped: there is a proxy exactly when one was
  given, and it is what the URL says.
\<close>

theorem options_read_in_range:
  assumes "lua_integers api" and "read_options api texts t = Inr opts"
  shows "options_in_range opts \<and>
    (case opt_proxy opts of
       None \<Rightarrow> request_string api t ''proxy'' = []
     | Some p \<Rightarrow> request_string api t ''proxy'' \<noteq> [] \<and> parse_proxy_url texts (request_string api t ''proxy'') = Inr p)"
proof -
  have r: "read_request_options api texts t = Inr opts"
    using assms(2) by (auto simp: read_options_def to_lua_error_def split: sum.splits error.splits)
  show ?thesis
  proof (cases "t = None")
    case True
    then show ?thesis using r by (auto simp: read_request_options_def default_options_def options_in_range_def)
  next
    case False
    then obtain proxy sni where p: "given_proxy api texts t = Inr proxy"
        and o: "opts = with_minimums ((given_options api t)\<lparr>opt_proxy := proxy, opt_sni := sni\<rparr>)"
      using r by (auto simp: read_request_options_def bind_result_Inr Let_def)
    have "opt_proxy opts = proxy" by (simp add: o with_minimums_def)
    then show ?thesis
      using p given_in_range [OF assms(1)]
      by (auto simp: o given_proxy_def bind_result_Inr Let_def split: if_splits)
  qed
qed

definition demo_lua :: lua_api where
  "demo_lua = \<lparr>num_text = (\<lambda>n. ''0''), text_num = (\<lambda>s. None),
     num_int = (\<lambda>n. case n of Finite q \<Rightarrow> max (- (2 ^ 63)) (min (2 ^ 63 - 1) \<lfloor>q\<rfloor>) | _ \<Rightarrow> 0)\<rparr>"

theorem options_read_in_range_witness:
  "\<exists>opts. read_options demo_lua demo_text (Some [(Lua_String ''buffer_size'', Lua_Number (Finite 7))]) = Inr opts
    \<and> options_in_range opts"
proof -
  have "lua_integers demo_lua"
    by (simp add: lua_integers_def demo_lua_def min.strict_coboundedI1 split: lua_num.split)
  moreover have "given_proxy demo_lua demo_text (Some [(Lua_String ''buffer_size'', Lua_Number (Finite 7))]) = Inr None"
    by (simp add: given_proxy_def request_string_def get_field_def to_lstring_def)
  then obtain opts where "read_options demo_lua demo_text (Some [(Lua_String ''buffer_size'', Lua_Number (Finite 7))]) = Inr opts"
    by (simp add: read_options_def read_request_options_def to_lua_error_def Let_def)
  ultimately show ?thesis using options_read_in_range by blast
qed

end
