(* ===== verification/HttpClient.thy ===== *)
theory HttpClient imports HttpUrl RequestOptions HttpMessage ChunkDecoder Dial begin

text \<open>
  The HTTP client of \<open>main.cpp\<close>: the callbacks of a request, \<open>ResolveHttpRequest\<close> and the three
  functions Lua calls. A request runs on a dialled connection, the steady clock and the Lua state, of
  which only the callbacks matter; each step gives a value or the exception thrown, and the state it
  leaves. The receive loop is a partial function; that it ends is proved from the limits it enforces.
\<close>

section \<open>Callbacks\<close>

text \<open>
  What the call of a field of the option table answers: it is no function, it failed (with what Lua
  gives as the error's text) or it returned a value.
\<close>

datatype callback_arg = No_Argument | Table_Argument response_table | String_Argument string

datatype callback_answer = Not_Callable | Call_Failed "string option" | Call_Value lua_value

type_synonym 'l callbacks = "string \<Rightarrow> callback_arg \<Rightarrow> 'l \<Rightarrow> callback_answer \<times> 'l"

definition call_request_callback ::
    "'l callbacks \<Rightarrow> http_request_options \<Rightarrow> string \<Rightarrow> callback_arg \<Rightarrow> (lua_value option, 'l) acting" where
  "call_request_callback cb opts name arg l =
     (if opt_table opts = None then (Inr None, l)
      else case cb name arg l of
          (Not_Callable, l1) \<Rightarrow> (Inr None, l1)
        | (Call_Failed err, l1) \<Rightarrow>
            (Inl (Runtime_Error (name @ '' callback failed: ''
                    @ (case err of None \<Rightarrow> ''unknown callback error'' | Some t \<Rightarrow> c_str t))), l1)
        | (Call_Value v, l1) \<Rightarrow> (Inr (Some v), l1))"

definition request_cancelled :: "'l callbacks \<Rightarrow> http_request_options \<Rightarrow> (bool, 'l) acting" where
  "request_cancelled cb opts =
     bind_dial (call_request_callback cb opts ''should_cancel'' No_Argument) (\<lambda>v.
       return_dial (case v of None \<Rightarrow> False | Some x \<Rightarrow> to_boolean x))"

definition emit_response_headers :: "'l callbacks \<Rightarrow> http_request_options \<Rightarrow> http_response \<Rightarrow> (unit, 'l) acting" where
  "emit_response_headers cb opts r =
     bind_dial (call_request_callback cb opts ''on_headers'' (Table_Argument (push_response r False))) (\<lambda>_. return_dial ())"

definition emit_response_chunk :: "'l callbacks \<Rightarrow> http_request_options \<Rightarrow> string \<Rightarrow> (unit, 'l) acting" where
  "emit_response_chunk cb opts chunk =
     (if opt_table opts = None \<or> chunk = [] then return_dial ()
      else bind_dial (call_request_callback cb opts ''on_chunk'' (String_Argument chunk)) (\<lambda>v.
        if v = Some (Lua_Boolean False)
        then throw_dial (Runtime_Error ''request cancelled by on_chunk callback'') else return_dial ()))"

section \<open>The exchange\<close>

record ('c, 'l) exchange =
  ex_conn :: "'c connection"
  ex_clock :: "nat list"
  ex_lua :: 'l
  ex_response :: http_response
  ex_decoder :: decoder
  ex_pending :: string
  ex_got_headers :: bool
  ex_chunked :: bool
  ex_finished :: bool
  ex_length :: "nat option"

definition on_lua :: "('a, 'l) acting \<Rightarrow> ('a, ('c, 'l) exchange) acting" where
  "on_lua m st = (case m (ex_lua st) of (r, l) \<Rightarrow> (r, st\<lparr>ex_lua := l\<rparr>))"

definition ex_now :: "('c, 'l) exchange \<Rightarrow> nat \<times> ('c, 'l) exchange" where
  "ex_now st = (case ex_clock st of [] \<Rightarrow> (0, st) | t # ts \<Rightarrow> (t, st\<lparr>ex_clock := ts\<rparr>))"

text \<open>What the system says of an error code: a message, or none.\<close>

type_synonym error_names = "nat \<Rightarrow> string option"

definition socket_error_message :: "error_names \<Rightarrow> string \<Rightarrow> nat \<Rightarrow> int \<Rightarrow> string" where
  "socket_error_message names operation code timeout_ms =
     (if code = error_timeout \<or> code = 10060
      then operation @ '' timed out after '' @ int_str timeout_ms @ '' ms (error '' @ nat_str code @ '')''
      else operation @ '' failed: ''
        @ (case names code of Some m \<Rightarrow> if m \<noteq> [] then trim_ascii m else ''unknown socket or TLS error''
           | None \<Rightarrow> ''unknown socket or TLS error'')
        @ '' (error '' @ nat_str code @ '')'')"

definition bounded_timeout :: "http_request_options \<Rightarrow> nat \<Rightarrow> int \<Rightarrow> (int, ('c, 'l) exchange) acting" where
  "bounded_timeout opts started configured st =
     (if opt_total_timeout_ms opts \<le> 0 then (Inr configured, st)
      else let (now, st1) = ex_now st;
               left = opt_total_timeout_ms opts - (int now - int started)
           in if left \<le> 0
              then (Inl (Runtime_Error (''request total timeout exceeded after ''
                      @ int_str (opt_total_timeout_ms opts) @ '' ms'')), st1)
              else (Inr (min configured left), st1))"

subsection \<open>The connection\<close>

definition conn_send :: "'c sspi \<Rightarrow> string \<Rightarrow> 'c connection \<Rightarrow> (int \<times> 'c connection) result" where
  "conn_send api data conn =
     (case conn of
        Plain s \<Rightarrow> (case send data s of (n, s1) \<Rightarrow> Inr (n, Plain s1))
      | Secure s \<Rightarrow> bind_result (ssl_send api data s) (\<lambda>(n, s1). Inr (n, Secure s1)))"

text \<open>A receive into a fresh buffer: the count, and the buffer's first bytes when it is positive.\<close>

definition conn_recv :: "'c sspi \<Rightarrow> nat \<Rightarrow> 'c connection \<Rightarrow> (int \<times> string \<times> 'c connection) result" where
  "conn_recv api len conn =
     (case conn of
        Plain s \<Rightarrow> (case recv 0 len 1 s of
          (n, ws, s1) \<Rightarrow> Inr (n, take (nat n) (apply_writes 0 (replicate len (CHR 0x00)) ws), Plain s1))
      | Secure s \<Rightarrow> bind_result (ssl_recv api len s) (\<lambda>(n, d, s1).
          Inr (n, take (nat n) (d @ replicate (len - length d) (CHR 0x00)), Secure s1)))"

definition conn_error :: "'c connection \<Rightarrow> nat" where
  "conn_error conn = (case conn of Plain s \<Rightarrow> last_error s | Secure s \<Rightarrow> get_last_error s)"

definition on_socket :: "(base_sock \<Rightarrow> base_sock) \<Rightarrow> 'c connection \<Rightarrow> 'c connection" where
  "on_socket f conn = (case conn of Plain s \<Rightarrow> Plain (f s) | Secure s \<Rightarrow> Secure (s\<lparr>ssl_stream := f (ssl_stream s)\<rparr>))"

definition send_request ::
    "'c sspi \<Rightarrow> error_names \<Rightarrow> http_request_options \<Rightarrow> nat \<Rightarrow> string \<Rightarrow> (unit, ('c, 'l) exchange) acting" where
  "send_request api names opts started request =
     bind_dial (bounded_timeout opts started (opt_send_timeout_ms opts)) (\<lambda>t st.
       let conn = on_socket (set_send_timeout_seconds (timeout_seconds t) True) (ex_conn st) in
       case conn_send api request conn of
         Inl e \<Rightarrow> (Inl e, st\<lparr>ex_conn := conn\<rparr>)
       | Inr (n, conn1) \<Rightarrow>
           (if n = -1 \<or> nat n \<noteq> length request
            then Inl (Runtime_Error (socket_error_message names ''send'' (conn_error conn1) t)) else Inr (),
            st\<lparr>ex_conn := conn1\<rparr>))"

subsection \<open>What is received\<close>

definition append_body :: "'l callbacks \<Rightarrow> http_request_options \<Rightarrow> string \<Rightarrow> (unit, ('c, 'l) exchange) acting" where
  "append_body cb opts chunk st =
     (let r = ex_response st in
      if opt_max_response_bytes opts < length (resp_body r) + length chunk
      then (Inl (Runtime_Error (''response exceeded max_response_bytes (''
              @ nat_str (opt_max_response_bytes opts) @ '')'')), st)
      else on_lua (emit_response_chunk cb opts chunk) (st\<lparr>ex_response := r\<lparr>resp_body := resp_body r @ chunk\<rparr>\<rparr>))"

fun append_chunks :: "'l callbacks \<Rightarrow> http_request_options \<Rightarrow> string list \<Rightarrow> (unit, ('c, 'l) exchange) acting" where
  "append_chunks cb opts [] = return_dial ()"
| "append_chunks cb opts (c # cs) = bind_dial (append_body cb opts c) (\<lambda>_. append_chunks cb opts cs)"

definition set_finished :: "bool \<Rightarrow> (unit, ('c, 'l) exchange) acting" where
  "set_finished b st = (Inr (), st\<lparr>ex_finished := b\<rparr>)"

definition no_body :: "bool \<Rightarrow> http_response \<Rightarrow> bool" where
  "no_body head r \<longleftrightarrow> head \<or> resp_status r = 204 \<or> resp_status r = 304"

definition content_length_of :: "http_response \<Rightarrow> nat option result" where
  "content_length_of r =
     (let t = response_header r ''content-length'' in
      if t = [] then Inr None else bind_result (stoull 10 t) (\<lambda>(n, used). Inr (Some n)))"

definition is_chunked :: "http_response \<Rightarrow> bool" where
  "is_chunked r \<longleftrightarrow> find_str ''chunked'' (lower_ascii (response_header r ''transfer-encoding'')) \<noteq> None"

text \<open>What the headers decide: the callback is told, then the framing of the body and its limits.\<close>

definition accept_headers ::
    "'l callbacks \<Rightarrow> http_request_options \<Rightarrow> bool \<Rightarrow> http_response \<Rightarrow> string \<Rightarrow> (string option, ('c, 'l) exchange) acting" where
  "accept_headers cb opts head r rest =
     bind_dial (\<lambda>s. on_lua (emit_response_headers cb opts r)
         (s\<lparr>ex_response := r, ex_pending := [], ex_got_headers := True\<rparr>)) (\<lambda>_.
     bind_dial (\<lambda>s. (content_length_of r, s\<lparr>ex_chunked := is_chunked r\<rparr>)) (\<lambda>len s.
       let s1 = s\<lparr>ex_length := len\<rparr> in
       if (case len of None \<Rightarrow> False | Some n \<Rightarrow> opt_max_response_bytes opts < n)
       then (Inl (Runtime_Error ''Content-Length exceeds max_response_bytes''), s1)
       else (Inr (Some rest), s1\<lparr>ex_finished := no_body head r\<rparr>)))"

text \<open>
  The header block: bytes are kept until the first blank line, then parsed, and what is behind it is the
  start of the body. \<open>None\<close> is a block that is not complete.
\<close>

definition absorb_headers ::
    "'l callbacks \<Rightarrow> http_request_options \<Rightarrow> bool \<Rightarrow> string \<Rightarrow> (string option, ('c, 'l) exchange) acting" where
  "absorb_headers cb opts head data st =
     (let pending = ex_pending st @ data; st1 = st\<lparr>ex_pending := pending\<rparr> in
      if 1024 * 1024 < length pending
      then (Inl (Runtime_Error ''HTTP response headers exceeded 1 MiB''), st1)
      else case find_str crlf2 pending of
          None \<Rightarrow> (Inr None, st1)
        | Some sep \<Rightarrow>
            (case parse_response_headers (take sep pending) (ex_response st) of
               Inl e \<Rightarrow> (Inl e, st1)
             | Inr r \<Rightarrow> accept_headers cb opts head r (drop (sep + 4) pending) st1))"

definition absorb_body :: "'l callbacks \<Rightarrow> http_request_options \<Rightarrow> string \<Rightarrow> (unit, ('c, 'l) exchange) acting" where
  "absorb_body cb opts data st =
     (if ex_finished st then (Inr (), st)
      else if ex_chunked st
      then case feed (ex_decoder st) data of
          Inl e \<Rightarrow> (Inl e, st)
        | Inr (chunks, d) \<Rightarrow>
            bind_dial (append_chunks cb opts chunks) (\<lambda>_. set_finished (complete d)) (st\<lparr>ex_decoder := d\<rparr>)
      else case ex_length st of
          Some n \<Rightarrow>
            (let needed = n - length (resp_body (ex_response st)) in
             bind_dial (append_body cb opts (take needed data)) (\<lambda>_ s.
               set_finished (n \<le> length (resp_body (ex_response s))) s) st)
        | None \<Rightarrow> append_body cb opts data st)"

definition absorb :: "'l callbacks \<Rightarrow> http_request_options \<Rightarrow> bool \<Rightarrow> string \<Rightarrow> (unit, ('c, 'l) exchange) acting" where
  "absorb cb opts head data st =
     (if ex_got_headers st then absorb_body cb opts data st
      else bind_dial (absorb_headers cb opts head data) (\<lambda>rest.
        case rest of None \<Rightarrow> return_dial () | Some d \<Rightarrow> absorb_body cb opts d) st)"

subsection \<open>The loop\<close>

definition receive_at ::
    "'c sspi \<Rightarrow> error_names \<Rightarrow> 'l callbacks \<Rightarrow> http_request_options \<Rightarrow> bool \<Rightarrow> int \<Rightarrow> (unit, ('c, 'l) exchange) acting" where
  "receive_at api names cb opts head t st =
     (let conn = on_socket (set_recv_timeout_seconds (timeout_seconds t) True) (ex_conn st) in
      case conn_recv api (opt_buffer_size opts) conn of
        Inl e \<Rightarrow> (Inl e, st\<lparr>ex_conn := conn\<rparr>)
      | Inr (n, data, conn1) \<Rightarrow>
          (let st1 = st\<lparr>ex_conn := conn1\<rparr> in
           if n = -1
           then if secure conn1 \<and> conn_error conn1 = sec_i_context_expired then set_finished True st1
                else (Inl (Runtime_Error (socket_error_message names ''receive'' (conn_error conn1) t)), st1)
           else if n = 0 then set_finished True st1
           else if n < 0 then (Inl (Runtime_Error ''string too long''), st1)
           else absorb cb opts head data
                  (st1\<lparr>ex_response := (ex_response st1)\<lparr>bytes_received := bytes_received (ex_response st1) + nat n\<rparr>\<rparr>)))"

definition receive_step ::
    "'c sspi \<Rightarrow> error_names \<Rightarrow> 'l callbacks \<Rightarrow> http_request_options \<Rightarrow> nat \<Rightarrow> bool \<Rightarrow> (unit, ('c, 'l) exchange) acting" where
  "receive_step api names cb opts started head =
     bind_dial (on_lua (request_cancelled cb opts)) (\<lambda>cancelled.
     if cancelled then throw_dial (Runtime_Error ''request cancelled'')
     else bind_dial (bounded_timeout opts started (opt_receive_timeout_ms opts)) (receive_at api names cb opts head))"

partial_function (option) receive_loop ::
    "'c sspi \<Rightarrow> error_names \<Rightarrow> 'l callbacks \<Rightarrow> http_request_options \<Rightarrow> nat \<Rightarrow> bool \<Rightarrow> ('c, 'l) exchange
     \<Rightarrow> (unit result \<times> ('c, 'l) exchange) option" where
  "receive_loop api names cb opts started head st =
     (if ex_finished st then Some (Inr (), st)
      else case receive_step api names cb opts started head st of
          (Inl e, st1) \<Rightarrow> Some (Inl e, st1)
        | (Inr u, st1) \<Rightarrow> receive_loop api names cb opts started head st1)"

definition conclude :: "nat \<Rightarrow> bool \<Rightarrow> (http_response, ('c, 'l) exchange) acting" where
  "conclude started head st =
     (let r = ex_response st in
      if \<not> ex_got_headers st
      then (Inl (Runtime_Error ''connection closed before HTTP response headers were received''), st)
      else if ex_chunked st \<and> \<not> complete (ex_decoder st)
      then (Inl (Runtime_Error ''connection closed before the chunked response completed''), st)
      else if (case ex_length st of None \<Rightarrow> False | Some n \<Rightarrow> \<not> no_body head r \<and> length (resp_body r) \<noteq> n)
      then (Inl (Runtime_Error (''Content-Length mismatch: '' @ nat_str (length (resp_body r)) @ '' vs ''
              @ nat_str (the (ex_length st)))), st)
      else let (now, st1) = ex_now st in (Inr (r\<lparr>elapsed_ms := int now - int started\<rparr>), st1))"

section \<open>A request\<close>

text \<open>
  The outside of a request: what dialling needs, the system's error texts, the callbacks, and the socket
  with the answers it will meet.
\<close>

record ('c, 'l) http_env =
  http_dial :: "'c dial_env"
  http_errors :: error_names
  http_callbacks :: "'l callbacks"
  http_socket :: base_sock
  http_clock :: "nat list"

definition dial_options_of :: "wstring \<Rightarrow> int \<Rightarrow> http_request_options \<Rightarrow> dial_options" where
  "dial_options_of host port opts =
     \<lparr>dial_host = host, dial_port = of_int port, dial_ssl = use_ssl opts port, dial_sni = opt_sni opts,
      dial_proxy = opt_proxy opts, dial_ca_file = opt_ca_file opts, dial_tls_verify = opt_tls_verify opts,
      dial_tls_check_revocation = opt_tls_check_revocation opts,
      dial_connect_timeout_ms = opt_connect_timeout_ms opts, dial_total_timeout_ms = opt_total_timeout_ms opts\<rparr>"

definition new_exchange :: "http_request_options \<Rightarrow> 'c connection \<Rightarrow> nat list \<Rightarrow> 'l \<Rightarrow> ('c, 'l) exchange" where
  "new_exchange opts conn ticks l =
     \<lparr>ex_conn = conn, ex_clock = ticks, ex_lua = l, ex_response = empty_response,
      ex_decoder = new_decoder (opt_max_response_bytes opts), ex_pending = [], ex_got_headers = False,
      ex_chunked = False, ex_finished = False, ex_length = None\<rparr>"

definition head_request :: "string \<Rightarrow> bool" where
  "head_request request = starts_with request ''HEAD ''"

definition run_exchange ::
    "('c, 'l) http_env \<Rightarrow> http_request_options \<Rightarrow> nat \<Rightarrow> string \<Rightarrow> ('c, 'l) exchange
     \<Rightarrow> (http_response result \<times> ('c, 'l) exchange) option" where
  "run_exchange env opts started request st0 =
     (let api = env_schannel (http_dial env); head = head_request request in
      case send_request api (http_errors env) opts started request st0 of
        (Inl e, st1) \<Rightarrow> Some (Inl e, st1)
      | (Inr u, st1) \<Rightarrow>
          map_option (\<lambda>(r, st2). case r of Inl e \<Rightarrow> (Inl e, st2) | Inr u \<Rightarrow> conclude started head st2)
            (receive_loop api (http_errors env) (http_callbacks env) opts started head st1))"

definition resolve_http_request ::
    "('c, 'l) http_env \<Rightarrow> wstring \<Rightarrow> int \<Rightarrow> string \<Rightarrow> http_request_options \<Rightarrow> process_state \<Rightarrow> 'l
     \<Rightarrow> (http_response result \<times> process_state \<times> 'l) option" where
  "resolve_http_request env host port request opts p l =
     (let (started, d) = read_steady \<lparr>sock = http_socket env, steady = http_clock env\<rparr> in
      case dial (http_dial env) (dial_options_of host port opts) p d of
        None \<Rightarrow> None
      | Some (Inl e, p1, d1) \<Rightarrow> Some (Inl e, p1, l)
      | Some (Inr conn, p1, d1) \<Rightarrow>
          map_option (\<lambda>(r, st). (r, p1, ex_lua st))
            (run_exchange env opts started request (new_exchange opts conn (steady d1) l)))"

section \<open>The functions Lua calls\<close>

text \<open>What a function leaves on Lua's stack: a table for the response, its body, or nothing.\<close>

datatype request_result = Response_Table response_table | Response_Body string | No_Result

definition request_answer :: "http_request_options \<Rightarrow> http_response \<Rightarrow> request_result" where
  "request_answer opts r =
     (if opt_return_response opts then Response_Table (push_response r True) else Response_Body (resp_body r))"

definition to_port :: "lua_api \<Rightarrow> lua_value \<Rightarrow> int \<Rightarrow> int" where
  "to_port api v fallback = (if is_number api v then to_int32 (to_integer api v) else fallback)"

text \<open>
  The arguments of \<open>network.request\<close>: host, port, the table the options are in (none, or one of the
  first three arguments), and the value the request is built from.
\<close>

definition request_arguments ::
    "lua_api \<Rightarrow> lua_value list \<Rightarrow> (string \<times> int \<times> option_table \<times> lua_value) result" where
  "request_arguments api args =
     (let arg = (\<lambda>i. if i < length args then args ! i else Lua_Nil);
          table = (\<lambda>v. case v of Lua_Table t \<Rightarrow> Some t | _ \<Rightarrow> None);
          top = (if args = [] then Lua_Nil else last args)
      in case (to_lstring api (arg 0), 1 < length args) of
           (Some host, True) \<Rightarrow>
             (let port = (if is_number api (arg 1) then to_port api (arg 1) 443
                          else case table (arg 1) of None \<Rightarrow> 443
                            | Some t \<Rightarrow> to_port api (get_field t ''port'') 443);
                  second = (if is_number api (arg 1) then None else table (arg 1));
                  options = (case table (arg 2) of Some t \<Rightarrow> Some t | None \<Rightarrow> second)
              in Inr (c_str host, port, options, case options of None \<Rightarrow> top | Some t \<Rightarrow> Lua_Table t))
         | _ \<Rightarrow>
             (case table (arg 0) of
                None \<Rightarrow> Inl (Lua_Error ''missing 'host' parameter'')
              | Some t \<Rightarrow>
                  (case get_field t ''host'' of
                     Lua_String host \<Rightarrow>
                       Inr (c_str host, to_port api (get_field t ''port'') 443, Some t, Lua_Table t)
                   | _ \<Rightarrow> Inl (Lua_Error ''request.host is not a string''))))"

definition web_request_impl ::
    "('c, 'l) http_env \<Rightarrow> lua_api \<Rightarrow> bool \<Rightarrow> lua_value list \<Rightarrow> process_state \<Rightarrow> 'l
     \<Rightarrow> (request_result result \<times> process_state \<times> 'l) option" where
  "web_request_impl env api force_response_table args p l =
     (let texts = crypto_texts (env_crypto (http_dial env)) in
      case bind_result (request_arguments api args) (\<lambda>(host, port, t, v).
             bind_result (request_builder api (host @ '':'' @ int_str port) v) (\<lambda>request.
             bind_result (read_options api texts t) (\<lambda>opts.
               Inr (host, port, request, if force_response_table then opts\<lparr>opt_return_response := True\<rparr> else opts)))) of
        Inl e \<Rightarrow> Some (Inl e, p, l)
      | Inr (host, port, request, opts) \<Rightarrow>
          map_option (\<lambda>(r, p1, l1). (to_lua_error (bind_result r (\<lambda>x. Inr (request_answer opts x))), p1, l1))
            (resolve_http_request env (utf8_decode_lua texts host) port request opts p l))"

definition web_request ::
    "('c, 'l) http_env \<Rightarrow> lua_api \<Rightarrow> lua_value list \<Rightarrow> process_state \<Rightarrow> 'l
     \<Rightarrow> (request_result result \<times> process_state \<times> 'l) option" where
  "web_request env api = web_request_impl env api False"

definition web_request_detailed ::
    "('c, 'l) http_env \<Rightarrow> lua_api \<Rightarrow> lua_value list \<Rightarrow> process_state \<Rightarrow> 'l
     \<Rightarrow> (request_result result \<times> process_state \<times> 'l) option" where
  "web_request_detailed env api = web_request_impl env api True"

definition get_text :: "string \<Rightarrow> parsed_http_url \<Rightarrow> string" where
  "get_text accepted target =
     ''GET '' @ url_path target @ '' HTTP/1.1'' @ crlf @ ''Accept: '' @ accepted @ crlf
     @ ''Accept-Encoding: identity'' @ crlf @ ''Connection: close'' @ crlf @ ''Host: '' @ http_host_header target @ crlf2"

text \<open>
  A GET for a URL: the scheme decides on TLS unless the options do. \<open>fetch_url\<close> is what both users
  share; the argument between the URL and the options is checked after the URL was parsed.
\<close>

definition fetch_url ::
    "('c, 'l) http_env \<Rightarrow> lua_api \<Rightarrow> string \<Rightarrow> lua_value \<Rightarrow> unit result \<Rightarrow> option_table \<Rightarrow> process_state \<Rightarrow> 'l
     \<Rightarrow> ((http_request_options \<times> http_response) result \<times> process_state \<times> 'l) option" where
  "fetch_url env api accepted url other_arguments t p l =
     (let texts = crypto_texts (env_crypto (http_dial env)) in
      case to_lstring api url of
        None \<Rightarrow> Some (Inl (Lua_Error ''bad argument #1 (string expected)''), p, l)
      | Some u \<Rightarrow>
          (case bind_result (parse_http_url (c_str u)) (\<lambda>target.
                  bind_result other_arguments (\<lambda>_.
                  bind_result (read_options api texts t) (\<lambda>opts.
                    Inr (target, if opt_ssl opts = None then opts\<lparr>opt_ssl := Some (url_ssl target)\<rparr> else opts)))) of
             Inl e \<Rightarrow> Some (Inl e, p, l)
           | Inr (target, opts) \<Rightarrow>
               map_option (\<lambda>(r, p1, l1). (bind_result r (\<lambda>x. Inr (opts, x)), p1, l1))
                 (resolve_http_request env (utf8_decode_lua texts (url_host target)) (url_port target)
                    (get_text accepted target) opts p l)))"

definition web_request_simple_get ::
    "('c, 'l) http_env \<Rightarrow> lua_api \<Rightarrow> lua_value \<Rightarrow> option_table \<Rightarrow> process_state \<Rightarrow> 'l
     \<Rightarrow> (request_result result \<times> process_state \<times> 'l) option" where
  "web_request_simple_get env api url t p l =
     map_option (\<lambda>(r, p1, l1). (to_lua_error (bind_result r (\<lambda>(opts, x). Inr (request_answer opts x))), p1, l1))
       (fetch_url env api ''text/html'' url (Inr ()) t p l)"

text \<open>What the file system answers to a download, and the file it leaves.\<close>

record file_answers =
  parent_missing :: bool
  create_error :: "string option"
  file_opens :: bool
  write_succeeds :: bool

definition save_download :: "file_answers \<Rightarrow> string \<Rightarrow> string result" where
  "save_download fs body =
     (case (if parent_missing fs then create_error fs else None) of
        Some text \<Rightarrow> Inl (Runtime_Error (''failed to create download directory: '' @ text))
      | None \<Rightarrow>
          if \<not> file_opens fs then Inl (Runtime_Error ''failed to open download file for writing'')
          else if \<not> write_succeeds fs then Inl (Runtime_Error ''failed while writing download file'')
          else Inr body)"

definition web_request_simple_download ::
    "('c, 'l) http_env \<Rightarrow> file_answers \<Rightarrow> lua_api \<Rightarrow> lua_value \<Rightarrow> lua_value \<Rightarrow> option_table \<Rightarrow> process_state \<Rightarrow> 'l
     \<Rightarrow> ((request_result \<times> string) result \<times> process_state \<times> 'l) option" where
  "web_request_simple_download env fs api url path t p l =
     map_option (\<lambda>(r, p1, l1). (to_lua_error (bind_result r (\<lambda>(opts, x).
         bind_result (save_download fs (resp_body x)) (\<lambda>file.
           Inr (if opt_return_response opts then Response_Table (push_response x True) else No_Result, file)))), p1, l1))
       (fetch_url env api ''*/*'' url
          (if to_lstring api path = None then Inl (Lua_Error ''bad argument #2 (string expected)'') else Inr ()) t p l)"

end
