(* ===== verification/HttpLimits.thy ===== *)
theory HttpLimits imports HttpClient begin

text \<open>
  What the HTTP client enforces whatever the peer sends: a request ends, since every receive brings a
  limit closer, and what it returns is within the limits and agrees with its headers.
\<close>

section \<open>What each part of a receive changes\<close>

lemma bind_dial_done: "bind_dial m f st = (Inr y, st') \<Longrightarrow> (\<And>x s. m st = (Inr x, s) \<Longrightarrow> f x s = (Inr y, st') \<Longrightarrow> thesis) \<Longrightarrow> thesis"
  by (auto simp: bind_dial_Inr)

lemma on_lua_frame:
  "on_lua m st = (r, st') \<Longrightarrow> \<exists>l. st' = st\<lparr>ex_lua := l\<rparr>"
  by (auto simp: on_lua_def split: prod.splits)

lemma append_body_done:
  assumes "append_body cb opts c st = (Inr u, st')"
  shows "\<exists>l. st' = st\<lparr>ex_response := (ex_response st)\<lparr>resp_body := resp_body (ex_response st) @ c\<rparr>, ex_lua := l\<rparr>
    \<and> length (resp_body (ex_response st)) + length c \<le> opt_max_response_bytes opts"
  using assms on_lua_frame by (fastforce simp: append_body_def Let_def split: if_splits)

lemma append_chunks_done:
  assumes "append_chunks cb opts cs st = (Inr u, st')"
  shows "\<exists>l. st' = st\<lparr>ex_response := (ex_response st)\<lparr>resp_body := resp_body (ex_response st) @ concat cs\<rparr>, ex_lua := l\<rparr>
    \<and> (cs \<noteq> [] \<longrightarrow> length (resp_body (ex_response st)) + length (concat cs) \<le> opt_max_response_bytes opts)"
  using assms
proof (induction cs arbitrary: st)
  case Nil
  then show ?case by (intro exI [of _ "ex_lua st"]) simp
next
  case (Cons c cs)
  then obtain s where s: "append_body cb opts c st = (Inr (), s)" "append_chunks cb opts cs s = (Inr u, st')"
    by (auto simp: bind_dial_Inr)
  from append_body_done [OF s(1)] Cons.IH [OF s(2)] show ?case
    by (cases "cs = []") (auto simp: fun_eq_iff)
qed

text \<open>A call of the decoder that yields nothing has finished, opened a chunk, or kept all it was given.\<close>

lemma feed_progress:
  assumes "feed d data = Inr ([], d')" and "\<not> finished d"
  shows "finished d' \<or> remaining d = None \<and> remaining d' \<noteq> None
    \<or> remaining d' = remaining d \<and> buffer d' = buffer d @ data"
proof -
  have "decode_loop (more_data d data) = Inr ([], d')" using assms(1) by (simp add: feed_Inr)
  then have "decode_step (more_data d data) = Inr (None, d')"
    using assms(2)
    by (subst (asm) decode_loop.simps) (auto simp: bind_result_Inr split: sum.splits option.splits)
  then show ?thesis
    by (cases rule: decode_step_cases) (auto elim!: open_chunk_cases take_chunk_cases)
qed

section \<open>The loop ends\<close>

text \<open>How far a request still is from its limits, the most significant first.\<close>

definition receive_order :: "http_request_options \<Rightarrow> (('c, 'l) exchange \<times> ('c, 'l) exchange) set" where
  "receive_order opts = measures
     [\<lambda>st. if ex_got_headers st then 0 else 1,
      \<lambda>st. 1024 * 1024 - length (ex_pending st),
      \<lambda>st. opt_max_response_bytes opts - length (resp_body (ex_response st)),
      \<lambda>st. if remaining (ex_decoder st) = None then 1 else 0,
      \<lambda>st. maximum (ex_decoder st) + 1024 * 1024 - length (buffer (ex_decoder st))]"

definition exchange_wf :: "http_request_options \<Rightarrow> ('c, 'l) exchange \<Rightarrow> bool" where
  "exchange_wf opts st \<longleftrightarrow> decoder_wf (ex_decoder st) \<and> (finished (ex_decoder st) \<longrightarrow> ex_finished st)
     \<and> length (resp_body (ex_response st)) \<le> opt_max_response_bytes opts
     \<and> (ex_got_headers st \<longrightarrow> 100 \<le> resp_status (ex_response st) \<and> resp_status (ex_response st) \<le> 999
          \<and> length (raw_headers (ex_response st)) \<le> 1024 * 1024 \<and> ex_pending st = [])
     \<and> (\<not> ex_got_headers st \<longrightarrow> \<not> finished (ex_decoder st) \<and> resp_body (ex_response st) = [] \<and> length (ex_pending st) \<le> 1024 * 1024)"

lemma absorb_body_step:
  assumes "absorb_body cb opts data st = (Inr u, st')" and "exchange_wf opts st" and "ex_got_headers st"
  shows "exchange_wf opts st' \<and> ex_got_headers st' \<and> ex_pending st' = ex_pending st
    \<and> (data = [] \<or> ex_finished st' \<or> (st', st) \<in> receive_order opts)"
proof (cases "ex_finished st")
  case True
  then show ?thesis using assms by (simp add: absorb_body_def)
next
  case running: False
  let ?body = "resp_body (ex_response st)" and ?d = "ex_decoder st"
  show ?thesis
  proof (cases "ex_chunked st")
    case True
    with assms(1) running obtain cs d where f: "feed ?d data = Inr (cs, d)"
      and b: "bind_dial (append_chunks cb opts cs) (\<lambda>_. set_finished (complete d)) (st\<lparr>ex_decoder := d\<rparr>) = (Inr u, st')"
      by (auto simp: absorb_body_def split: sum.splits)
    obtain s where s: "append_chunks cb opts cs (st\<lparr>ex_decoder := d\<rparr>) = (Inr (), s)"
        "st' = s\<lparr>ex_finished := finished d\<rparr>"
      using b by (auto simp: bind_dial_Inr set_finished_def complete_def)
    from append_chunks_done [OF s(1)] obtain l where
        st': "st' = st\<lparr>ex_decoder := d, ex_response := (ex_response st)\<lparr>resp_body := ?body @ concat cs\<rparr>,
                ex_lua := l, ex_finished := finished d\<rparr>"
        "cs \<noteq> [] \<longrightarrow> length ?body + length (concat cs) \<le> opt_max_response_bytes opts"
      using s(2) by (auto simp: fun_eq_iff)
    have wf: "decoder_wf ?d" "\<not> finished ?d" using assms(2) running by (auto simp: exchange_wf_def)
    have dl: "decode_loop (more_data ?d data) = Inr (cs, d)" "length (buffer ?d @ data) \<le> maximum ?d + 1024 * 1024"
      using f wf(1) by (simp_all add: feed_Inr sz_id decoder_wf_def)
    note d = decode_loop_frame [OF dl(1)]
    have wf': "exchange_wf opts st'"
      using assms(2,3) st' d wf(1) by (cases "cs = []") (auto simp: exchange_wf_def)
    have "(st', st) \<in> receive_order opts" if "data \<noteq> []" "\<not> ex_finished st'"
    proof (cases "cs = []")
      case False
      then obtain c cs' where "cs = c # cs'" by (cases cs) auto
      with d wf(1) have "0 < length (concat cs)" by simp
      then have "opt_max_response_bytes opts - (length ?body + length (concat cs)) < opt_max_response_bytes opts - length ?body"
        using st'(2) False by linarith
      then show ?thesis using st'(1) assms(3) by (simp add: receive_order_def in_measures del: length_concat)
    next
      case True
      with feed_progress [of ?d data d] f wf(2) that(2) st'(1) consider
          "remaining ?d = None" "remaining d \<noteq> None" | "remaining d = remaining ?d" "buffer d = buffer ?d @ data"
        by auto
      then show ?thesis
      proof cases
        case 1
        then show ?thesis using st' True assms(3) by (auto simp: receive_order_def in_measures)
      next
        case 2
        moreover have "maximum d = maximum ?d" using d wf(1) by simp
        moreover have "0 < length data" using that(1) by simp
        moreover have "x + y \<le> m \<Longrightarrow> 0 < y \<Longrightarrow> m - (x + y) < m - x" for x y m :: nat by linarith
        ultimately show ?thesis using st' True assms(3) dl(2) by (simp add: receive_order_def in_measures)
      qed
    qed
    moreover have "ex_got_headers st'" "ex_pending st' = ex_pending st" using st'(1) assms(3) by simp_all
    ultimately show ?thesis using wf' by blast
  next
    case plain: False
    have grow: "(st', st) \<in> receive_order opts \<or> c = []"
      if "st' = st\<lparr>ex_response := (ex_response st)\<lparr>resp_body := ?body @ c\<rparr>, ex_lua := l, ex_finished := b\<rparr>"
        "length ?body + length c \<le> opt_max_response_bytes opts" for c l b
      using that assms(3) by (cases c) (auto simp: receive_order_def in_measures)
    show ?thesis
    proof (cases "ex_length st")
      case None
      then have "append_body cb opts data st = (Inr u, st')" using assms(1) running plain by (simp add: absorb_body_def)
      from append_body_done [OF this] obtain l where
          l: "st' = st\<lparr>ex_response := (ex_response st)\<lparr>resp_body := ?body @ data\<rparr>, ex_lua := l, ex_finished := ex_finished st\<rparr>"
          "length ?body + length data \<le> opt_max_response_bytes opts"
        by auto
      with grow [OF l] assms(2,3) show ?thesis by (auto simp: exchange_wf_def)
    next
      case (Some n)
      let ?c = "take (n - length ?body) data"
      from assms(1) running plain Some obtain s where s: "append_body cb opts ?c st = (Inr (), s)"
          "st' = s\<lparr>ex_finished := (n \<le> length (resp_body (ex_response s)))\<rparr>"
        by (auto simp: absorb_body_def bind_dial_Inr set_finished_def Let_def)
      from append_body_done [OF s(1)] obtain l where
          l: "st' = st\<lparr>ex_response := (ex_response st)\<lparr>resp_body := ?body @ ?c\<rparr>, ex_lua := l,
                ex_finished := (n \<le> length (?body @ ?c))\<rparr>"
          "length ?body + length ?c \<le> opt_max_response_bytes opts"
        using s(2) by auto
      have "data = [] \<or> ?c \<noteq> [] \<or> ex_finished st'" using l(1) by auto
      with grow [OF l] l assms(2,3) running show ?thesis by (auto simp: exchange_wf_def)
    qed
  qed
qed

text \<open>A header block that is complete: what it leaves.\<close>

lemma absorb_headers_complete:
  assumes "absorb_headers cb opts head data st = (Inr rest, st')" and "find_str crlf2 (ex_pending st @ data) = Some sep"
  shows "\<exists>r l n. parse_response_headers (take sep (ex_pending st @ data)) (ex_response st) = Inr r
    \<and> content_length_of r = Inr n \<and> rest = Some (drop (sep + 4) (ex_pending st @ data))
    \<and> st' = st\<lparr>ex_response := r, ex_pending := [], ex_got_headers := True, ex_lua := l,
          ex_chunked := is_chunked r, ex_length := n, ex_finished := no_body head r\<rparr>"
proof -
  define p where "p = ex_pending st @ data"
  have "\<exists>r. parse_response_headers (take sep p) (ex_response st) = Inr r
    \<and> accept_headers cb opts head r (drop (sep + 4) p) (st\<lparr>ex_pending := p\<rparr>) = (Inr rest, st')"
    using assms unfolding absorb_headers_def Let_def p_def [symmetric]
    by (cases "parse_response_headers (take sep p) (ex_response st)") (simp_all split: if_splits)
  then obtain r where r: "parse_response_headers (take sep p) (ex_response st) = Inr r"
    and a: "accept_headers cb opts head r (drop (sep + 4) p) (st\<lparr>ex_pending := p\<rparr>) = (Inr rest, st')" by blast
  from a obtain s n where s: "on_lua (emit_response_headers cb opts r)
        (st\<lparr>ex_pending := p, ex_response := r, ex_pending := [], ex_got_headers := True\<rparr>) = (Inr (), s)"
    and n: "content_length_of r = Inr n" and st': "rest = Some (drop (sep + 4) p)"
      "st' = s\<lparr>ex_chunked := is_chunked r, ex_length := n, ex_finished := no_body head r\<rparr>"
    unfolding accept_headers_def by (auto simp: bind_dial_Inr Let_def split: if_splits)
  from on_lua_frame [OF s] st'(2) have "\<exists>l. st' = st\<lparr>ex_response := r, ex_pending := [], ex_got_headers := True,
      ex_lua := l, ex_chunked := is_chunked r, ex_length := n, ex_finished := no_body head r\<rparr>"
    by auto
  with r n st'(1) show ?thesis unfolding p_def by blast
qed

lemma absorb_headers_step:
  assumes "absorb_headers cb opts head data st = (Inr rest, st')" and "exchange_wf opts st" and "\<not> ex_got_headers st"
  shows "exchange_wf opts st' \<and> (case rest of
      None \<Rightarrow> \<not> ex_got_headers st' \<and> ex_finished st' = ex_finished st \<and> (data = [] \<or> (st', st) \<in> receive_order opts)
    | Some d \<Rightarrow> ex_got_headers st')"
proof -
  let ?p = "ex_pending st @ data"
  have len: "length ?p \<le> 1024 * 1024"
    using assms(1) by (auto simp: absorb_headers_def Let_def split: if_splits)
  show ?thesis
  proof (cases "find_str crlf2 ?p")
    case None
    then have "st' = st\<lparr>ex_pending := ?p\<rparr>" "rest = None"
      using assms(1) len by (auto simp: absorb_headers_def Let_def)
    moreover have "data = [] \<or> 1024 * 1024 - length ?p < 1024 * 1024 - length (ex_pending st)"
      using len by (cases data) auto
    ultimately show ?thesis
      using assms(2,3) len by (auto simp: exchange_wf_def receive_order_def in_measures)
  next
    case (Some sep)
    from absorb_headers_complete [OF assms(1) Some] obtain r l n where
        p: "parse_response_headers (take sep ?p) (ex_response st) = Inr r" and rest: "rest = Some (drop (sep + 4) ?p)"
        and eq: "st' = st\<lparr>ex_response := r, ex_pending := [], ex_got_headers := True, ex_lua := l,
          ex_chunked := is_chunked r, ex_length := n, ex_finished := no_body head r\<rparr>" by blast
    have "length (take sep ?p) \<le> 1024 * 1024" using len by simp
    with parse_response_headers_status [OF p] assms(2,3) eq rest show ?thesis
      by (auto simp: exchange_wf_def)
  qed
qed

lemma absorb_step:
  assumes "absorb cb opts head data st = (Inr u, st')" and "exchange_wf opts st"
  shows "exchange_wf opts st' \<and> (data = [] \<or> ex_finished st' \<or> (st', st) \<in> receive_order opts)"
proof (cases "ex_got_headers st")
  case True
  then show ?thesis using absorb_body_step [of cb opts data st u st'] assms by (simp add: absorb_def)
next
  case False
  with assms(1) obtain rest s where h: "absorb_headers cb opts head data st = (Inr rest, s)"
    and b: "(case rest of None \<Rightarrow> return_dial () | Some d \<Rightarrow> absorb_body cb opts d) s = (Inr u, st')"
    by (auto simp: absorb_def bind_dial_Inr)
  note h = absorb_headers_step [OF h assms(2) False]
  show ?thesis
  proof (cases rest)
    case None
    then show ?thesis using h b by auto
  next
    case (Some d)
    then have "absorb_body cb opts d s = (Inr u, st')" "exchange_wf opts s" "ex_got_headers s" using h b by simp_all
    from absorb_body_step [OF this] False show ?thesis by (auto simp: receive_order_def in_measures)
  qed
qed

text \<open>
  What the state remembers of the headers is what they say, and a chunked body is what the decoder gave
  for the pieces received so far.
\<close>

definition framing_kept :: "http_request_options \<Rightarrow> ('c, 'l) exchange \<Rightarrow> bool" where
  "framing_kept opts st \<longleftrightarrow>
     (if ex_got_headers st
      then content_length_of (ex_response st) = Inr (ex_length st) \<and> ex_chunked st = is_chunked (ex_response st)
        \<and> (ex_chunked st \<longrightarrow> (\<exists>pieces cs. feed_all feed (new_decoder (opt_max_response_bytes opts)) pieces =
              Inr (cs, ex_decoder st) \<and> resp_body (ex_response st) = concat cs))
      else ex_decoder st = new_decoder (opt_max_response_bytes opts) \<and> resp_body (ex_response st) = [])"

lemma feed_all_snoc:
  "feed_all f s xs = Inr (os, t) \<Longrightarrow> f t x = Inr (os', u) \<Longrightarrow> feed_all f s (xs @ [x]) = Inr (os @ os', u)"
proof (induction xs arbitrary: s os)
  case (Cons y ys)
  from Cons.prems(1) obtain o1 s1 o2 where "f s y = Inr (o1, s1)" "feed_all f s1 ys = Inr (o2, t)" "os = o1 @ o2"
    by (auto split: sum.splits)
  with Cons.IH [OF this(2) Cons.prems(2)] show ?case by simp
qed simp

lemma headers_decide: "content_length_of (r\<lparr>resp_body := b\<rparr>) = content_length_of r" "is_chunked (r\<lparr>resp_body := b\<rparr>) = is_chunked r"
  "content_length_of (r\<lparr>bytes_received := n\<rparr>) = content_length_of r" "is_chunked (r\<lparr>bytes_received := n\<rparr>) = is_chunked r"
  by (simp_all add: content_length_of_def is_chunked_def response_header_def)

lemma absorb_body_framing:
  assumes "absorb_body cb opts data st = (Inr u, st')" and "framing_kept opts st" and "ex_got_headers st"
  shows "framing_kept opts st'"
proof (cases "ex_finished st")
  case True
  then show ?thesis using assms by (simp add: absorb_body_def)
next
  case running: False
  let ?body = "resp_body (ex_response st)" and ?d = "ex_decoder st"
  have keep: "framing_kept opts st'"
    if "st' = st\<lparr>ex_response := (ex_response st)\<lparr>resp_body := b\<rparr>, ex_lua := l, ex_finished := f\<rparr>" "\<not> ex_chunked st" for b l f
    using that assms(2,3) by (simp add: framing_kept_def headers_decide)
  show ?thesis
  proof (cases "ex_chunked st")
    case True
    with assms(1) running obtain cs d s where f: "feed ?d data = Inr (cs, d)"
        and s: "append_chunks cb opts cs (st\<lparr>ex_decoder := d\<rparr>) = (Inr (), s)" "st' = s\<lparr>ex_finished := finished d\<rparr>"
      by (auto simp: absorb_body_def bind_dial_Inr set_finished_def complete_def split: sum.splits)
    from append_chunks_done [OF s(1)] s(2) obtain l where
        st': "st' = st\<lparr>ex_decoder := d, ex_response := (ex_response st)\<lparr>resp_body := ?body @ concat cs\<rparr>,
                ex_lua := l, ex_finished := finished d\<rparr>" by auto
    from True assms(2,3) obtain pieces cs0 where
        p: "feed_all feed (new_decoder (opt_max_response_bytes opts)) pieces = Inr (cs0, ?d)" "?body = concat cs0"
      by (auto simp: framing_kept_def)
    have "feed_all feed (new_decoder (opt_max_response_bytes opts)) (pieces @ [data]) = Inr (cs0 @ cs, d)"
      by (rule feed_all_snoc [OF p(1) f])
    moreover have "?body @ concat cs = concat (cs0 @ cs)" by (simp add: p(2))
    ultimately have "\<exists>ps xs. feed_all feed (new_decoder (opt_max_response_bytes opts)) ps = Inr (xs, d)
        \<and> ?body @ concat cs = concat xs" by blast
    then show ?thesis using assms(2,3) True unfolding st' framing_kept_def by (simp add: headers_decide)
  next
    case plain: False
    show ?thesis
    proof (cases "ex_length st")
      case None
      then have "append_body cb opts data st = (Inr u, st')" using assms(1) running plain by (simp add: absorb_body_def)
      from append_body_done [OF this] obtain l where
          "st' = st\<lparr>ex_response := (ex_response st)\<lparr>resp_body := ?body @ data\<rparr>, ex_lua := l, ex_finished := ex_finished st\<rparr>"
        by auto
      from keep [OF this plain] show ?thesis .
    next
      case (Some n)
      from assms(1) running plain Some obtain s where s: "append_body cb opts (take (n - length ?body) data) st = (Inr (), s)"
          "st' = s\<lparr>ex_finished := (n \<le> length (resp_body (ex_response s)))\<rparr>"
        by (auto simp: absorb_body_def bind_dial_Inr set_finished_def Let_def)
      from append_body_done [OF s(1)] s(2) keep [OF _ plain] show ?thesis by auto
    qed
  qed
qed

lemma absorb_headers_framing:
  assumes "absorb_headers cb opts head data st = (Inr rest, st')" and "framing_kept opts st" and "\<not> ex_got_headers st"
  shows "framing_kept opts st'"
proof (cases "find_str crlf2 (ex_pending st @ data)")
  case None
  then have "st' = st\<lparr>ex_pending := ex_pending st @ data\<rparr>"
    using assms(1) by (auto simp: absorb_headers_def Let_def split: if_splits)
  then show ?thesis using assms(2,3) by (simp add: framing_kept_def)
next
  case (Some sep)
  from absorb_headers_complete [OF assms(1) Some] obtain r l n where
      p: "parse_response_headers (take sep (ex_pending st @ data)) (ex_response st) = Inr r" "content_length_of r = Inr n"
      and eq: "st' = st\<lparr>ex_response := r, ex_pending := [], ex_got_headers := True, ex_lua := l,
        ex_chunked := is_chunked r, ex_length := n, ex_finished := no_body head r\<rparr>" by blast
  have "resp_body r = []" using parse_response_headers_status [OF p(1)] assms(2,3) by (simp add: framing_kept_def)
  then show ?thesis unfolding eq using p(2) assms(2,3)
    by (auto simp: framing_kept_def intro!: exI [of _ "[]"])
qed

lemma absorb_framing:
  assumes "absorb cb opts head data st = (Inr u, st')" and "framing_kept opts st"
  shows "framing_kept opts st'"
proof (cases "ex_got_headers st")
  case True
  then show ?thesis using absorb_body_framing [of cb opts data st u st'] assms by (simp add: absorb_def)
next
  case False
  with assms(1) obtain rest s where h: "absorb_headers cb opts head data st = (Inr rest, s)"
    and b: "(case rest of None \<Rightarrow> return_dial () | Some d \<Rightarrow> absorb_body cb opts d) s = (Inr u, st')"
    by (auto simp: absorb_def bind_dial_Inr)
  note k = absorb_headers_framing [OF h assms(2) False]
  show ?thesis
  proof (cases rest)
    case None
    then show ?thesis using k b by simp
  next
    case (Some d)
    then have "ex_got_headers s" using h False by (auto simp: absorb_headers_def accept_headers_def Let_def bind_dial_Inr
        dest: on_lua_frame split: if_splits option.splits sum.splits)
    with absorb_body_framing [OF _ k, of cb d u st'] b Some show ?thesis by simp
  qed
qed

definition exchange_ok :: "http_request_options \<Rightarrow> ('c, 'l) exchange \<Rightarrow> bool" where
  "exchange_ok opts st \<longleftrightarrow> exchange_wf opts st \<and> framing_kept opts st"

text \<open>A receive that counts at least one byte delivers at least one.\<close>

lemma length_apply_writes: "length (apply_writes base buf ws) = length buf"
  by (induction ws arbitrary: buf) (auto split: prod.splits)

lemma conn_recv_data:
  assumes "conn_recv api len conn = Inr (n, data, conn')" and "0 < len" and "0 < n"
  shows "data \<noteq> []"
proof (cases conn)
  case (Plain s)
  obtain r ws s1 where r: "recv 0 len 1 s = (r, ws, s1)" by (metis prod_cases3)
  then have "data = take (nat n) (apply_writes 0 (replicate len (CHR 0x00)) ws)"
    using assms(1) Plain by (auto simp: conn_recv_def)
  then show ?thesis
    using assms(2,3) length_apply_writes [of 0 "replicate len (CHR 0x00)" ws] by auto
next
  case (Secure s)
  then obtain d where "data = take (nat n) (d @ replicate (len - length d) (CHR 0x00))"
    using assms(1) by (auto simp: conn_recv_def bind_result_Inr)
  then show ?thesis using assms(2,3) by (cases d) auto
qed

text \<open>Two states that differ in the connection, the clock, the Lua state and the count of bytes only.\<close>

definition same_progress :: "('c, 'l) exchange \<Rightarrow> ('c, 'l) exchange \<Rightarrow> bool" where
  "same_progress s t \<longleftrightarrow> (\<exists>conn ticks l n. s = t\<lparr>ex_conn := conn, ex_clock := ticks, ex_lua := l,
     ex_response := (ex_response t)\<lparr>bytes_received := n\<rparr>\<rparr>)"

lemma receive_step_cases:
  assumes "receive_step api names cb opts started head st = (Inr u, st')" and "0 < opt_buffer_size opts"
  obtains (closed) st1 where "st' = st1\<lparr>ex_finished := True\<rparr>" "same_progress st1 st"
    | (received) st1 data where "data \<noteq> []" "absorb cb opts head data st1 = (Inr (), st')" "same_progress st1 st"
proof -
  obtain c s1 where c: "on_lua (request_cancelled cb opts) st = (Inr c, s1)"
    and r1: "(if c then throw_dial (Runtime_Error ''request cancelled'')
       else bind_dial (bounded_timeout opts started (opt_receive_timeout_ms opts)) (receive_at api names cb opts head)) s1 = (Inr u, st')"
    using assms(1) unfolding receive_step_def by (auto simp: bind_dial_Inr)
  then obtain t s2 where t: "bounded_timeout opts started (opt_receive_timeout_ms opts) s1 = (Inr t, s2)"
    and r2: "receive_at api names cb opts head t s2 = (Inr u, st')"
    by (auto simp: bind_dial_Inr split: if_splits)
  obtain l where l: "s1 = st\<lparr>ex_lua := l\<rparr>" using on_lua_frame [OF c] by blast
  have "s2 = s1\<lparr>ex_clock := ex_clock s2\<rparr>"
    using t by (auto simp: bounded_timeout_def ex_now_def Let_def split: if_splits list.splits prod.splits)
  then obtain ticks where s2: "s2 = s1\<lparr>ex_clock := ticks\<rparr>" by blast
  have same: "same_progress (s2\<lparr>ex_conn := k, ex_response := (ex_response s2)\<lparr>bytes_received := n\<rparr>\<rparr>) st" for k n
    unfolding same_progress_def l s2 by (intro exI [of _ k] exI [of _ ticks] exI [of _ l] exI [of _ n]) simp
  then have same0: "same_progress (s2\<lparr>ex_conn := k\<rparr>) st" for k
    using same [where k = k and n = "bytes_received (ex_response s2)"] by simp
  define conn where "conn = on_socket (set_recv_timeout_seconds (timeout_seconds t) True) (ex_conn s2)"
  obtain n data conn1 where rc: "conn_recv api (opt_buffer_size opts) conn = Inr (n, data, conn1)"
    using r2 by (auto simp: receive_at_def Let_def conn_def split: sum.splits)
  consider "st' = (s2\<lparr>ex_conn := conn1\<rparr>)\<lparr>ex_finished := True\<rparr>"
    | "0 < n" "absorb cb opts head data (s2\<lparr>ex_conn := conn1, ex_response := (ex_response s2)
         \<lparr>bytes_received := bytes_received (ex_response s2) + nat n\<rparr>\<rparr>) = (Inr u, st')"
    using r2 rc by (auto simp: receive_at_def Let_def conn_def [symmetric] set_finished_def split: if_splits)
  then show ?thesis
  proof cases
    case 1
    then show ?thesis using closed same0 by blast
  next
    case 2
    then show ?thesis using received same conn_recv_data [OF rc assms(2) 2(1)] by simp
  qed
qed

lemma same_progress_order:
  "same_progress s t \<Longrightarrow> exchange_ok opts t \<Longrightarrow> exchange_ok opts s"
  "same_progress s t \<Longrightarrow> (u, s) \<in> receive_order opts \<Longrightarrow> (u, t) \<in> receive_order opts"
  by (auto simp: same_progress_def exchange_ok_def framing_kept_def headers_decide exchange_wf_def receive_order_def in_measures)

lemma receive_step_progress:
  assumes "receive_step api names cb opts started head st = (Inr u, st')" and "0 < opt_buffer_size opts"
    and "exchange_ok opts st"
  shows "exchange_ok opts st' \<and> (ex_finished st' \<or> (st', st) \<in> receive_order opts)"
  using assms(1,2)
proof (cases rule: receive_step_cases)
  case (closed st1)
  then show ?thesis using same_progress_order(1) [OF closed(2) assms(3)]
    by (auto simp: exchange_ok_def exchange_wf_def framing_kept_def)
next
  case (received st1 data)
  then show ?thesis
    using absorb_step [OF received(2)] absorb_framing [OF received(2)] same_progress_order [OF received(3)] assms(3)
    unfolding exchange_ok_def by blast
qed

lemma receive_loop_ends:
  assumes "0 < opt_buffer_size opts"
  shows "exchange_ok opts st \<Longrightarrow> \<exists>r st'. receive_loop api names cb opts started head st = Some (r, st')
    \<and> (r = Inr () \<longrightarrow> exchange_ok opts st')"
proof -
  have "wf (receive_order opts)" unfolding receive_order_def by simp
  then show "exchange_ok opts st \<Longrightarrow> \<exists>r st'. receive_loop api names cb opts started head st = Some (r, st')
    \<and> (r = Inr () \<longrightarrow> exchange_ok opts st')"
  proof (induction st rule: wf_induct_rule)
    case (less st)
    show ?case
    proof (cases "ex_finished st")
      case True
      then show ?thesis using less.prems by (subst receive_loop.simps) simp
    next
      case running: False
      obtain r s where s: "receive_step api names cb opts started head st = (r, s)" by force
      show ?thesis
      proof (cases r)
        case (Inl e)
        then show ?thesis using s running by (subst receive_loop.simps) simp
      next
        case (Inr u)
        with receive_step_progress [OF _ assms less.prems] s have p: "exchange_ok opts s"
            "ex_finished s \<or> (s, st) \<in> receive_order opts" by blast+
        have "\<exists>r st'. receive_loop api names cb opts started head s = Some (r, st') \<and> (r = Inr () \<longrightarrow> exchange_ok opts st')"
        proof (cases "ex_finished s")
          case True
          then show ?thesis using p(1) by (subst receive_loop.simps) simp
        next
          case False
          then show ?thesis using less.IH p by blast
        qed
        then show ?thesis using s running Inr by (subst receive_loop.simps) simp
      qed
    qed
  qed
qed

section \<open>What a request returns\<close>

lemma send_request_frame:
  assumes "send_request api names opts started request st = (r, st')"
  shows "\<exists>conn ticks. st' = st\<lparr>ex_conn := conn, ex_clock := ticks\<rparr>"
proof -
  have b: "bounded_timeout opts started c st = (x, s) \<Longrightarrow> s = st\<lparr>ex_clock := ex_clock s\<rparr>" for c x s
    by (auto simp: bounded_timeout_def ex_now_def Let_def split: if_splits list.splits prod.splits)
  obtain x s where s: "bounded_timeout opts started (opt_send_timeout_ms opts) st = (x, s)" by force
  then have "st' = s\<lparr>ex_conn := ex_conn st'\<rparr>"
    using assms by (cases x) (auto simp: send_request_def bind_dial_def Let_def split: sum.splits prod.splits)
  with b [OF s] have "st' = st\<lparr>ex_conn := ex_conn st', ex_clock := ex_clock s\<rparr>"
    by (cases st; cases s; cases st') simp
  then show ?thesis by blast
qed

lemma new_exchange_ok: "opt_max_response_bytes opts < 2 ^ 63 \<Longrightarrow> exchange_ok opts (new_exchange opts conn ticks l)"
  by (simp add: exchange_ok_def exchange_wf_def framing_kept_def new_exchange_def empty_response_def) (simp add: new_decoder_def)

lemma run_exchange_ends:
  assumes "0 < opt_buffer_size opts" and "opt_max_response_bytes opts < 2 ^ 63"
  shows "\<exists>r st. run_exchange env opts started request (new_exchange opts conn ticks l) = Some (r, st)
    \<and> (case r of Inl e \<Rightarrow> True | Inr resp \<Rightarrow> \<exists>s. exchange_ok opts s \<and> conclude started (head_request request) s = (Inr resp, st))"
proof -
  obtain r1 st1 where s: "send_request (env_schannel (http_dial env)) (http_errors env) opts started request
      (new_exchange opts conn ticks l) = (r1, st1)" by force
  have wf: "exchange_ok opts st1"
    using send_request_frame [OF s] new_exchange_ok [OF assms(2), of conn ticks l] by (auto simp: exchange_ok_def exchange_wf_def framing_kept_def)
  show ?thesis
  proof (cases r1)
    case (Inl e)
    then show ?thesis using s by (simp add: run_exchange_def)
  next
    case (Inr u)
    obtain r2 st2 where l: "receive_loop (env_schannel (http_dial env)) (http_errors env) (http_callbacks env) opts started
        (head_request request) st1 = Some (r2, st2)" "r2 = Inr () \<longrightarrow> exchange_ok opts st2"
      using receive_loop_ends [OF assms(1) wf] by blast
    show ?thesis
    proof (cases r2)
      case (Inl e)
      then show ?thesis using s Inr l by (simp add: run_exchange_def Let_def)
    next
      case r2: (Inr v)
      obtain resp st3 where "conclude started (head_request request) st2 = (resp, st3)" by force
      with s Inr l r2 show ?thesis by (cases resp) (auto simp: run_exchange_def Let_def)
    qed
  qed
qed

text \<open>
  C6. A request on a connection ends, whatever the peer, Schannel and the callbacks do: every receive
  brings one of the limits closer, so within finitely many the loop returns a response or an error, even
  when the peer sends without end.
\<close>

theorem http_request_returns:
  assumes "options_in_range opts"
  shows "\<exists>r st. run_exchange env opts started request (new_exchange opts conn ticks l) = Some (r, st)"
proof -
  have "0 < opt_buffer_size opts" "opt_max_response_bytes opts < 2 ^ 63"
    using assms by (auto simp: options_in_range_def)
  from run_exchange_ends [OF this, of env started request conn ticks l] show ?thesis by blast
qed

text \<open>What a text of decimal digits says, with leading zeros or without.\<close>

definition decimal_text :: "string \<Rightarrow> bool" where
  "decimal_text v \<longleftrightarrow> v \<noteq> [] \<and> list_all (\<lambda>c. 48 \<le> byte c \<and> byte c \<le> 57) v"

definition decimal_value :: "string \<Rightarrow> nat" where
  "decimal_value v = foldl (\<lambda>n c. 10 * n + (byte c - 48)) 0 v"

lemma scan_decimal:
  "list_all (\<lambda>c. 48 \<le> byte c \<and> byte c \<le> 57) v \<Longrightarrow>
     scan_num 10 acc v = (foldl (\<lambda>n c. 10 * n + (byte c - 48)) acc v, [])"
  by (induction v arbitrary: acc) (auto simp: digit_val_def mult.commute)

lemma stoull_decimal:
  assumes "decimal_text v" and "stoull 10 v = Inr (n, used)"
  shows "n = decimal_value v"
proof -
  obtain c s where v: "v = c # s" using assms(1) by (cases v) (auto simp: decimal_text_def)
  have c: "48 \<le> byte c" "byte c \<le> 57" using assms(1) by (auto simp: decimal_text_def v)
  have d: "digit_val c = Some (byte c - 48)" using c by (simp add: digit_val_def)
  have "strip_sign (dropWhile is_space v) = (False, v)"
    using digit_val_not_space [OF d] digit_val_not_sign [OF d] by (simp add: v strip_sign_def)
  moreover have "strip_hex_prefix 10 v = v" by (simp add: strip_hex_prefix_def v split: list.split)
  moreover have "scan_num 10 0 v = (decimal_value v, [])"
    using scan_decimal assms(1) by (simp add: decimal_text_def decimal_value_def)
  ultimately show ?thesis using assms(2) by (auto simp: stoull_def strtoull_def Let_def split: if_splits)
qed

lemma lookup_header_map_of: "map_of hs n = Some v \<Longrightarrow> lookup_header hs n = v"
  by (induction hs) (auto split: if_splits)

lemma content_length_decimal:
  assumes "map_of (resp_headers r) ''content-length'' = Some v" and "decimal_text v" and "content_length_of r = Inr n"
  shows "n = Some (decimal_value v)"
proof -
  have "response_header r ''content-length'' = v" using assms(1) by (simp add: response_header_def lookup_header_map_of)
  moreover have "v \<noteq> []" using assms(2) by (simp add: decimal_text_def)
  ultimately show ?thesis using assms(3) stoull_decimal [OF assms(2)]
    by (auto simp: content_length_of_def Let_def bind_result_Inr)
qed

lemma is_chunked_sublist:
  assumes "map_of (resp_headers r) ''transfer-encoding'' = Some v" and "lower_ascii v = a @ ''chunked'' @ b"
  shows "is_chunked r"
  using assms find_str_occurs [of "length a" "''chunked''" "a @ ''chunked'' @ b"]
  by (simp add: is_chunked_def response_header_def lookup_header_map_of)


text \<open>
  C37. The answer to a HEAD request (or one with status 204 or 304) whose headers announce a chunked body is
  an error although it is complete: the test for the last chunk does not except the responses without a
  body, unlike the test of the Content-Length next to it.
\<close>

theorem head_of_chunked_fails:
  assumes "absorb cb opts head data st = (Inr (), st')" and "\<not> ex_got_headers st" and "ex_got_headers st'"
    and "\<not> finished (ex_decoder st)" and "no_body head (ex_response st')" and "is_chunked (ex_response st')"
  shows "ex_finished st' \<and>
    fst (conclude started head st') = Inl (Runtime_Error ''connection closed before the chunked response completed'')"
proof -
  from assms(1,2) obtain rest s where h: "absorb_headers cb opts head data st = (Inr rest, s)"
    and b: "(case rest of None \<Rightarrow> return_dial () | Some d \<Rightarrow> absorb_body cb opts d) s = (Inr (), st')"
    by (auto simp: absorb_def bind_dial_Inr)
  show ?thesis
  proof (cases "find_str crlf2 (ex_pending st @ data)")
    case None
    then have "\<not> ex_got_headers st'" using h b assms(2) by (auto simp: absorb_headers_def Let_def split: if_splits)
    with assms(3) show ?thesis by simp
  next
    case (Some sep)
    from absorb_headers_complete [OF h Some] obtain r l n where r: "rest = Some (drop (sep + 4) (ex_pending st @ data))"
      and s: "s = st\<lparr>ex_response := r, ex_pending := [], ex_got_headers := True, ex_lua := l,
          ex_chunked := is_chunked r, ex_length := n, ex_finished := no_body head r\<rparr>" by blast
    have body: "absorb_body cb opts (drop (sep + 4) (ex_pending st @ data)) s = (Inr (), st')" using b r by simp
    have "st' = s"
    proof (cases "no_body head r")
      case True
      then show ?thesis using body s by (simp add: absorb_body_def)
    next
      case False
      have "resp_status (ex_response st') = resp_status r"
      proof -
        have "resp_status (ex_response u) = resp_status (ex_response t)"
          if "absorb_body cb opts d t = (Inr (), u)" for d t u
          using that
          by (auto simp: absorb_body_def bind_dial_Inr set_finished_def Let_def dest!: append_chunks_done append_body_done
              split: if_splits sum.splits option.splits)
        from this [OF body] s show ?thesis by simp
      qed
      with False assms(5) show ?thesis by (simp add: no_body_def)
    qed
    with s assms(4-6) show ?thesis by (simp add: conclude_def complete_def Let_def)
  qed
qed

end
