(* ===== verification/HttpRoundTrip.thy ===== *)
theory HttpRoundTrip imports HttpLimits begin

text \<open>
  The client against a server of the same library: a response that \<open>ResponseBuilder\<close> built, delivered
  over a plain socket in any pieces, is what the client returns. The state of a request after a prefix of
  the response is described by \<open>staged\<close>; a receive moves it to a longer prefix.
\<close>

section \<open>Callbacks that do not interfere\<close>

definition agreeable :: "'l callbacks \<Rightarrow> bool" where
  "agreeable cb \<longleftrightarrow> (\<forall>name arg l. fst (cb name arg l) = Not_Callable \<or> fst (cb name arg l) = Call_Value Lua_Nil)"

lemma agreeable_call:
  assumes "agreeable cb"
  shows "\<exists>v l'. call_request_callback cb opts name arg l = (Inr v, l') \<and> (v = None \<or> v = Some Lua_Nil)"
  using assms [unfolded agreeable_def, rule_format, of name arg l]
  by (cases "cb name arg l") (auto simp: call_request_callback_def)

lemma agreeable_cancel: "agreeable cb \<Longrightarrow> \<exists>l. on_lua (request_cancelled cb opts) st = (Inr False, st\<lparr>ex_lua := l\<rparr>)"
  using agreeable_call [of cb opts "''should_cancel''" No_Argument "ex_lua st"]
  by (auto simp: on_lua_def request_cancelled_def bind_dial_def to_boolean_def)

lemma agreeable_headers: "agreeable cb \<Longrightarrow> \<exists>l. on_lua (emit_response_headers cb opts r) st = (Inr (), st\<lparr>ex_lua := l\<rparr>)"
  using agreeable_call [of cb opts "''on_headers''" "Table_Argument (push_response r False)" "ex_lua st"]
  by (auto simp: on_lua_def emit_response_headers_def bind_dial_def)

lemma agreeable_chunk: "agreeable cb \<Longrightarrow> \<exists>l. on_lua (emit_response_chunk cb opts c) st = (Inr (), st\<lparr>ex_lua := l\<rparr>)"
  using agreeable_call [of cb opts "''on_chunk''" "String_Argument c" "ex_lua st"]
  by (auto simp: on_lua_def emit_response_chunk_def bind_dial_def intro: exI [of _ "ex_lua st"])

lemma append_body_runs:
  assumes "agreeable cb" and "length (resp_body (ex_response st)) + length c \<le> opt_max_response_bytes opts"
  shows "\<exists>l. append_body cb opts c st = (Inr (), st\<lparr>ex_response :=
    (ex_response st)\<lparr>resp_body := resp_body (ex_response st) @ c\<rparr>, ex_lua := l\<rparr>)"
  using assms(2) agreeable_chunk [OF assms(1), of opts c
    "st\<lparr>ex_response := (ex_response st)\<lparr>resp_body := resp_body (ex_response st) @ c\<rparr>\<rparr>"]
  by (simp add: append_body_def Let_def)

section \<open>A receive of ready bytes\<close>

lemma recv_ready:
  assumes "\<not> recv_initiated s" and "clock s = []" and "recv_timer_automatic s"
    and "0 < recv_timeout_seconds s" and "recv_timeout_seconds s < 2 ^ 31"
    and "recv_answers s = ready_io m # as" and "0 < m" and "0 < len" and "len < 2 ^ 31" and "wire s \<noteq> []"
  shows "\<exists>s'. recv 0 len 1 s = (int (length (take (min m len) (wire s))), [(0, take (min m len) (wire s))], s')
    \<and> \<not> recv_initiated s' \<and> clock s' = [] \<and> recv_answers s' = as \<and> wire s' = drop (min m len) (wire s)"
proof -
  let ?d = "take (min m len) (wire s)"
  let ?s1 = "s\<lparr>recv_end_time := word_of_int (recv_timeout_seconds s)\<rparr>"
  let ?s2 = "?s1\<lparr>recv_answers := as, recv_initiated := False, recv_target := (0, len), last_error := 0,
    wire := drop (length ?d) (wire s)\<rparr>"
  have "uint (word_of_int (recv_timeout_seconds s) :: u32) = recv_timeout_seconds s"
    using assms(4,5) by (simp add: uint_word_of_int)
  moreover have "min m (min len (2 ^ 31 - 1)) = min m len" using assms(9) by simp
  moreover have "?d \<noteq> []" using assms(7,8,10) by simp
  ultimately have p: "recv_partial 0 len ?s1 = (int (length ?d), [(0, ?d)], ?s2)"
    using assms(1,2,4,6,9)
    by (simp add: recv_partial_def read_clock_def next_recv_def start_read_def await_io_def finish_read_def
        ready_io_def silent_io_def wsa_io_pending_def Let_def)
  have "0 < length ?d" using assms(7,8,10) by simp
  moreover have "0 < g \<Longrightarrow> recv_loop 0 len 1 g t = (int g, [], t)" for g t
    by (subst recv_loop.simps) simp
  ultimately have ended: "recv_loop 0 len 1 (length ?d) ?s2 = (int (length ?d), [], ?s2)"
    by blast
  have "recv 0 len 1 s = recv_loop 0 len 1 0 ?s1"
    using assms(2,3) by (simp add: recv_def start_recv_timer_internal_def read_clock_def)
  also have "\<dots> = (int (length ?d), [(0, ?d)], ?s2)"
    using p ended \<open>0 < length ?d\<close> assms(9) by (subst recv_loop.simps) (simp add: sz_sub_def del: length_take length_greater_0_conv)
  finally have "recv 0 len 1 s = (int (length ?d), [(0, ?d)], ?s2)" .
  moreover have "drop (length ?d) (wire s) = drop (min m len) (wire s)" by (simp add: min_def)
  ultimately show ?thesis using assms(2) by (intro exI [of _ ?s2]) (simp del: length_take)
qed

text \<open>A write the system accepts at once.\<close>

lemma send_ready:
  assumes "clock s = []" and "send_timer_automatic s" and "0 < send_timeout_seconds s"
    and "send_timeout_seconds s < 2 ^ 31" and "send_answers s = ready_io m # as"
    and "length data \<le> m" and "length data < 2 ^ 31" and "data \<noteq> []"
  shows "send data s = (int (length data), s\<lparr>send_end_time := word_of_int (send_timeout_seconds s),
    send_answers := as, last_error := 0, sent := sent s @ data\<rparr>)"
proof -
  let ?s1 = "s\<lparr>send_end_time := word_of_int (send_timeout_seconds s)\<rparr>"
  let ?s2 = "?s1\<lparr>send_answers := as, last_error := 0, sent := sent s @ data\<rparr>"
  have "uint (word_of_int (send_timeout_seconds s) :: u32) = send_timeout_seconds s"
    using assms(3,4) by (simp add: uint_word_of_int)
  moreover have "min m (min (length data mod 2 ^ 32) (2 ^ 31 - 1)) = length data" using assms(6,7) by simp
  ultimately have p: "send_partial data ?s1 = (int (length data), ?s2)"
    using assms(1,3,5)
    by (simp add: send_partial_def read_clock_def next_send_def start_write_def await_io_def finish_write_def
        ready_io_def silent_io_def wsa_io_pending_def Let_def)
  have ended: "send_loop data (length data) t = (int (length data), t)" for t
    by (subst send_loop.simps) simp
  have "send data s = send_loop data 0 ?s1"
    using assms(1,2) by (simp add: send_def start_send_timer_internal_def read_clock_def)
  also have "\<dots> = (int (length data), ?s2)"
    using p ended assms(8) by (subst send_loop.simps) simp
  finally show ?thesis .
qed

section \<open>A request after a prefix of the response\<close>

text \<open>
  The state after \<open>k\<close> bytes of a response with the given header block and body, whose headers parse to
  \<open>r\<close>; \<open>b\<close> is the count of bytes received.
\<close>

definition staged :: "string \<Rightarrow> string \<Rightarrow> http_response \<Rightarrow> nat \<Rightarrow> nat \<Rightarrow> ('c, 'l) exchange \<Rightarrow> bool" where
  "staged block body r b k st \<longleftrightarrow>
     (if k < length block + 4
      then \<not> ex_got_headers st \<and> \<not> ex_finished st \<and> ex_pending st = take k (block @ crlf2)
        \<and> ex_response st = empty_response\<lparr>bytes_received := b\<rparr>
      else ex_got_headers st \<and> \<not> ex_chunked st \<and> ex_length st = Some (length body) \<and> ex_pending st = []
        \<and> ex_response st = r\<lparr>resp_body := take (k - (length block + 4)) body, bytes_received := b\<rparr>
        \<and> ex_finished st = (length body \<le> k - (length block + 4)))"

definition same_world :: "('c, 'l) exchange \<Rightarrow> ('c, 'l) exchange \<Rightarrow> bool" where
  "same_world s t \<longleftrightarrow> ex_conn s = ex_conn t \<and> ex_clock s = ex_clock t"

lemma absorb_body_plain:
  assumes "agreeable cb" and "length body \<le> opt_max_response_bytes opts"
    and "ex_got_headers st" and "\<not> ex_chunked st" and "\<not> ex_finished st" and "ex_length st = Some (length body)"
    and "resp_body (ex_response st) = take j body"
  shows "\<exists>l. absorb_body cb opts (take m (drop j body)) st = (Inr (), st\<lparr>ex_response :=
    (ex_response st)\<lparr>resp_body := take (j + m) body\<rparr>, ex_lua := l, ex_finished := (length body \<le> j + m)\<rparr>)"
proof -
  let ?c = "take (length body - length (take j body)) (take m (drop j body))"
  have "?c = take m (drop j body)"
    by (cases "length body \<le> j") (auto simp: min_def)
  then have c: "take j body @ ?c = take (j + m) body" "length (take j body) + length ?c \<le> length body"
    by (simp_all add: take_add)
  then obtain l where l: "append_body cb opts ?c st = (Inr (), st\<lparr>ex_response :=
      (ex_response st)\<lparr>resp_body := take j body @ ?c\<rparr>, ex_lua := l\<rparr>)"
    using append_body_runs [OF assms(1), of st ?c opts] assms(2,7) by auto
  have "(length body \<le> length (take (j + m) body)) = (length body \<le> j + m)" by auto
  with l [unfolded c(1)] assms(4-7) show ?thesis
    by (simp add: absorb_body_def bind_dial_def set_finished_def Let_def c(1)) blast
qed

text \<open>What the header block of the response must say.\<close>

definition plain_head :: "http_request_options \<Rightarrow> bool \<Rightarrow> string \<Rightarrow> string \<Rightarrow> http_response \<Rightarrow> bool" where
  "plain_head opts head block body r \<longleftrightarrow> find_str crlf2 (block @ crlf2) = Some (length block)
     \<and> (\<forall>b. parse_response_headers block (empty_response\<lparr>bytes_received := b\<rparr>) = Inr (r\<lparr>bytes_received := b\<rparr>))
     \<and> resp_body r = [] \<and> \<not> no_body head r \<and> \<not> is_chunked r \<and> content_length_of r = Inr (Some (length body))
     \<and> length body \<le> opt_max_response_bytes opts"

lemma plain_head_count:
  assumes "plain_head opts head block body r"
  shows "\<not> no_body head (r\<lparr>bytes_received := b\<rparr>)" "\<not> is_chunked (r\<lparr>bytes_received := b\<rparr>)"
    "content_length_of (r\<lparr>bytes_received := b\<rparr>) = Inr (Some (length body))"
  using assms by (simp_all add: plain_head_def no_body_def is_chunked_def content_length_of_def response_header_def)

lemma accept_headers_runs:
  assumes "agreeable cb" and "plain_head opts head block body r"
  shows "\<exists>l. accept_headers cb opts head (r\<lparr>bytes_received := b\<rparr>) rest st = (Inr (Some rest), st\<lparr>ex_response :=
    r\<lparr>bytes_received := b\<rparr>, ex_pending := [], ex_got_headers := True, ex_lua := l, ex_chunked := False,
    ex_length := Some (length body), ex_finished := False\<rparr>)"
proof -
  from agreeable_headers [OF assms(1)] obtain l where
    "on_lua (emit_response_headers cb opts (r\<lparr>bytes_received := b\<rparr>))
        (st\<lparr>ex_response := r\<lparr>bytes_received := b\<rparr>, ex_pending := [], ex_got_headers := True\<rparr>) =
      (Inr (), st\<lparr>ex_response := r\<lparr>bytes_received := b\<rparr>, ex_pending := [], ex_got_headers := True, ex_lua := l\<rparr>)"
    by blast
  then show ?thesis
    using plain_head_count [OF assms(2), of b] assms(2)
    by (simp add: accept_headers_def bind_dial_def plain_head_def Let_def not_less) blast
qed

lemma staged_pending_length: "k < length block + 4 \<Longrightarrow> length (take k (block @ crlf2)) = k"
  by simp

lemma absorb_staged:
  assumes "agreeable cb" and "plain_head opts head block body r" and "staged block body r b k st"
    and "k < length block + 4 + length body \<or> k < length block + 4" and "0 < m"
    and "length block + 4 + m \<le> 1024 * 1024"
  shows "\<exists>st'. absorb cb opts head (take m (drop k (block @ crlf2 @ body))) st = (Inr (), st')
    \<and> staged block body r b (k + m) st' \<and> same_world st' st"
proof -
  let ?t = "block @ crlf2 @ body" and ?h = "length block + 4"
  let ?d = "take m (drop k ?t)"
  show ?thesis
  proof (cases "k < ?h")
    case True
    with assms(3) have st: "\<not> ex_got_headers st" "\<not> ex_finished st" "ex_pending st = take k (block @ crlf2)"
        "ex_response st = empty_response\<lparr>bytes_received := b\<rparr>"
      by (simp_all add: staged_def)
    have p: "ex_pending st @ ?d = take (k + m) ?t"
    proof -
      have "take k (block @ crlf2) = take k ?t" using True by simp
      then show ?thesis unfolding st(3) by (simp only: take_add)
    qed
    have len: "\<not> 1024 * 1024 < length (take (k + m) ?t)" using assms(6) True by simp
    have "find_str crlf2 ?t = Some (length block)"
      using find_str_append [of crlf2 "block @ crlf2" "length block" body] assms(2) by (simp add: plain_head_def)
    note found = find_str_take [OF this, of "k + m", simplified]
    show ?thesis
    proof (cases "?h \<le> k + m")
      case False
      then have "absorb cb opts head ?d st = (Inr (), st\<lparr>ex_pending := take (k + m) ?t\<rparr>)"
        using st len found p by (simp add: absorb_def absorb_headers_def bind_dial_def Let_def)
      moreover have "take (k + m) ?t = take (k + m) (block @ crlf2)" using False by simp
      ultimately show ?thesis using False st by (auto simp: staged_def same_world_def)
    next
      case complete: True
      let ?rest = "drop (length block + 4) (take (k + m) ?t)"
      have "drop ?h ?t = body" by simp
      then have rest: "?rest = take (k + m - ?h) (drop 0 body)" unfolding drop_take by simp
      have block: "take (length block) (take (k + m) ?t) = block" using complete by (simp add: min_def)
      obtain l1 where a: "accept_headers cb opts head (r\<lparr>bytes_received := b\<rparr>) ?rest (st\<lparr>ex_pending := take (k + m) ?t\<rparr>) =
          (Inr (Some ?rest), st\<lparr>ex_pending := take (k + m) ?t, ex_response := r\<lparr>bytes_received := b\<rparr>, ex_pending := [],
            ex_got_headers := True, ex_lua := l1, ex_chunked := False, ex_length := Some (length body), ex_finished := False\<rparr>)"
        using accept_headers_runs [OF assms(1,2)] by blast
      define s where "s = st\<lparr>ex_pending := take (k + m) ?t, ex_response := r\<lparr>bytes_received := b\<rparr>, ex_pending := [],
            ex_got_headers := True, ex_lua := l1, ex_chunked := False, ex_length := Some (length body), ex_finished := False\<rparr>"
      have "parse_response_headers block (ex_response st) = Inr (r\<lparr>bytes_received := b\<rparr>)"
        using assms(2) st(4) by (simp add: plain_head_def)
      then have h: "absorb_headers cb opts head ?d st = (Inr (Some ?rest), s)"
        using a found complete len p block by (simp add: absorb_headers_def Let_def s_def)
      have "resp_body r = []" "length body \<le> opt_max_response_bytes opts" using assms(2) by (simp_all add: plain_head_def)
      then obtain l where "absorb_body cb opts (take (k + m - ?h) (drop 0 body)) s = (Inr (), s\<lparr>ex_response :=
          (ex_response s)\<lparr>resp_body := take (0 + (k + m - ?h)) body\<rparr>, ex_lua := l, ex_finished := (length body \<le> 0 + (k + m - ?h))\<rparr>)"
        using absorb_body_plain [OF assms(1), of body opts s 0 "k + m - ?h"] by (auto simp: s_def)
      then have "absorb cb opts head ?d st = (Inr (), s\<lparr>ex_response :=
          (ex_response s)\<lparr>resp_body := take (k + m - ?h) body\<rparr>, ex_lua := l, ex_finished := (length body \<le> k + m - ?h)\<rparr>)"
        using h st(1) rest by (simp add: absorb_def bind_dial_def)
      then show ?thesis using complete by (auto simp: staged_def same_world_def s_def)
    qed
  next
    case False
    with assms(3,4) have st: "ex_got_headers st" "\<not> ex_chunked st" "ex_length st = Some (length body)" "ex_pending st = []"
        "ex_response st = r\<lparr>resp_body := take (k - ?h) body, bytes_received := b\<rparr>" "\<not> ex_finished st"
      by (simp_all add: staged_def)
    have d: "?d = take m (drop (k - ?h) body)" using False by simp
    have "length body \<le> opt_max_response_bytes opts" using assms(2) by (simp add: plain_head_def)
    with absorb_body_plain [OF assms(1), of body opts st "k - ?h" m] st obtain l where
      "absorb cb opts head ?d st = (Inr (), st\<lparr>ex_response := (ex_response st)\<lparr>resp_body := take (k - ?h + m) body\<rparr>,
         ex_lua := l, ex_finished := (length body \<le> k - ?h + m)\<rparr>)"
      unfolding d by (auto simp: absorb_def)
    then show ?thesis using False st by (auto simp: staged_def same_world_def)
  qed
qed

section \<open>The receive loop\<close>

text \<open>The rest of the response is on the wire, and the network has \<open>ks\<close> deliveries ready.\<close>

definition arriving :: "string \<Rightarrow> nat list \<Rightarrow> ('c, 'l) exchange \<Rightarrow> bool" where
  "arriving rest ks st \<longleftrightarrow> (\<exists>s. ex_conn st = Plain s \<and> \<not> recv_initiated s \<and> clock s = []
     \<and> recv_answers s = map ready_io ks \<and> wire s = rest)"

lemma conn_recv_ready:
  assumes "arriving rest (m # ks) st" and "rest \<noteq> []" and "0 < m" and "0 < len" and "len < 2 ^ 31"
    and "0 < t" and "t < 2 ^ 31"
  shows "\<exists>s. conn_recv api len (on_socket (set_recv_timeout_seconds t True) (ex_conn st)) =
      Inr (int (length (take (min m len) rest)), take (min m len) rest, Plain s)
    \<and> \<not> recv_initiated s \<and> clock s = [] \<and> recv_answers s = map ready_io ks \<and> wire s = drop (min m len) rest"
proof -
  from assms(1) obtain s where s: "ex_conn st = Plain s" "\<not> recv_initiated s" "clock s = []"
      "recv_answers s = ready_io m # map ready_io ks" "wire s = rest"
    by (auto simp: arriving_def)
  let ?s = "set_recv_timeout_seconds t True s" and ?d = "take (min m len) rest"
  have same: "recv_initiated ?s = recv_initiated s" "clock ?s = clock s" "recv_timer_automatic ?s"
      "recv_timeout_seconds ?s = t" "recv_answers ?s = recv_answers s" "wire ?s = wire s"
    using assms(6) by (simp_all add: set_recv_timeout_seconds_def Let_def)
  from recv_ready [of ?s m "map ready_io ks" len] same s assms(2-7) obtain s' where
      r: "recv 0 len 1 ?s = (int (length ?d), [(0, ?d)], s')" and
      s': "\<not> recv_initiated s'" "clock s' = []" "recv_answers s' = map ready_io ks" "wire s' = drop (min m len) rest"
    by auto
  have filled: "take (length d) (apply_writes 0 (replicate len (CHR 0x00)) [(0, d)]) = d" if "length d \<le> len" for d
    using that by simp
  have "length ?d \<le> len" by simp
  from filled [OF this] have "take (length ?d) (apply_writes 0 (replicate len (CHR 0x00)) [(0, ?d)]) = ?d" .
  then have "conn_recv api len (on_socket (set_recv_timeout_seconds t True) (ex_conn st)) = Inr (int (length ?d), ?d, Plain s')"
    using r s(1) by (simp add: conn_recv_def on_socket_def del: length_take)
  then show ?thesis using s' by blast
qed

lemma timeout_seconds_range:
  assumes "0 \<le> ms" and "ms < 2 ^ 31"
  shows "0 < timeout_seconds ms" "timeout_seconds ms < 2 ^ 31"
  using to_int32_range [of "ms + 999"] by (auto simp: timeout_seconds_def Let_def)

text \<open>A step takes in what the next delivery brings.\<close>

lemma receive_step_delivers:
  assumes "agreeable cb" and "arriving (drop k T) (m # ks) st" and "0 < m" and "k < length T"
    and "opt_total_timeout_ms opts = 0" and "options_in_range opts"
  shows "\<exists>n l s. receive_step api names cb opts started head st = absorb cb opts head (take n (drop k T))
        (st\<lparr>ex_lua := l, ex_conn := Plain s, ex_response := (ex_response st)\<lparr>bytes_received := bytes_received (ex_response st) + n\<rparr>\<rparr>)
    \<and> 0 < n \<and> k + n \<le> length T \<and> n \<le> opt_buffer_size opts
    \<and> \<not> recv_initiated s \<and> clock s = [] \<and> recv_answers s = map ready_io ks \<and> wire s = drop (k + n) T"
proof -
  define n where "n = min (min m (opt_buffer_size opts)) (length T - k)"
  let ?len = "opt_buffer_size opts"
  have range: "0 \<le> opt_receive_timeout_ms opts" "opt_receive_timeout_ms opts < 2 ^ 31" "0 < ?len" "?len < 2 ^ 31"
    using assms(6) by (simp_all add: options_in_range_def)
  obtain l where c: "on_lua (request_cancelled cb opts) st = (Inr False, st\<lparr>ex_lua := l\<rparr>)"
    using agreeable_cancel [OF assms(1)] by blast
  let ?s1 = "st\<lparr>ex_lua := l\<rparr>"
  have arr: "arriving (drop k T) (m # ks) ?s1" using assms(2) by (simp add: arriving_def)
  have b: "bounded_timeout opts started (opt_receive_timeout_ms opts) ?s1 = (Inr (opt_receive_timeout_ms opts), ?s1)"
    using assms(5) by (simp add: bounded_timeout_def)
  have ne: "drop k T \<noteq> []" using assms(4) by simp
  have cut: "take x xs = take (min x (length xs)) xs" "drop x xs = drop (min x (length xs)) xs" for x and xs :: string
    by (simp_all add: min_def)
  have d: "take (min m ?len) (drop k T) = take n (drop k T)" "drop (min m ?len) (drop k T) = drop (k + n) T"
    using cut [where x = "min m ?len" and xs = "drop k T"]
    unfolding length_drop drop_drop n_def by (simp_all only: add.commute)
  have n: "0 < n" "k + n \<le> length T" "n \<le> ?len" "length (take n (drop k T)) = n"
    using assms(3,4) range(3) by (auto simp: n_def)
  obtain s where rc: "conn_recv api ?len (on_socket (set_recv_timeout_seconds (timeout_seconds (opt_receive_timeout_ms opts)) True)
        (ex_conn ?s1)) = Inr (int n, take n (drop k T), Plain s)"
      and s: "\<not> recv_initiated s" "clock s = []" "recv_answers s = map ready_io ks" "wire s = drop (k + n) T"
    using conn_recv_ready [OF arr ne assms(3) range(3,4) timeout_seconds_range [OF range(1,2)], of api]
    unfolding d n(4) by blast
  have "receive_at api names cb opts head (opt_receive_timeout_ms opts) ?s1 = absorb cb opts head (take n (drop k T))
      (?s1\<lparr>ex_conn := Plain s, ex_response := (ex_response st)\<lparr>bytes_received := bytes_received (ex_response st) + n\<rparr>\<rparr>)"
    using rc n(1) by (simp add: receive_at_def Let_def)
  with c b have "receive_step api names cb opts started head st = absorb cb opts head (take n (drop k T))
      (st\<lparr>ex_lua := l, ex_conn := Plain s, ex_response := (ex_response st)\<lparr>bytes_received := bytes_received (ex_response st) + n\<rparr>\<rparr>)"
    by (simp add: receive_step_def bind_dial_def)
  with n(1-3) s show ?thesis by blast
qed

lemma receive_step_staged:
  assumes "agreeable cb" and "plain_head opts head block body r" and "staged block body r k k st"
    and "arriving (drop k (block @ crlf2 @ body)) (m # ks) st" and "0 < m"
    and "k < length (block @ crlf2 @ body)" and "opt_total_timeout_ms opts = 0" and "options_in_range opts"
    and "length block + 4 + opt_buffer_size opts \<le> 1024 * 1024"
  shows "\<exists>k' st'. receive_step api names cb opts started head st = (Inr (), st') \<and> k < k'
    \<and> staged block body r k' k' st' \<and> arriving (drop k' (block @ crlf2 @ body)) ks st'
    \<and> k' \<le> length (block @ crlf2 @ body)"
proof -
  define T where "T = block @ crlf2 @ body"
  have k: "k < length T" using assms(6) by (simp only: T_def)
  obtain n l s where step: "receive_step api names cb opts started head st = absorb cb opts head (take n (drop k T))
        (st\<lparr>ex_lua := l, ex_conn := Plain s, ex_response := (ex_response st)\<lparr>bytes_received := bytes_received (ex_response st) + n\<rparr>\<rparr>)"
      and n: "0 < n" "k + n \<le> length T" "n \<le> opt_buffer_size opts"
      and s: "\<not> recv_initiated s" "clock s = []" "recv_answers s = map ready_io ks" "wire s = drop (k + n) T"
    using receive_step_delivers [OF assms(1) assms(4) [folded T_def] assms(5) k assms(7,8), of api names started head] by blast
  define s2 where "s2 = st\<lparr>ex_lua := l, ex_conn := Plain s,
      ex_response := (ex_response st)\<lparr>bytes_received := bytes_received (ex_response st) + n\<rparr>\<rparr>"
  have "bytes_received (ex_response st) = k" using assms(3) by (simp add: staged_def split: if_splits)
  then have st2: "staged block body r (k + n) k s2" using assms(3) by (simp add: staged_def s2_def)
  have "k < length block + 4 + length body \<or> k < length block + 4" using k by (simp add: T_def)
  moreover have "length block + 4 + n \<le> 1024 * 1024" using assms(9) n(3) by linarith
  ultimately obtain st' where st': "receive_step api names cb opts started head st = (Inr (), st')"
      "staged block body r (k + n) (k + n) st'" "same_world st' s2"
    using absorb_staged [OF assms(1,2) st2 _ n(1)] step [folded s2_def] unfolding T_def by metis
  have "arriving (drop (k + n) T) ks st'"
    using st'(3) s by (simp add: arriving_def same_world_def s2_def)
  with st' n(1,2) show ?thesis
    unfolding T_def [symmetric] by (intro exI [of _ "k + n"] exI [of _ st']) simp
qed

lemma staged_finished:
  "staged block body r b k st \<Longrightarrow> ex_finished st \<longleftrightarrow> length block + 4 + length body \<le> k"
  by (auto simp: staged_def split: if_splits)

lemma receive_loop_staged:
  assumes "agreeable cb" and "plain_head opts head block body r"
    and "opt_total_timeout_ms opts = 0" and "options_in_range opts"
    and "length block + 4 + opt_buffer_size opts \<le> 1024 * 1024"
  shows "staged block body r k k st \<Longrightarrow> arriving (drop k (block @ crlf2 @ body)) ks st \<Longrightarrow> \<forall>m \<in> set ks. 0 < m \<Longrightarrow>
    k \<le> length (block @ crlf2 @ body) \<Longrightarrow> length (block @ crlf2 @ body) - k \<le> length ks \<Longrightarrow>
    \<exists>st'. receive_loop api names cb opts started head st = Some (Inr (), st')
      \<and> staged block body r (length (block @ crlf2 @ body)) (length (block @ crlf2 @ body)) st'"
proof (induction ks arbitrary: k st)
  case Nil
  then have "k = length (block @ crlf2 @ body)" by simp
  moreover have "ex_finished st" using staged_finished [OF Nil.prems(1)] calculation by simp
  ultimately show ?case using Nil.prems(1) by (subst receive_loop.simps) simp
next
  case (Cons m ks)
  show ?case
  proof (cases "k = length (block @ crlf2 @ body)")
    case True
    moreover have "ex_finished st" using staged_finished [OF Cons.prems(1)] True by simp
    ultimately show ?thesis using Cons.prems(1) by (subst receive_loop.simps) simp
  next
    case False
    then have k: "k < length (block @ crlf2 @ body)" using Cons.prems(4) by simp
    have "0 < m" using Cons.prems(3) by simp
    from receive_step_staged [OF assms(1,2) Cons.prems(1,2) this k assms(3-5), of api names started]
    obtain k' st' where st': "receive_step api names cb opts started head st = (Inr (), st')" "k < k'"
        "staged block body r k' k' st'" "arriving (drop k' (block @ crlf2 @ body)) ks st'" "k' \<le> length (block @ crlf2 @ body)"
      by blast
    have "length (block @ crlf2 @ body) - k' \<le> length ks" using Cons.prems(5) st'(2) k by simp
    from Cons.IH [OF st'(3,4) _ st'(5) this] Cons.prems(3) obtain st'' where
        "receive_loop api names cb opts started head st' = Some (Inr (), st'')"
        "staged block body r (length (block @ crlf2 @ body)) (length (block @ crlf2 @ body)) st''"
      by auto
    moreover have "\<not> ex_finished st" using staged_finished [OF Cons.prems(1)] k by simp
    ultimately show ?thesis using st'(1) by (subst receive_loop.simps) simp
  qed
qed

section \<open>The whole exchange\<close>

text \<open>A plain connection whose network takes the request at once and has a response ready in pieces.\<close>

definition prompt_socket :: "string \<Rightarrow> string \<Rightarrow> nat list \<Rightarrow> base_sock \<Rightarrow> bool" where
  "prompt_socket request answer ks s \<longleftrightarrow> \<not> recv_initiated s \<and> clock s = [] \<and> wire s = answer
     \<and> recv_answers s = map ready_io ks \<and> (\<forall>m \<in> set ks. 0 < m) \<and> length answer \<le> length ks
     \<and> (\<exists>m as. send_answers s = ready_io m # as \<and> length request \<le> m)"

lemma send_request_prompt:
  assumes "prompt_socket request answer ks s" and "request \<noteq> []" and "length request < 2 ^ 31"
    and "opt_total_timeout_ms opts = 0" and "options_in_range opts"
  shows "\<exists>s'. send_request api names opts started request (new_exchange opts (Plain s) ticks l)
      = (Inr (), new_exchange opts (Plain s') ticks l) \<and> arriving answer ks (new_exchange opts (Plain s') ticks l)"
proof -
  let ?st = "new_exchange opts (Plain s) ticks l" and ?t = "timeout_seconds (opt_send_timeout_ms opts)"
  let ?s = "set_send_timeout_seconds ?t True s"
  obtain m as where m: "send_answers s = ready_io m # as" "length request \<le> m"
    using assms(1) by (auto simp: prompt_socket_def)
  have "0 \<le> opt_send_timeout_ms opts" "opt_send_timeout_ms opts < 2 ^ 31"
    using assms(5) by (simp_all add: options_in_range_def)
  note t = timeout_seconds_range [OF this]
  have same: "recv_initiated ?s = recv_initiated s" "clock ?s = clock s" "send_timer_automatic ?s" "send_timeout_seconds ?s = ?t"
      "recv_answers ?s = recv_answers s" "send_answers ?s = send_answers s" "wire ?s = wire s"
    using t(1) by (simp_all add: set_send_timeout_seconds_def Let_def)
  from send_ready [of ?s m as request] same m assms(1-3) t obtain s' where
      s': "send request ?s = (int (length request), s')" "\<not> recv_initiated s'" "clock s' = []" "wire s' = answer"
        "recv_answers s' = map ready_io ks"
    by (auto simp: prompt_socket_def)
  have "send_request api names opts started request ?st = (Inr (), ?st\<lparr>ex_conn := Plain s'\<rparr>)"
    using s'(1) assms(4)
    by (simp add: send_request_def bounded_timeout_def bind_dial_def conn_send_def on_socket_def new_exchange_def Let_def)
  moreover have "?st\<lparr>ex_conn := Plain s'\<rparr> = new_exchange opts (Plain s') ticks l" by (simp add: new_exchange_def)
  ultimately show ?thesis using s'(2-5) by (intro exI [of _ s']) (simp add: arriving_def new_exchange_def)
qed

lemma send_request_ready:
  assumes "prompt_socket request answer ks s" and "request \<noteq> []" and "length request < 2 ^ 31"
    and "opt_total_timeout_ms opts = 0" and "options_in_range opts"
  shows "\<exists>st'. send_request api names opts started request (new_exchange opts (Plain s) ticks l) = (Inr (), st')
    \<and> staged block body r 0 0 st' \<and> arriving answer ks st'"
proof -
  have "staged block body r 0 0 (new_exchange opts conn ticks l)" for conn
    by (simp add: staged_def new_exchange_def empty_response_def)
  with send_request_prompt [OF assms, of api names started ticks l] show ?thesis by blast
qed

lemma run_exchange_plain:
  assumes "agreeable (http_callbacks env)" and "plain_head opts (head_request request) block body r"
    and "opt_total_timeout_ms opts = 0" and "options_in_range opts"
    and "length block + 4 + opt_buffer_size opts \<le> 1024 * 1024"
    and "prompt_socket request (block @ crlf2 @ body) ks s" and "request \<noteq> []" and "length request < 2 ^ 31"
  shows "\<exists>e t. run_exchange env opts started request (new_exchange opts (Plain s) ticks l) =
    Some (Inr (r\<lparr>resp_body := body, bytes_received := length (block @ crlf2 @ body), elapsed_ms := t\<rparr>), e)"
proof -
  let ?n = "length (block @ crlf2 @ body)"
  obtain st1 where st1: "send_request (env_schannel (http_dial env)) (http_errors env) opts started request
        (new_exchange opts (Plain s) ticks l) = (Inr (), st1)"
      "staged block body r 0 0 st1" "arriving (block @ crlf2 @ body) ks st1"
    using send_request_ready [OF assms(6-8,3,4), where api = "env_schannel (http_dial env)" and names = "http_errors env"
      and started = started and ticks = ticks and l = l and block = block and body = body and r = r] by blast
  have "\<forall>m \<in> set ks. 0 < m" "?n - 0 \<le> length ks" using assms(6) by (simp_all add: prompt_socket_def)
  then obtain st2 where st2: "receive_loop (env_schannel (http_dial env)) (http_errors env) (http_callbacks env) opts started
        (head_request request) st1 = Some (Inr (), st2)" "staged block body r ?n ?n st2"
    using receive_loop_staged [OF assms(1-5), of 0 st1 ks "env_schannel (http_dial env)" "http_errors env" started] st1(2,3)
    by auto
  have "ex_got_headers st2 \<and> \<not> ex_chunked st2 \<and> ex_length st2 = Some (length body)
      \<and> ex_response st2 = r\<lparr>resp_body := body, bytes_received := ?n\<rparr>"
    using st2(2) by (simp add: staged_def)
  then obtain e t where "conclude started (head_request request) st2 =
      (Inr (r\<lparr>resp_body := body, bytes_received := ?n, elapsed_ms := t\<rparr>), e)"
    by (cases "ex_now st2") (auto simp: conclude_def Let_def)
  with st1(1) st2(1) show ?thesis by (auto simp: run_exchange_def Let_def)
qed

text \<open>What a built response leaves after parsing, and that its header block is plain.\<close>

definition built_headers :: "(string \<times> string) list \<Rightarrow> string \<Rightarrow> (string \<times> string) list" where
  "built_headers hs body = map (\<lambda>(k, v). (lower_ascii k, v)) (hs @ [content_length body])"

lemma lookup_unnamed:
  "\<forall>h \<in> set hs. fst h \<noteq> name \<Longrightarrow> lookup_header (hs @ hs') name = lookup_header hs' name"
  by (induction hs) auto

lemma built_headers_lookup:
  assumes "\<forall>h \<in> set hs. lower_ascii (fst h) \<noteq> ''content-length'' \<and> lower_ascii (fst h) \<noteq> ''transfer-encoding''"
  shows "lookup_header (built_headers hs body) ''content-length'' = nat_str (length body)"
    and "lookup_header (built_headers hs body) ''transfer-encoding'' = []"
proof -
  have low: "lower_ascii ''Content-Length'' = ''content-length''" by (simp add: lower_ascii_def) code_simp
  have "\<forall>h \<in> set (map (\<lambda>(k, v). (lower_ascii k, v)) hs). fst h \<noteq> ''content-length'' \<and> fst h \<noteq> ''transfer-encoding''"
    using assms by auto
  then show "lookup_header (built_headers hs body) ''content-length'' = nat_str (length body)"
    and "lookup_header (built_headers hs body) ''transfer-encoding'' = []"
    by (simp_all add: built_headers_def content_length_def lookup_unnamed low)
qed

lemma built_plain_head:
  assumes "num_int api (Finite (of_int st)) = st" and "100 \<le> st" and "st \<le> 999" and "st \<noteq> 204" and "st \<noteq> 304"
    and "clean_text reason" and "CHR 0x0A \<notin> set reason" and "\<forall>h \<in> set hs. clean_header h"
    and "\<forall>h \<in> set hs. lower_ascii (fst h) \<noteq> ''content-length'' \<and> lower_ascii (fst h) \<noteq> ''transfer-encoding''"
    and "length body \<le> opt_max_response_bytes opts" and "opt_max_response_bytes opts < 2 ^ 64" and "\<not> head"
    and "response_builder api (response_table_of st reason hs body) = Inr answer"
  shows "\<exists>block r. answer = block @ crlf2 @ body \<and> plain_head opts head block body r
    \<and> resp_status r = st \<and> resp_reason r = reason \<and> resp_headers r = built_headers hs body"
proof -
  obtain block where b: "answer = block @ crlf2 @ body" "find_str crlf2 (block @ crlf2 @ body) = Some (length block)"
    and p: "\<And>r. parse_response_headers block r = Inr (r\<lparr>raw_headers := block, resp_version := ''HTTP/1.1'',
          resp_status := st, resp_reason := reason, resp_headers := resp_headers r @ built_headers hs body\<rparr>)"
    using built_response [OF assms(1-3,6-8), of body] assms(13) unfolding built_headers_def by auto
  define r where "r = empty_response\<lparr>raw_headers := block, resp_version := ''HTTP/1.1'',
      resp_status := st, resp_reason := reason, resp_headers := built_headers hs body\<rparr>"
  have "find_str crlf2 (block @ crlf2) = Some (length block)"
    using find_str_take [OF b(2), of "length block + 4"] by simp
  moreover have "stoull 10 (nat_str (length body)) = Inr (length body, length (nat_str (length body)))"
    using assms(10,11) stoull_digits [of 10 "length body"] by (simp add: nat_str_def)
  ultimately have "plain_head opts head block body r"
    using assms(4,5,10,12) p built_headers_lookup [OF assms(9), of body]
    by (simp add: plain_head_def no_body_def is_chunked_def content_length_of_def response_header_def r_def
        empty_response_def lower_ascii_def)
  then show ?thesis using b(1) by (intro exI [of _ block] exI [of _ r]) (simp add: r_def)
qed

text \<open>
  A client gets what a server of this library built: when the answer to a request on a plain
  connection is a response of \<open>ResponseBuilder\<close>, \<open>ResolveHttpRequest\<close> returns its status, reason,
  headers in order (the content length last) and exactly its body, whatever bytes the body has and in
  whatever pieces the network delivers the answer.
\<close>

theorem http_exchange_round_trip:
  assumes "num_int api (Finite (of_int st)) = st" and "100 \<le> st" and "st \<le> 999" and "st \<noteq> 204" and "st \<noteq> 304"
    and "clean_text reason" and "CHR 0x0A \<notin> set reason" and "\<forall>h \<in> set hs. clean_header h"
    and "\<forall>h \<in> set hs. lower_ascii (fst h) \<noteq> ''content-length'' \<and> lower_ascii (fst h) \<noteq> ''transfer-encoding''"
    and "response_builder api (response_table_of st reason hs body) = Inr answer"
    and "length body \<le> opt_max_response_bytes opts"
    and "length answer + opt_buffer_size opts \<le> 1024 * 1024 + length body"
    and "agreeable (http_callbacks env)" and "opt_total_timeout_ms opts = 0" and "options_in_range opts"
    and "\<not> head_request request" and "request \<noteq> []" and "length request < 2 ^ 31"
    and "prompt_socket request answer ks s"
  shows "\<exists>r e. run_exchange env opts started request (new_exchange opts (Plain s) ticks l) = Some (Inr r, e)
    \<and> resp_status r = st \<and> resp_reason r = reason \<and> resp_headers r = built_headers hs body
    \<and> resp_body r = body \<and> bytes_received r = length answer"
proof -
  have "opt_max_response_bytes opts < 2 ^ 64" using assms(15) by (simp add: options_in_range_def)
  from built_plain_head [OF assms(1-9,11) this assms(16,10)] obtain block r where b: "answer = block @ crlf2 @ body"
      "plain_head opts (head_request request) block body r"
      "resp_status r = st" "resp_reason r = reason" "resp_headers r = built_headers hs body"
    using assms(16) by auto
  have "length block + 4 + opt_buffer_size opts \<le> 1024 * 1024" using assms(12) by (simp add: b(1))
  from run_exchange_plain [OF assms(13) b(2) assms(14,15) this assms(19) [unfolded b(1)] assms(17,18)] obtain e t where
    "run_exchange env opts started request (new_exchange opts (Plain s) ticks l) =
      Some (Inr (r\<lparr>resp_body := body, bytes_received := length (block @ crlf2 @ body), elapsed_ms := t\<rparr>), e)"
    by blast
  then show ?thesis using b(1,3-5) by simp
qed

section \<open>Concrete runs\<close>

definition demo_http_answer :: string where
  "demo_http_answer = ''HTTP/1.1 200 OK'' @ crlf @ ''Content-Length: 2'' @ crlf2 @ ''hi''"

definition demo_http_request :: string where
  "demo_http_request = ''GET / HTTP/1.1'' @ crlf2"

definition demo_peer :: base_sock where
  "demo_peer = new_sock\<lparr>recv_answers := map ready_io (replicate 60 7), send_answers := [ready_io 100], wire := demo_http_answer\<rparr>"

definition demo_http_env :: "(unit, unit) http_env" where
  "demo_http_env = \<lparr>http_dial = demo_dial_env, http_errors = (\<lambda>_. None),
     http_callbacks = (\<lambda>_ _ l. (Not_Callable, l)), http_socket = new_sock, http_clock = []\<rparr>"

lemma demo_answer_builds: "response_builder demo_api (response_table_of 200 ''OK'' [] ''hi'') = Inr demo_http_answer"
proof -
  have "chr_of 50 = CHR ''2''" "chr_of 48 = CHR ''0''" by code_simp+
  then have "nat_str 200 = ''200''" "nat_str 2 = ''2''"
    by (simp_all add: nat_str_def digits.simps digit_chr_def)
  moreover from this(2) have "nat_str (Suc (Suc 0)) = ''2''" by (simp add: numeral_2_eq_2)
  ultimately show ?thesis
    using response_text [of demo_api 200 "''OK''" "[]" "''hi''"] demo_api_int [of 200]
    by (simp add: demo_http_answer_def header_text_def content_length_def crlf_def crlf2_def)
qed

lemma demo_number: "num_int demo_api (Finite 200) = 200"
  using demo_api_int [of 200] by simp

lemma demo_prompt: "prompt_socket demo_http_request demo_http_answer (replicate 60 7) demo_peer"
proof -
  have "\<exists>m as. send_answers demo_peer = ready_io m # as \<and> length demo_http_request \<le> m"
    by (intro exI [of _ 100] exI [of _ "[]"]) (simp add: demo_peer_def demo_http_request_def crlf2_def)
  then show ?thesis
    by (simp add: prompt_socket_def demo_peer_def new_sock_def demo_http_answer_def crlf_def crlf2_def)
qed

lemma demo_exchange_ready:
  "agreeable (http_callbacks demo_http_env)"
  "options_in_range default_options" "opt_total_timeout_ms default_options = 0" "\<not> head_request demo_http_request"
  "demo_http_request \<noteq> []" "length demo_http_request < 2 ^ 31" "length demo_http_answer = 40"
  "opt_max_response_bytes default_options = 64 * 1024 * 1024" "opt_buffer_size default_options = 16384"
  by (simp_all add: agreeable_def demo_http_env_def prompt_socket_def demo_peer_def new_sock_def demo_http_answer_def
      demo_http_request_def default_options_def options_in_range_def head_request_def starts_with_def crlf_def crlf2_def)

theorem http_exchange_round_trip_witness:
  "\<exists>r e. run_exchange demo_http_env default_options 0 demo_http_request (new_exchange default_options (Plain demo_peer) [] ())
      = Some (Inr r, e)
    \<and> resp_status r = 200 \<and> resp_reason r = ''OK'' \<and> resp_headers r = built_headers [] ''hi''
    \<and> resp_body r = ''hi'' \<and> bytes_received r = length demo_http_answer"
  by (rule http_exchange_round_trip [OF _ _ _ _ _ _ _ _ _ demo_answer_builds _ _ demo_exchange_ready(1,3,2,4-6) demo_prompt])
    (simp_all add: clean_text_def is_ows_def demo_exchange_ready demo_number)


theorem http_request_returns_witness:
  "\<exists>r st. run_exchange demo_http_env default_options 0 demo_http_request (new_exchange default_options (Plain new_sock) [] ()) = Some (r, st)"
  by (rule http_request_returns [OF demo_exchange_ready(2)])

text \<open>The answer to a HEAD request that announces a chunked body.\<close>

definition demo_head_block :: string where
  "demo_head_block = ''HTTP/1.1 200 OK'' @ crlf @ ''Transfer-Encoding: chunked''"

definition demo_head_exchange :: "(unit, unit) exchange" where
  "demo_head_exchange = new_exchange default_options (Plain new_sock) [] ()"

definition demo_head_response :: http_response where
  "demo_head_response = empty_response\<lparr>raw_headers := demo_head_block, resp_version := ''HTTP/1.1'',
     resp_status := 200, resp_reason := ''OK'', resp_headers := [(''transfer-encoding'', ''chunked'')]\<rparr>"

lemma demo_head_parsed:
  "find_str crlf2 (demo_head_block @ crlf2) = Some (length demo_head_block)"
  "parse_response_headers demo_head_block empty_response = Inr demo_head_response"
  "is_chunked demo_head_response" "content_length_of demo_head_response = Inr None"
  by code_simp+

lemma demo_head_absorbed:
  "absorb (http_callbacks demo_http_env) default_options True (demo_head_block @ crlf2) demo_head_exchange =
     (Inr (), demo_head_exchange\<lparr>ex_response := demo_head_response, ex_got_headers := True, ex_chunked := True,
       ex_finished := True\<rparr>)"
proof -
  have "length (demo_head_block @ crlf2) \<le> 1024 * 1024" by (simp add: demo_head_block_def crlf_def crlf2_def)
  moreover have "emit_response_headers (http_callbacks demo_http_env) default_options demo_head_response () = (Inr (), ())"
    by (simp add: emit_response_headers_def call_request_callback_def default_options_def bind_dial_def)
  ultimately show ?thesis
    using demo_head_parsed
    by (simp add: absorb_def absorb_headers_def accept_headers_def absorb_body_def on_lua_def bind_dial_def Let_def
        demo_head_exchange_def new_exchange_def no_body_def)
qed

theorem head_of_chunked_fails_witness:
  "fst (conclude 0 True (demo_head_exchange\<lparr>ex_response := demo_head_response, ex_got_headers := True,
       ex_chunked := True, ex_finished := True\<rparr>)) =
     Inl (Runtime_Error ''connection closed before the chunked response completed'')"
  using head_of_chunked_fails [OF demo_head_absorbed, of 0] demo_head_parsed(3)
  by (simp add: demo_head_exchange_def new_exchange_def new_decoder_def no_body_def)

end
