(* ===== verification/ConnectionContext.thy ===== *)
theory ConnectionContext imports HttpClient begin

text \<open>
  \<open>ConnectionContext\<close> of \<open>main.cpp\<close>: the connection \<open>network.connect\<close> returns. It is dialled like a
  request; receiving, sending and polling go to the TLS client or the socket. The lemmas show what a
  receive returns and that neither form of \<open>poll\<close> counts bytes.
\<close>

record 'c connection_context =
  cc_conn :: "'c connection"
  cc_nonblocking :: bool

text \<open>
  The arguments: host, port, whether to block, and the table of options. With a port as second argument
  the third one decides on blocking and an absent one means not to block; in the other forms blocking is
  the default.
\<close>

definition table_of :: "lua_value \<Rightarrow> option_table" where
  "table_of v = (case v of Lua_Table t \<Rightarrow> Some t | _ \<Rightarrow> None)"

definition block_field :: "(lua_value \<times> lua_value) list \<Rightarrow> bool" where
  "block_field t = (case get_field t ''block'' of Lua_Boolean b \<Rightarrow> b | _ \<Rightarrow> True)"

definition connect_arguments ::
    "lua_api \<Rightarrow> lua_value list \<Rightarrow> (string \<times> int \<times> bool \<times> option_table) result" where
  "connect_arguments api args =
     (let arg = (\<lambda>i. if i < length args then args ! i else Lua_Nil) in
      case (to_lstring api (arg 0), 1 < length args) of
        (Some host, True) \<Rightarrow>
          Inr (if is_number api (arg 1) then (c_str host, to_int32 (to_integer api (arg 1)), to_boolean (arg 2), None)
               else case arg 1 of
                   Lua_Table t \<Rightarrow> (c_str host, to_port api (get_field t ''port'') 443, block_field t, Some t)
                 | Lua_Boolean b \<Rightarrow> (c_str host, 443, b, None)
                 | _ \<Rightarrow> (c_str host, 443, True, None))
      | _ \<Rightarrow>
          (case table_of (arg 0) of
             None \<Rightarrow> Inl (Lua_Error ''missing 'host' parameter'')
           | Some t \<Rightarrow>
               (case get_field t ''host'' of
                  Lua_String host \<Rightarrow> Inr (c_str host, to_port api (get_field t ''port'') 443, block_field t, Some t)
                | _ \<Rightarrow> Inl (Lua_Error ''request.host is not a string''))))"

text \<open>Only a \<open>DialError\<close> is turned into a Lua error; its text goes through a buffer of 512 characters.\<close>

definition connect_failure_text :: "error \<Rightarrow> error" where
  "connect_failure_text e =
     (case e of Dial_Error code t \<Rightarrow> if c_str t = [] then Undefined else Lua_Error (take 511 (c_str t)) | _ \<Rightarrow> e)"

definition connection_create ::
    "('c, 'l) http_env \<Rightarrow> lua_api \<Rightarrow> lua_value list \<Rightarrow> process_state
     \<Rightarrow> ('c connection_context result \<times> process_state) option" where
  "connection_create env api args p =
     (let texts = crypto_texts (env_crypto (http_dial env)) in
      case bind_result (connect_arguments api args) (\<lambda>(host, port, block, t).
             bind_result (read_options api texts t) (\<lambda>opts. Inr (host, port, block, opts))) of
        Inl e \<Rightarrow> Some (Inl e, p)
      | Inr (host, port, block, opts) \<Rightarrow>
          (case dial (http_dial env) (dial_options_of (utf8_decode_lua texts host) port opts) p
                  \<lparr>sock = http_socket env, steady = http_clock env\<rparr> of
             None \<Rightarrow> None
           | Some (Inl e, p1, d) \<Rightarrow> Some (Inl (connect_failure_text e), p1)
           | Some (Inr conn, p1, d) \<Rightarrow> Some (Inr \<lparr>cc_conn = conn, cc_nonblocking = \<not> block\<rparr>, p1)))"

definition conn_socket :: "'c connection \<Rightarrow> base_sock" where
  "conn_socket conn = (case conn of Plain s \<Rightarrow> s | Secure s \<Rightarrow> ssl_stream s)"

definition connection_closed :: "nat \<Rightarrow> 'c connection_context \<Rightarrow> bool" where
  "connection_closed so_error cc = BaseSock.closed so_error (conn_socket (cc_conn cc))"

definition connection_close :: "'c connection_context \<Rightarrow> 'c connection_context" where
  "connection_close cc = cc\<lparr>cc_conn := on_socket (\<lambda>s. snd (disconnect True s)) (cc_conn cc)\<rparr>"

section \<open>Receiving and sending\<close>

text \<open>
  The buffer is handed to Lua as a whole, whatever the receive returned. Without a length it has 1024
  bytes; with one, the plain socket is asked for all of them, the TLS client ignores the minimum.
\<close>

definition connection_receive ::
    "'c sspi \<Rightarrow> lua_api \<Rightarrow> lua_value \<Rightarrow> 'c connection_context \<Rightarrow> (string \<times> 'c connection_context) result" where
  "connection_receive api lua v cc =
     (if v \<noteq> Lua_Nil \<and> \<not> is_number lua v then Inl (Lua_Error ''bad argument #2 (number expected)'')
      else let wanted = (if v = Lua_Nil then 0 else to_integer lua v);
               len = (if wanted = 0 then 1024 else nat wanted);
               min_len = (if wanted = 0 then 1 else nat wanted)
           in if wanted < 0 then Inl (Runtime_Error ''string too long'')
              else (case cc_conn cc of
                  Plain s \<Rightarrow> (case recv 0 len min_len s of
                    (n, ws, s1) \<Rightarrow> Inr (apply_writes 0 (replicate len (CHR 0x00)) ws, cc\<lparr>cc_conn := Plain s1\<rparr>))
                | Secure s \<Rightarrow> bind_result (ssl_recv api len s) (\<lambda>(n, d, s1).
                    Inr (take len (d @ replicate (len - length d) (CHR 0x00)), cc\<lparr>cc_conn := Secure s1\<rparr>))))"

text \<open>\<open>lua_Send\<close>: a string goes through a \<open>const char*\<close>, a table through \<open>ResponseBuilder\<close>; how much was sent is not told.\<close>

definition connection_send ::
    "'c sspi \<Rightarrow> lua_api \<Rightarrow> lua_value \<Rightarrow> 'c connection_context \<Rightarrow> 'c connection_context result" where
  "connection_send api lua v cc =
     bind_result
       (case to_lstring lua v of
          Some d \<Rightarrow> Inr (c_str d)
        | None \<Rightarrow> (case v of Lua_Table t \<Rightarrow> response_builder lua t | _ \<Rightarrow> Inl (Lua_Error ''Invalid argument'')))
       (\<lambda>data. bind_result (conn_send api data (cc_conn cc)) (\<lambda>(n, conn). Inr (cc\<lparr>cc_conn := conn\<rparr>)))"

section \<open>Polling\<close>

datatype poll_answer = Poll_Ready bool | Poll_Count int

definition poll_failed :: "nat \<Rightarrow> error" where
  "poll_failed e = Lua_Error (''Failed to poll socket: '' @ nat_str e)"

text \<open>
  \<open>FIONREAD\<close> answers an error or the bytes that can be read; the peek asks for no byte at all, so what
  it returns when it does not fail is 0. Reserving room in a string does not change its size.
\<close>

definition connection_poll ::
    "lua_api \<Rightarrow> lua_value list \<Rightarrow> (nat + nat) \<Rightarrow> nat option \<Rightarrow> poll_answer result" where
  "connection_poll api args fionread peek_error =
     (case fionread of
        Inl e \<Rightarrow> Inl (poll_failed e)
      | Inr can_recv \<Rightarrow>
          if args \<noteq> []
          then let want_recv = nat (to_integer api (hd args) mod 2 ^ 32) in
            if want_recv \<le> can_recv then Inr (Poll_Ready True)
            else if 0 < can_recv
            then (case peek_error of Some e \<Rightarrow> Inl (poll_failed e) | None \<Rightarrow> Inr (Poll_Ready True))
            else Inr (Poll_Ready False)
          else if 0 < can_recv
          then (case peek_error of Some e \<Rightarrow> Inl (poll_failed e) | None \<Rightarrow> Inr (Poll_Count 0))
          else Inr (Poll_Count (int can_recv)))"

section \<open>What they answer\<close>

text \<open>
  Neither form of \<open>poll\<close> counts: without an argument it answers 0 whether or not there is something
  to read, and with one it answers true as soon as a single byte can be read, however many were asked for.
\<close>

theorem poll_does_not_count:
  "(connection_poll api [] (Inr n) None = Inr (Poll_Count 0))
   \<and> (connection_poll api (v # vs) (Inr n) None = Inr (Poll_Ready b) \<longrightarrow>
        b = (0 < n \<or> to_integer api v mod 2 ^ 32 = 0))"
proof -
  have "0 \<le> to_integer api v mod 2 ^ 32" by simp
  then have "nat (to_integer api v mod 2 ^ 32) \<le> 0 \<longleftrightarrow> to_integer api v mod 2 ^ 32 = 0" by linarith
  then show ?thesis by (auto simp: connection_poll_def Let_def)
qed

lemma receive_length:
  assumes "connection_receive api lua v cc = Inr (d, cc')"
  shows "length d = (if v = Lua_Nil \<or> to_integer lua v = 0 then 1024 else nat (to_integer lua v))"
proof -
  have "length (apply_writes base buf ws) = length buf" for base buf ws
    by (induction ws arbitrary: buf) (auto split: prod.splits)
  then show ?thesis
    using assms by (auto simp: connection_receive_def Let_def bind_result_Inr split: if_splits connection.splits prod.splits)
qed

lemma send_stops_at_nul:
  "connection_send api lua (Lua_String (a @ CHR 0x00 # b)) cc = connection_send api lua (Lua_String (c_str a)) cc"
proof -
  have "c_str (a @ CHR 0x00 # b) = c_str a" by (induction a) (auto simp: c_str_def)
  moreover have "CHR 0x00 \<notin> set (c_str a)" by (auto simp: c_str_def dest: set_takeWhileD)
  then have "c_str (c_str a) = c_str a" by (rule c_str_id)
  ultimately show ?thesis by (simp add: connection_send_def to_lstring_def)
qed

theorem poll_does_not_count_witness:
  "connection_poll demo_api [] (Inr 7) None = Inr (Poll_Count 0)
   \<and> connection_poll demo_api [Lua_Number (Finite (of_int 100))] (Inr 1) None = Inr (Poll_Ready True)"
proof -
  have "to_integer demo_api (Lua_Number (Finite (of_int 100))) = 100"
    using demo_api_int [of 100] by (simp only: to_integer_def as_number_def lua_value.case option.case)
  then obtain b where b: "connection_poll demo_api [Lua_Number (Finite (of_int 100))] (Inr 1) None = Inr (Poll_Ready b)"
    by (simp add: connection_poll_def)
  note p = poll_does_not_count [where api = demo_api and v = "Lua_Number (Finite (of_int 100))" and vs = "[]" and b = b]
  from p [of 1] b have b by auto
  with p [of 7] b show ?thesis by simp
qed

end
