(* ===== verification/PeerSocket.thy ===== *)
theory PeerSocket imports CppString begin

text \<open>
  \<open>Socket\<close> (\<open>socket/Socket.cpp\<close>), the plain socket of the listener side. Its network is a schedule:
  what happens next, each event with the milliseconds until it does, so that waiting and sleeping let
  time pass. Reading a clock and a call that does not wait take no time. A wait without limit and
  without an event to come never returns; that outcome is \<open>None\<close>. One \<open>recv\<close> hands over at most
  \<open>pk_grain\<close> bytes. The lemmas show when a receive returns, that it delivers the stream, and where it
  does not do what its callers rely on.
\<close>

section \<open>State\<close>

text \<open>\<open>Interrupted\<close> and \<open>Poll_Fails\<close> are what \<open>WSAPoll\<close> reports to a thread that waits in it.\<close>

datatype net_event = Arrives string | Peer_Closes | Peer_Resets | Interrupted | Poll_Fails

record peer_socket =
  pk_handle :: bool
  pk_closed :: bool
  pk_blocking :: bool
  pk_input :: string
  pk_eof :: bool
  pk_reset :: bool
  pk_events :: "(nat \<times> net_event) list"
  pk_now :: nat
  pk_grain :: nat
  pk_send_answers :: "(nat + nat) list"
  pk_output :: string

definition accepted_socket :: "bool \<Rightarrow> (nat \<times> net_event) list \<Rightarrow> nat \<Rightarrow> nat \<Rightarrow> peer_socket" where
  "accepted_socket blocking events now grain =
     \<lparr>pk_handle = True, pk_closed = False, pk_blocking = blocking, pk_input = [], pk_eof = False, pk_reset = False,
      pk_events = events, pk_now = now, pk_grain = grain, pk_send_answers = [], pk_output = []\<rparr>"

fun happen :: "net_event \<Rightarrow> peer_socket \<Rightarrow> peer_socket" where
  "happen (Arrives d) s = s\<lparr>pk_input := pk_input s @ d\<rparr>"
| "happen Peer_Closes s = s\<lparr>pk_eof := True\<rparr>"
| "happen Peer_Resets s = s\<lparr>pk_reset := True\<rparr>"
| "happen Interrupted s = s"
| "happen Poll_Fails s = s"

text \<open>A number of milliseconds passes, with every event that is due.\<close>

fun elapse :: "(nat \<times> net_event) list \<Rightarrow> nat \<Rightarrow> peer_socket \<Rightarrow> peer_socket" where
  "elapse [] t s = s\<lparr>pk_events := [], pk_now := pk_now s + t\<rparr>"
| "elapse ((d, e) # es) t s =
     (if d \<le> t then elapse es (t - d) (happen e (s\<lparr>pk_now := pk_now s + d\<rparr>))
      else s\<lparr>pk_events := (d - t, e) # es, pk_now := pk_now s + t\<rparr>)"

definition sleep_for :: "nat \<Rightarrow> peer_socket \<Rightarrow> peer_socket" where
  "sleep_for t s = elapse (pk_events s) t s"

definition readable :: "peer_socket \<Rightarrow> bool" where
  "readable s \<longleftrightarrow> pk_input s \<noteq> [] \<or> pk_eof s \<or> pk_reset s"

section \<open>Closing\<close>

definition socket_close :: "peer_socket \<Rightarrow> peer_socket" where
  "socket_close s = (if pk_closed s then s else s\<lparr>pk_handle := False\<rparr>)\<lparr>pk_closed := True\<rparr>"

definition socket_closed :: "peer_socket \<Rightarrow> bool" where
  "socket_closed s \<longleftrightarrow> pk_closed s \<or> pk_reset s"

section \<open>Waiting\<close>

text \<open>
  The loop of \<open>WaitReadable\<close> on the events to come; the budget is what is left of the timeout, \<open>None\<close>
  without one. It is tested before the poll; an interrupted poll goes on with the rest of it.
\<close>

fun wait_for :: "(nat \<times> net_event) list \<Rightarrow> nat option \<Rightarrow> peer_socket \<Rightarrow> (bool \<times> peer_socket) option" where
  "wait_for [] budget s =
     (if budget = Some 0 then Some (False, s\<lparr>pk_events := []\<rparr>)
      else if readable s then Some (True, s\<lparr>pk_events := []\<rparr>)
      else case budget of None \<Rightarrow> None | Some b \<Rightarrow> Some (False, s\<lparr>pk_events := [], pk_now := pk_now s + b\<rparr>))"
| "wait_for ((d, e) # es) budget s =
     (if budget = Some 0 then Some (False, s\<lparr>pk_events := (d, e) # es\<rparr>)
      else if readable s then Some (True, s\<lparr>pk_events := (d, e) # es\<rparr>)
      else if (case budget of None \<Rightarrow> False | Some b \<Rightarrow> b \<le> d)
      then Some (False, s\<lparr>pk_events := (d - the budget, e) # es, pk_now := pk_now s + the budget\<rparr>)
      else if e = Poll_Fails then Some (False, s\<lparr>pk_events := es, pk_now := pk_now s + d\<rparr>)
      else wait_for es (map_option (\<lambda>b. b - d) budget) (happen e (s\<lparr>pk_now := pk_now s + d\<rparr>)))"

definition wait_readable :: "int \<Rightarrow> peer_socket \<Rightarrow> (bool \<times> peer_socket) option" where
  "wait_readable timeout_ms s =
     (if pk_closed s \<or> \<not> pk_handle s then Some (False, s)
      else wait_for (pk_events s) (if timeout_ms < 0 then None else Some (nat timeout_ms)) s)"

section \<open>Receiving\<close>

text \<open>
  The probe, \<open>recv\<close> with \<open>MSG_PEEK\<close> when nothing is buffered: a socket that blocks waits there, however
  small the timeout of the receive is. Interruptions and failures of a poll do not concern it.
\<close>

fun block_for :: "(nat \<times> net_event) list \<Rightarrow> peer_socket \<Rightarrow> peer_socket option" where
  "block_for [] s = (if readable s then Some (s\<lparr>pk_events := []\<rparr>) else None)"
| "block_for ((d, e) # es) s =
     (if readable s then Some (s\<lparr>pk_events := (d, e) # es\<rparr>)
      else block_for es (happen e (s\<lparr>pk_now := pk_now s + d\<rparr>)))"

definition peek_probe :: "peer_socket \<Rightarrow> peer_socket option" where
  "peek_probe s = (if pk_blocking s \<and> \<not> readable s then block_for (pk_events s) s else Some s)"

partial_function (option) await_bytes ::
    "nat \<Rightarrow> nat \<Rightarrow> nat \<Rightarrow> peer_socket \<Rightarrow> (nat option \<times> peer_socket) option" where
  "await_bytes max_recv timeout_ms deadline s =
     (if \<not> pk_handle s \<or> pk_reset s then Some (None, s)
      else let can_recv = length (pk_input s) in
        if 0 < can_recv
        then if max_recv \<le> can_recv then Some (Some can_recv, s)
             else if timeout_ms \<noteq> 0 \<and> deadline \<le> pk_now s then Some (None, s)
             else await_bytes max_recv timeout_ms deadline (sleep_for 1 s)
        else case peek_probe s of
            None \<Rightarrow> None
          | Some s1 \<Rightarrow>
              if pk_reset s1 then Some (None, s1)
              else if pk_eof s1 \<and> pk_input s1 = [] then Some (None, s1\<lparr>pk_closed := True\<rparr>)
              else if timeout_ms \<noteq> 0 \<and> deadline \<le> pk_now s1 then Some (None, s1)
              else case wait_readable (if timeout_ms = 0 then -1 else int (min (deadline - pk_now s1) 2147483647)) s1 of
                  None \<Rightarrow> None
                | Some (_, s2) \<Rightarrow> await_bytes max_recv timeout_ms deadline s2)"

text \<open>
  The reads: each call grows the string by what is still missing and writes at the start of the part it
  added, so when one call does not deliver everything there are NUL bytes between the pieces.
\<close>

function drain :: "nat \<Rightarrow> string \<Rightarrow> peer_socket \<Rightarrow> string \<times> peer_socket" where
  "drain max_recv ret s =
     (if max_recv = 0 then (ret, s)
      else let d = take (min max_recv (pk_grain s)) (pk_input s) in
        if d = [] then (if pk_eof s then ret @ replicate max_recv (CHR 0x00) else [], s)
        else drain (max_recv - length d) (ret @ d @ replicate (max_recv - length d) (CHR 0x00))
               (s\<lparr>pk_input := drop (length d) (pk_input s)\<rparr>))"
  by pat_completeness auto
termination
  by (relation "measure (\<lambda>(n, ret, s). n)") auto

declare drain.simps [simp del]

definition socket_receive_bytes :: "nat \<Rightarrow> nat \<Rightarrow> peer_socket \<Rightarrow> (string \<times> peer_socket) option" where
  "socket_receive_bytes max_recv timeout_ms s =
     (case await_bytes max_recv timeout_ms (pk_now s + timeout_ms) s of
        None \<Rightarrow> None
      | Some (None, s1) \<Rightarrow> Some ([], s1)
      | Some (Some can_recv, s1) \<Rightarrow> Some (drain (if max_recv = 0 then can_recv else max_recv) [] s1))"

section \<open>Sending\<close>

definition wsaewouldblock :: nat where "wsaewouldblock = 10035"
definition wsaeintr :: nat where "wsaeintr = 10004"

definition socket_send_bytes :: "string \<Rightarrow> peer_socket \<Rightarrow> int \<times> peer_socket" where
  "socket_send_bytes data s =
     (case (case pk_send_answers s of [] \<Rightarrow> (Inl wsaewouldblock, s) | a # as \<Rightarrow> (a, s\<lparr>pk_send_answers := as\<rparr>)) of
        (Inr n, s1) \<Rightarrow> (let p = take n data in (int (length p), s1\<lparr>pk_output := pk_output s1 @ p\<rparr>))
      | (Inl e, s1) \<Rightarrow>
          if e = wsaewouldblock then (0, s1)
          else if e = 10054 then (-1, s1\<lparr>pk_closed := True\<rparr>)
          else (-1, s1))"

section \<open>The stream\<close>

text \<open>Everything the peer has sent and will send that nobody has read yet.\<close>

fun delivered :: "net_event \<Rightarrow> string" where
  "delivered (Arrives p) = p"
| "delivered e = []"

fun arrivals :: "(nat \<times> net_event) list \<Rightarrow> string" where
  "arrivals [] = []"
| "arrivals ((d, e) # es) = delivered e @ arrivals es"

definition inbound :: "peer_socket \<Rightarrow> string" where
  "inbound s = pk_input s @ arrivals (pk_events s)"

text \<open>What waiting leaves as it is.\<close>

definition same_socket :: "peer_socket \<Rightarrow> peer_socket \<Rightarrow> bool" where
  "same_socket s t \<longleftrightarrow> pk_handle s = pk_handle t \<and> pk_blocking s = pk_blocking t \<and> pk_grain s = pk_grain t
     \<and> pk_closed s = pk_closed t \<and> pk_output s = pk_output t"

lemma same_socket_refl [simp]: "same_socket s s"
  by (simp add: same_socket_def)

lemma same_socket_trans: "same_socket s t \<Longrightarrow> same_socket t u \<Longrightarrow> same_socket s u"
  by (simp add: same_socket_def)

lemma happen_frame [simp]:
  "pk_now (happen e s) = pk_now s" "pk_events (happen e s) = pk_events s" "same_socket (happen e s) s"
  "pk_input (happen e s) = pk_input s @ delivered e"
  by (cases e; simp add: same_socket_def)+

lemma elapse_frame:
  "pk_now (elapse es t s) = pk_now s + t \<and> same_socket (elapse es t s) s
    \<and> inbound (elapse es t s) = pk_input s @ arrivals es"
proof (induction es t s rule: elapse.induct)
  case (1 t s)
  then show ?case by (simp add: inbound_def same_socket_def)
next
  case (2 d e es t s)
  show ?case
  proof (cases "d \<le> t")
    case True
    have "same_socket (happen e (s\<lparr>pk_now := pk_now s + d\<rparr>)) s"
      using happen_frame(3) [of e "s\<lparr>pk_now := pk_now s + d\<rparr>"] by (simp add: same_socket_def)
    then show ?thesis using 2 True by (auto intro: same_socket_trans)
  next
    case False
    then show ?thesis by (simp add: inbound_def same_socket_def)
  qed
qed

lemma wait_for_frame:
  "wait_for es b s = Some (r, s') \<Longrightarrow> same_socket s' s \<and> inbound s' = pk_input s @ arrivals es
    \<and> pk_now s \<le> pk_now s' \<and> length (pk_events s') \<le> length es
    \<and> (b = Some n \<longrightarrow> pk_now s' \<le> pk_now s + n)
    \<and> (b \<noteq> Some 0 \<longrightarrow> readable s \<or> pk_now s < pk_now s' \<or> length (pk_events s') < length es)"
proof (induction es b s arbitrary: n rule: wait_for.induct)
  case (1 b s)
  then show ?case by (auto simp: inbound_def same_socket_def split: if_splits option.splits)
next
  case (2 d e es b s)
  let ?s = "happen e (s\<lparr>pk_now := pk_now s + d\<rparr>)"
  consider "b = Some 0 \<or> readable s" | m where "b \<noteq> Some 0" "\<not> readable s" "b = Some m" "m \<le> d"
    | "b \<noteq> Some 0" "\<not> readable s" "\<not> (case b of None \<Rightarrow> False | Some m \<Rightarrow> m \<le> d)" "e = Poll_Fails"
    | (on) "b \<noteq> Some 0" "\<not> readable s" "\<not> (case b of None \<Rightarrow> False | Some m \<Rightarrow> m \<le> d)" "e \<noteq> Poll_Fails"
    by (cases b) auto
  then show ?case
  proof cases
    case 1
    then show ?thesis using 2(2) by (auto simp: inbound_def same_socket_def split: if_splits)
  next
    case (2 m)
    then show ?thesis using \<open>wait_for ((d, e) # es) b s = Some (r, s')\<close>
      by (auto simp: inbound_def same_socket_def)
  next
    case 3
    then show ?thesis using 2(2) by (cases b) (auto simp: inbound_def same_socket_def)
  next
    case on
    then have w: "wait_for es (map_option (\<lambda>m. m - d) b) ?s = Some (r, s')" using 2(2) by simp
    have "same_socket ?s s"
      using happen_frame(3) [of e "s\<lparr>pk_now := pk_now s + d\<rparr>"] by (simp add: same_socket_def)
    then have same: "same_socket t ?s \<Longrightarrow> same_socket t s" for t by (rule same_socket_trans [rotated])
    have "b = Some n \<Longrightarrow> d < n" using on(3) by simp
    with 2(1) [OF on(1-3) _ w, of "n - d"] on same show ?thesis
      by (cases b) auto
  qed
qed

lemma wait_for_limited: "\<exists>r s'. wait_for es (Some b) s = Some (r, s')"
proof (induction es arbitrary: b s)
  case Nil
  then show ?case by (cases "b = 0"; cases "readable s") auto
next
  case (Cons x es)
  then show ?case by (cases x) auto
qed

text \<open>A turn of a socket that does not block: what \<open>await_bytes\<close> does with nothing buffered.\<close>

definition receive_measure :: "nat \<Rightarrow> (peer_socket \<times> peer_socket) set" where
  "receive_measure deadline = measures [\<lambda>s. deadline - pk_now s, \<lambda>s. length (pk_events s)]"

lemma receive_measure_wf: "wf (receive_measure deadline)"
  by (simp add: receive_measure_def)

lemma wait_readable_progress:
  assumes "\<not> pk_closed s" and "pk_handle s" and "\<not> readable s" and "pk_now s < deadline"
  shows "\<exists>r s'. wait_readable (int (min (deadline - pk_now s) 2147483647)) s = Some (r, s') \<and> same_socket s' s
    \<and> inbound s' = inbound s \<and> pk_now s' \<le> deadline \<and> (s', s) \<in> receive_measure deadline"
proof -
  let ?b = "min (deadline - pk_now s) 2147483647"
  obtain r s' where w: "wait_for (pk_events s) (Some ?b) s = Some (r, s')" using wait_for_limited by blast
  have f: "same_socket s' s" "inbound s' = inbound s" "pk_now s \<le> pk_now s'" "pk_now s' \<le> pk_now s + ?b"
      "length (pk_events s') \<le> length (pk_events s)" "pk_now s < pk_now s' \<or> length (pk_events s') < length (pk_events s)"
    using wait_for_frame [OF w, of ?b] assms(3,4) by (simp_all add: inbound_def)
  have "wait_readable (int ?b) s = Some (r, s')"
    using w assms(1,2) by (simp add: wait_readable_def)
  moreover have "(s', s) \<in> receive_measure deadline" "pk_now s' \<le> deadline"
    using f(3,4,6) assms(4) by (auto simp: receive_measure_def in_measures)
  ultimately show ?thesis using f by blast
qed

lemma sleep_frame:
  "pk_now (sleep_for t s) = pk_now s + t" "same_socket (sleep_for t s) s" "inbound (sleep_for t s) = inbound s"
  using elapse_frame [of "pk_events s" t s] by (simp_all add: sleep_for_def inbound_def)

lemma await_bytes_ends:
  assumes "timeout_ms \<noteq> 0"
  shows "\<not> pk_closed s \<Longrightarrow> \<not> pk_blocking s \<Longrightarrow> pk_now s \<le> deadline \<Longrightarrow>
    \<exists>r s'. await_bytes max_recv timeout_ms deadline s = Some (r, s') \<and> inbound s' = inbound s \<and> pk_now s' \<le> deadline
      \<and> pk_grain s' = pk_grain s
      \<and> (case r of None \<Rightarrow> True | Some n \<Rightarrow> n = length (pk_input s') \<and> 0 < n \<and> max_recv \<le> n)"
proof (induction s rule: wf_induct_rule [OF receive_measure_wf [of deadline], case_names less])
  case (less s)
  note 2 = less
  have again: ?case if "await_bytes max_recv timeout_ms deadline s = await_bytes max_recv timeout_ms deadline t"
    and "(t, s) \<in> receive_measure deadline" and "same_socket t s" and "inbound t = inbound s" and "pk_now t \<le> deadline" for t
    using 2(1) [OF that(2)] 2(2,3) that unfolding same_socket_def by metis
  consider "\<not> pk_handle s \<or> pk_reset s"
    | (buffered) "pk_handle s" "\<not> pk_reset s" "pk_input s \<noteq> []"
    | (eof) "pk_handle s" "\<not> pk_reset s" "pk_input s = []" "pk_eof s"
    | (silent) "pk_handle s" "\<not> readable s" "pk_input s = []"
    by (auto simp: readable_def)
  then show ?case
  proof cases
    case 1
    then show ?thesis using 2(4) by (subst await_bytes.simps) auto
  next
    case buffered
    show ?thesis
    proof (cases "max_recv \<le> length (pk_input s) \<or> deadline \<le> pk_now s")
      case True
      then show ?thesis using buffered assms 2(4) by (subst await_bytes.simps) (auto simp: Let_def)
    next
      case False
      then have "await_bytes max_recv timeout_ms deadline s = await_bytes max_recv timeout_ms deadline (sleep_for 1 s)"
        using buffered by (subst await_bytes.simps) (simp add: Let_def)
      moreover have "(sleep_for 1 s, s) \<in> receive_measure deadline"
        using False by (auto simp: receive_measure_def in_measures sleep_frame)
      ultimately show ?thesis using again False sleep_frame [of 1 s] by simp
    qed
  next
    case eof
    then show ?thesis using 2(3,4)
      by (subst await_bytes.simps) (auto simp: Let_def peek_probe_def inbound_def)
  next
    case silent
    then have quiet: "\<not> pk_reset s" "\<not> pk_eof s" by (simp_all add: readable_def)
    have probe: "peek_probe s = Some s" using 2(3) by (simp add: peek_probe_def)
    show ?thesis
    proof (cases "deadline \<le> pk_now s")
      case True
      then show ?thesis using silent quiet probe assms 2(4) by (subst await_bytes.simps) (simp add: Let_def)
    next
      case False
      then obtain r t where t: "wait_readable (int (min (deadline - pk_now s) 2147483647)) s = Some (r, t)"
          "same_socket t s" "inbound t = inbound s" "pk_now t \<le> deadline" "(t, s) \<in> receive_measure deadline"
        using wait_readable_progress [OF 2(2) silent(1,2), of deadline] by auto
      have "await_bytes max_recv timeout_ms deadline s = await_bytes max_recv timeout_ms deadline t"
        using t(1) silent quiet probe False assms by (subst await_bytes.simps) (simp add: Let_def)
      then show ?thesis using again t(2-5) by blast
    qed
  qed
qed

lemma drain_all:
  assumes "max_recv \<le> length (pk_input s)" and "max_recv \<le> pk_grain s"
  shows "drain max_recv ret s = (ret @ take max_recv (pk_input s), s\<lparr>pk_input := drop max_recv (pk_input s)\<rparr>)"
proof (cases "max_recv = 0")
  case True
  then show ?thesis by (subst drain.simps) simp
next
  case False
  let ?d = "take max_recv (pk_input s)"
  have "length ?d = max_recv" "?d \<noteq> []" "min max_recv (pk_grain s) = max_recv" using assms False by auto
  moreover have "drain 0 r t = (r, t)" for r t by (subst drain.simps) simp
  ultimately show ?thesis using False by (subst drain.simps) (simp add: Let_def)
qed

text \<open>However the reads are cut, they take a first part of what is buffered and no time.\<close>

lemma drain_frame:
  "drain n ret s = (out, s') \<Longrightarrow> pk_now s' = pk_now s \<and> (\<exists>taken. inbound s = taken @ inbound s')"
proof (induction n ret s rule: drain.induct)
  case (1 n ret s)
  define d where "d = take (min n (pk_grain s)) (pk_input s)"
  have unfolded: "drain n ret s = (if n = 0 then (ret, s)
      else if d = [] then (if pk_eof s then ret @ replicate n (CHR 0x00) else [], s)
      else drain (n - length d) (ret @ d @ replicate (n - length d) (CHR 0x00)) (s\<lparr>pk_input := drop (length d) (pk_input s)\<rparr>))"
    unfolding d_def by (subst drain.simps) (simp only: Let_def)
  show ?case
  proof (cases "n = 0 \<or> d = []")
    case True
    then have "s' = s" using "1.prems" unfolding unfolded by (auto split: if_splits)
    then show ?thesis by simp
  next
    case False
    let ?s = "s\<lparr>pk_input := drop (length d) (pk_input s)\<rparr>"
    have "drain (n - length d) (ret @ d @ replicate (n - length d) (CHR 0x00)) ?s = (out, s')"
      using "1.prems" False unfolding unfolded by simp
    note ih = "1.IH" [OF _ d_def _ this]
    have "n \<noteq> 0" "d \<noteq> []" using False by simp_all
    from ih [OF this] obtain taken where t: "pk_now s' = pk_now ?s" "inbound ?s = taken @ inbound s'" by blast
    have "pk_input s = d @ drop (length d) (pk_input s)" unfolding d_def by (metis append_eq_conv_conj append_take_drop_id)
    then have "inbound s = d @ inbound ?s" by (simp add: inbound_def)
    with t have "inbound s = (d @ taken) @ inbound s'" by simp
    moreover have "pk_now s' = pk_now s" using t(1) by simp
    ultimately show ?thesis by blast
  qed
qed

text \<open>
  C10. A receive with a timeout on an open socket that does not block returns, and no later than the
  timeout allows, whatever the network does; what it took from the stream is gone from its front and
  nothing else is. When one \<open>recv\<close> call can hand over what is read, that is the count that was asked for,
  or everything the peer sends when none was, the result is that part of the stream: when a count was
  asked for, nothing or exactly that many bytes.
\<close>

theorem receive_within_deadline:
  assumes "\<not> pk_closed s" and "\<not> pk_blocking s" and "0 < timeout_ms"
  shows "\<exists>ret s'. socket_receive_bytes max_recv timeout_ms s = Some (ret, s') \<and> pk_now s' \<le> pk_now s + timeout_ms
    \<and> (\<exists>taken. inbound s = taken @ inbound s')
    \<and> ((if max_recv = 0 then length (inbound s) else max_recv) \<le> pk_grain s \<longrightarrow>
         inbound s = ret @ inbound s' \<and> (ret = [] \<or> max_recv = 0 \<or> length ret = max_recv))"
proof -
  obtain r t where t: "await_bytes max_recv timeout_ms (pk_now s + timeout_ms) s = Some (r, t)" "inbound t = inbound s"
      "pk_now t \<le> pk_now s + timeout_ms" "pk_grain t = pk_grain s"
      "case r of None \<Rightarrow> True | Some n \<Rightarrow> n = length (pk_input t) \<and> 0 < n \<and> max_recv \<le> n"
    using await_bytes_ends [of timeout_ms s "pk_now s + timeout_ms" max_recv] assms by auto
  show ?thesis
  proof (cases r)
    case None
    then show ?thesis using t(1-3) by (simp add: socket_receive_bytes_def)
  next
    case (Some n)
    let ?n = "if max_recv = 0 then n else max_recv"
    have n: "n = length (pk_input t)" "max_recv \<le> n" using t(5) Some by simp_all
    obtain ret s' where d: "drain ?n [] t = (ret, s')" by force
    then have res: "socket_receive_bytes max_recv timeout_ms s = Some (ret, s')"
      using t(1) Some by (simp add: socket_receive_bytes_def)
    have "inbound s = ret @ inbound s' \<and> (ret = [] \<or> max_recv = 0 \<or> length ret = max_recv)"
      if fits: "(if max_recv = 0 then length (inbound s) else max_recv) \<le> pk_grain s"
    proof -
      have "length (pk_input t) \<le> length (inbound s)" unfolding t(2) [symmetric] by (simp add: inbound_def)
      then have "?n \<le> pk_grain t" using fits n(1) t(4) by (auto split: if_splits)
      then have "drain ?n [] t = (take ?n (pk_input t), t\<lparr>pk_input := drop ?n (pk_input t)\<rparr>)"
        using n by (subst drain_all) auto
      then have "ret = take ?n (pk_input t)" "s' = t\<lparr>pk_input := drop ?n (pk_input t)\<rparr>" using d by simp_all
      moreover have "inbound t = take ?n (pk_input t) @ inbound (t\<lparr>pk_input := drop ?n (pk_input t)\<rparr>)"
        by (simp add: inbound_def)
      ultimately show ?thesis using t(2) n by auto
    qed
    with res drain_frame [OF d] t(2,3) show ?thesis by metis
  qed
qed

text \<open>
  A peer sends in pieces more than a \<open>recv\<close> hands over; three bytes are asked for and come in time, and
  one byte stays in the stream.
\<close>

theorem receive_within_deadline_witness:
  "\<exists>ret s'. socket_receive_bytes 3 1000 (accepted_socket False [(10, Arrives ''ab''), (5, Interrupted), (20, Arrives ''cd'')] 7 3)
      = Some (ret, s') \<and> pk_now s' \<le> 7 + 1000 \<and> ''abcd'' = ret @ inbound s' \<and> (ret = [] \<or> length ret = 3)"
  using receive_within_deadline [of "accepted_socket False [(10, Arrives ''ab''), (5, Interrupted), (20, Arrives ''cd'')] 7 3" 1000 3]
  by (auto simp: accepted_socket_def inbound_def)

text \<open>
  On a socket that blocks, as those of a blocking listener do, the timeout has no effect: the probe
  waits for the peer, so against a peer that sends nothing and stays connected the receive never returns,
  whatever the timeout.
\<close>

theorem blocking_receive_ignores_timeout:
  assumes "pk_blocking s" and "pk_handle s" and "\<not> readable s" and "pk_events s = []"
  shows "socket_receive_bytes max_recv timeout_ms s = None"
  using assms
  by (simp add: socket_receive_bytes_def await_bytes.simps [of _ _ _ s] peek_probe_def readable_def)

theorem blocking_receive_ignores_timeout_witness:
  "socket_receive_bytes 0 1000 (accepted_socket True [] 0 4096) = None"
  by (rule blocking_receive_ignores_timeout) (simp_all add: accepted_socket_def readable_def)

text \<open>
  \<open>WaitReadable\<close> with the timeout 0 never polls: it answers no although there are bytes to read. And a
  socket whose peer closed is marked closed by the receive, so \<open>Close\<close> no longer closes its handle.
\<close>

lemma zero_wait_polls_nothing: "\<exists>s'. wait_readable 0 s = Some (False, s')"
  by (cases "pk_events s") (auto simp: wait_readable_def)

lemma end_of_stream_keeps_handle:
  assumes "pk_handle s" and "\<not> pk_reset s" and "pk_eof s" and "pk_input s = []"
  shows "\<exists>s'. socket_receive_bytes max_recv timeout_ms s = Some ([], s') \<and> pk_handle (socket_close s')"
  using assms
  by (intro exI [of _ "s\<lparr>pk_closed := True\<rparr>"])
    (simp add: socket_receive_bytes_def await_bytes.simps [of _ _ _ s] peek_probe_def readable_def socket_close_def)

end
