(* ===== verification/Listener.thy ===== *)
theory Listener imports PeerSocket HttpMessage begin

text \<open>
  \<open>ListenerContext\<close> of \<open>main.cpp\<close>: the connection a server's handler works on, and above all
  \<open>lua_Request\<close>, which reads an HTTP request from it. \<open>None\<close> is a read that never returns. The lemmas
  show that a request is read back whatever pieces it arrives in, and what goes wrong with requests
  that have no header or are not the first on their connection.
\<close>

section \<open>The context\<close>

record listener_context =
  ctx_sock :: peer_socket
  ctx_buffer :: string
  ctx_on_error :: "lua_value option"

definition new_listener_context :: "peer_socket \<Rightarrow> listener_context" where
  "new_listener_context s = \<lparr>ctx_sock = s, ctx_buffer = [], ctx_on_error = None\<rparr>"

text \<open>\<open>lua_Error\<close> keeps the function for errors, the last of its arguments, or forgets it.\<close>

definition listener_error :: "lua_value list \<Rightarrow> listener_context \<Rightarrow> listener_context" where
  "listener_error args ctx =
     ctx\<lparr>ctx_on_error := (if args = [] \<or> hd args = Lua_Nil \<or> last args = Lua_Nil then None else Some (last args))\<rparr>"

definition listener_closed :: "listener_context \<Rightarrow> bool" where
  "listener_closed ctx = socket_closed (ctx_sock ctx)"

definition listener_close :: "listener_context \<Rightarrow> listener_context" where
  "listener_close ctx = ctx\<lparr>ctx_sock := socket_close (ctx_sock ctx)\<rparr>"

text \<open>\<open>receive\<close>: the count is narrowed to \<open>unsigned long\<close>; no number means whatever has arrived.\<close>

definition listener_receive :: "lua_api \<Rightarrow> lua_value \<Rightarrow> listener_context \<Rightarrow> (string \<times> listener_context) option" where
  "listener_receive api v ctx =
     map_option (\<lambda>(d, s). (d, ctx\<lparr>ctx_sock := s\<rparr>))
       (socket_receive_bytes (if is_number api v then nat (to_integer api v mod 2 ^ 32) else 0) 0 (ctx_sock ctx))"

definition listener_send_bytes :: "string \<Rightarrow> listener_context \<Rightarrow> int \<times> listener_context" where
  "listener_send_bytes data ctx =
     (case socket_send_bytes data (ctx_sock ctx) of (n, s) \<Rightarrow> (n, ctx\<lparr>ctx_sock := s\<rparr>))"

definition listener_send :: "lua_api \<Rightarrow> lua_value \<Rightarrow> listener_context \<Rightarrow> (int \<times> listener_context) result" where
  "listener_send api v ctx =
     (case to_lstring api v of
        Some d \<Rightarrow> Inr (listener_send_bytes d ctx)
      | None \<Rightarrow>
          (case v of
             Lua_Table t \<Rightarrow> bind_result (response_builder api t) (\<lambda>d. Inr (listener_send_bytes d ctx))
           | _ \<Rightarrow> Inl (Lua_Error ''Invalid argument'')))"

section \<open>Reading a request\<close>

definition max_header_bytes :: nat where "max_header_bytes = 1024 * 1024"
definition max_body_bytes :: nat where "max_body_bytes = 64 * 1024 * 1024"

text \<open>Bytes are added until the blank line is there, the limit is reached or nothing comes.\<close>

function read_header :: "string \<Rightarrow> peer_socket \<Rightarrow> (string \<times> nat option \<times> peer_socket) option" where
  "read_header buf s =
     (case find_str crlf2 buf of
        Some i \<Rightarrow> Some (buf, Some i, s)
      | None \<Rightarrow>
          if length buf < max_header_bytes
          then case socket_receive_bytes 0 1000 s of
              None \<Rightarrow> None
            | Some (chunk, s1) \<Rightarrow> if chunk = [] then Some (buf, None, s1) else read_header (buf @ chunk) s1
          else Some (buf, None, s))"
  by pat_completeness auto
termination
  by (relation "measure (\<lambda>(buf, s). max_header_bytes - length buf)") (auto simp: Suc_le_eq diff_less_mono2)

declare read_header.simps [simp del]

text \<open>The body; the flag tells whether all of it came.\<close>

function read_body :: "nat \<Rightarrow> string \<Rightarrow> peer_socket \<Rightarrow> (bool \<times> string \<times> peer_socket) option" where
  "read_body needed buf s =
     (if length buf < needed
      then case socket_receive_bytes 0 1000 s of
          None \<Rightarrow> None
        | Some (chunk, s1) \<Rightarrow>
            if chunk = [] then Some (False, buf, s1) else read_body needed (buf @ chunk) s1
      else Some (True, buf, s))"
  by pat_completeness auto
termination
  by (relation "measure (\<lambda>(needed, buf, s). needed - length buf)") (auto simp: Suc_le_eq diff_less_mono2)

declare read_body.simps [simp del]

text \<open>The request line: the method, the target, the version and where the line ends.\<close>

definition request_line :: "string \<Rightarrow> (string \<times> string \<times> string \<times> nat) result" where
  "request_line buf =
     (case (find_str crlf buf, find_char (CHR '' '') buf) of
        (Some line_end, Some sp1) \<Rightarrow>
          (case find_from '' '' buf (sp1 + 1) of
             Some sp2 \<Rightarrow>
               if line_end < sp2 then Inl (Lua_Error ''Malformed HTTP request line'')
               else Inr (take sp1 buf, take (sp2 - sp1 - 1) (drop (sp1 + 1) buf),
                         take (line_end - sp2 - 1) (drop (sp2 + 1) buf), line_end)
           | None \<Rightarrow> Inl (Lua_Error ''Malformed HTTP request line''))
      | _ \<Rightarrow> Inl (Lua_Error ''Malformed HTTP request line''))"

text \<open>
  The header block between the two ends. Its length is computed in \<open>size_t\<close>, so for a request without
  headers, whose two ends are the same, it wraps around and the block reaches to the end of the buffer.
\<close>

definition header_block :: "string \<Rightarrow> nat \<Rightarrow> nat \<Rightarrow> string" where
  "header_block buf line_end header_end =
     (let len = header_end + 2 ^ 64 - line_end - 2 in
      take (if 2 ^ 64 \<le> len then len - 2 ^ 64 else len) (drop (line_end + 2) buf))"

definition header_length :: "string \<Rightarrow> nat \<Rightarrow> nat result" where
  "header_length line len =
     (case find_char (CHR '':'') line of
        None \<Rightarrow> Inr len
      | Some colon \<Rightarrow>
          if lower_ascii (take colon line) = ''content-length''
          then (let v = dropWhile (\<lambda>c. c = CHR '' '' \<or> c = CHR 0x09) (c_str (drop (colon + 1) line));
                    (parsed, used, overflow) = strtoull 10 v
                in if used = 0 \<or> max_body_bytes < parsed
                   then Inl (Lua_Error ''Invalid or oversized HTTP Content-Length'') else Inr parsed)
          else Inr len)"

text \<open>The last Content-Length counts.\<close>

fun headers_length :: "string list \<Rightarrow> nat \<Rightarrow> nat result" where
  "headers_length [] len = Inr len"
| "headers_length (l # ls) len = bind_result (header_length l len) (headers_length ls)"

record request_table =
  rt_data :: string
  rt_method :: string
  rt_query :: "string option"
  rt_path :: string
  rt_version :: string
  rt_headers :: "string list"
  rt_body :: string

definition split_target :: "string \<Rightarrow> string option \<times> string" where
  "split_target target =
     (case find_char (CHR ''?'') target of
        None \<Rightarrow> (None, target)
      | Some i \<Rightarrow> (Some (drop (i + 1) target), take i target))"

definition make_request_table :: "string \<Rightarrow> string \<Rightarrow> string \<Rightarrow> string \<Rightarrow> string list \<Rightarrow> nat \<Rightarrow> nat \<Rightarrow> request_table" where
  "make_request_table buf req_method target version hs body_start len =
     (case split_target target of (query, path) \<Rightarrow>
        \<lparr>rt_data = buf, rt_method = req_method, rt_query = query, rt_path = path, rt_version = version,
         rt_headers = hs, rt_body = take len (drop body_start buf)\<rparr>)"

text \<open>
  The request behind a header that is complete. The buffer stays in the context, whatever the outcome.
\<close>

definition read_request :: "nat \<Rightarrow> listener_context \<Rightarrow> (request_table result \<times> listener_context) option" where
  "read_request header_end ctx =
     (let buf = ctx_buffer ctx in
      case bind_result (request_line buf) (\<lambda>(m, target, version, line_end).
             (let hs = split_lines (header_block buf line_end header_end) in
              bind_result (headers_length hs 0) (\<lambda>len. Inr (m, target, version, hs, len)))) of
        Inl e \<Rightarrow> Some (Inl e, ctx)
      | Inr (m, target, version, hs, len) \<Rightarrow>
          (case read_body (header_end + 4 + len) buf (ctx_sock ctx) of
             None \<Rightarrow> None
           | Some (arrived, buf1, s1) \<Rightarrow>
               Some (if arrived then Inr (make_request_table buf1 m target version hs (header_end + 4) len)
                     else Inl (Lua_Error ''HTTP request body ended before Content-Length''),
                     ctx\<lparr>ctx_buffer := buf1, ctx_sock := s1\<rparr>)))"

definition lua_request :: "listener_context \<Rightarrow> (request_table option result \<times> listener_context) option" where
  "lua_request ctx =
     (case (if ctx_buffer ctx = [] then socket_receive_bytes 0 1000 (ctx_sock ctx)
            else Some (ctx_buffer ctx, ctx_sock ctx)) of
        None \<Rightarrow> None
      | Some (buf, s) \<Rightarrow>
          (let ctx1 = ctx\<lparr>ctx_buffer := buf, ctx_sock := s\<rparr> in
           if buf = [] then Some (Inr None, ctx1)
           else case read_header buf s of
               None \<Rightarrow> None
             | Some (buf1, header_end, s1) \<Rightarrow>
                 (let ctx2 = ctx1\<lparr>ctx_buffer := buf1, ctx_sock := s1\<rparr> in
                  case header_end of
                    None \<Rightarrow> Some (Inl (Lua_Error ''Incomplete or oversized HTTP request header''), ctx2)
                  | Some h \<Rightarrow> map_option (\<lambda>(r, c). (map_sum id Some r, c)) (read_request h ctx2))))"

section \<open>A request that arrives in pieces\<close>

text \<open>The peer sends the pieces, each less than the timeout of a receive after the one before.\<close>

definition supplied :: "string list \<Rightarrow> peer_socket \<Rightarrow> bool" where
  "supplied ps s \<longleftrightarrow> pk_handle s \<and> \<not> pk_closed s \<and> \<not> pk_eof s \<and> \<not> pk_reset s \<and> pk_input s = []
     \<and> (\<forall>p \<in> set ps. p \<noteq> [] \<and> length p \<le> pk_grain s)
     \<and> (\<exists>ds es. length ds = length ps \<and> (\<forall>d \<in> set ds. d < 1000) \<and> pk_events s = zip ds (map Arrives ps) @ es)"

text \<open>What reading leaves as it is: the side of the socket that sends.\<close>

definition sending :: "peer_socket \<Rightarrow> string \<times> (nat + nat) list" where
  "sending s = (pk_output s, pk_send_answers s)"

lemma wait_for_readable: "readable s \<Longrightarrow> b \<noteq> Some 0 \<Longrightarrow> wait_for es b s = Some (True, s\<lparr>pk_events := es\<rparr>)"
  by (cases es) auto

lemma block_for_readable: "readable s \<Longrightarrow> block_for es s = Some (s\<lparr>pk_events := es\<rparr>)"
  by (cases es) auto

lemma wait_readable_now:
  "\<not> pk_closed s \<Longrightarrow> pk_handle s \<Longrightarrow> readable s \<Longrightarrow> 0 < t \<Longrightarrow> wait_readable (int t) s = Some (True, s)"
  by (simp add: wait_readable_def wait_for_readable)

lemma receive_arrival:
  assumes "supplied (p # ps) s"
  shows "\<exists>s'. socket_receive_bytes 0 1000 s = Some (p, s') \<and> supplied ps s' \<and> sending s' = sending s"
proof -
  from assms obtain d ds es where e: "pk_events s = (d, Arrives p) # zip ds (map Arrives ps) @ es" "d < 1000"
      "length ds = length ps" "\<forall>d \<in> set ds. d < 1000"
    by (auto simp: supplied_def length_Suc_conv)
  have s: "pk_handle s" "\<not> pk_closed s" "\<not> pk_eof s" "\<not> pk_reset s" "pk_input s = []" "p \<noteq> []" "length p \<le> pk_grain s"
      "\<forall>p \<in> set ps. p \<noteq> [] \<and> length p \<le> pk_grain s"
    using assms by (simp_all add: supplied_def)
  define t where "t = s\<lparr>pk_now := pk_now s + d, pk_input := p, pk_events := zip ds (map Arrives ps) @ es\<rparr>"
  have r: "readable (s\<lparr>pk_now := pk_now s + d, pk_input := p\<rparr>)" "\<not> readable s" "readable t"
    using s by (simp_all add: readable_def t_def)
  have w: "wait_for (pk_events s) (Some 1000) s = Some (True, t)"
    using e(1,2) s(5) r(1,2) wait_for_readable [OF r(1), of "Some (1000 - d)"] by (auto simp: t_def)
  have blocked: "block_for (pk_events s) s = Some t"
    using e(1) s(5) r(1,2) block_for_readable [OF r(1)] by (simp add: t_def)
  have len: "0 < length (pk_input t)" using s(6) by (simp add: t_def)
  have got: "await_bytes 0 1000 (pk_now s + 1000) t = Some (Some (length p), t)"
    using s len by (subst await_bytes.simps) (simp add: t_def)
  have "await_bytes 0 1000 (pk_now s + 1000) s = Some (Some (length p), t)"
  proof (cases "pk_blocking s")
    case False
    then have "peek_probe s = Some s" by (simp add: peek_probe_def)
    with s w got show ?thesis by (subst await_bytes.simps) (simp add: wait_readable_def)
  next
    case True
    then have "peek_probe s = Some t" using r(2) blocked by (simp add: peek_probe_def)
    moreover have "wait_readable (int (min (pk_now s + 1000 - pk_now t) 2147483647)) t = Some (True, t)"
      using e(2) s(1,2) r(3) by (intro wait_readable_now) (simp_all add: t_def)
    moreover have "\<not> pk_reset t" "\<not> (pk_eof t \<and> pk_input t = [])" "\<not> pk_now s + 1000 \<le> pk_now t"
      using s e(2) by (simp_all add: t_def)
    ultimately show ?thesis using s got by (subst await_bytes.simps) simp
  qed
  moreover have "drain (length p) [] t = (p, t\<lparr>pk_input := []\<rparr>)"
    using drain_all [of "length p" t "[]"] s by (simp add: t_def)
  ultimately have "socket_receive_bytes 0 1000 s = Some (p, t\<lparr>pk_input := []\<rparr>)"
    by (simp add: socket_receive_bytes_def)
  moreover have "supplied ps (t\<lparr>pk_input := []\<rparr>)"
    using s e(3,4) by (auto simp: supplied_def t_def)
  moreover have "sending (t\<lparr>pk_input := []\<rparr>) = sending s" by (simp add: sending_def t_def)
  ultimately show ?thesis by blast
qed

lemma supplied_pieces: "supplied ps s \<Longrightarrow> concat ps = [] \<longleftrightarrow> ps = []"
  by (cases ps) (auto simp: supplied_def)

lemma read_header_supplied:
  "supplied ps s \<Longrightarrow> buf @ concat ps = whole \<Longrightarrow> find_str crlf2 whole = Some h \<Longrightarrow> h + 4 \<le> max_header_bytes \<Longrightarrow>
    \<exists>buf' ps' s'. read_header buf s = Some (buf', Some h, s') \<and> buf' @ concat ps' = whole \<and> supplied ps' s'
      \<and> h + 4 \<le> length buf' \<and> sending s' = sending s"
proof (induction ps arbitrary: buf s)
  case Nil
  then have "buf = whole" by simp
  moreover have "h + 4 \<le> length whole" using find_str_Some_le [OF Nil.prems(3)] by simp
  ultimately show ?case using Nil.prems by (subst read_header.simps) (auto intro!: exI [of _ "[]"])
next
  case (Cons p ps)
  have buf: "buf = take (length buf) whole" using Cons.prems(2) by auto
  show ?case
  proof (cases "h + 4 \<le> length buf")
    case True
    then have "find_str crlf2 buf = Some h"
      using find_str_take [OF Cons.prems(3), of "length buf"] buf by simp
    then show ?thesis using Cons.prems True by (subst read_header.simps) (auto intro!: exI [of _ "p # ps"])
  next
    case False
    then have none: "find_str crlf2 buf = None"
      using find_str_take [OF Cons.prems(3), of "length buf"] buf by simp
    obtain s' where s': "socket_receive_bytes 0 1000 s = Some (p, s')" "supplied ps s'" "sending s' = sending s"
      using receive_arrival [OF Cons.prems(1)] by blast
    have "p \<noteq> []" using Cons.prems(1) by (simp add: supplied_def)
    moreover have "length buf < max_header_bytes" using False Cons.prems(4) by linarith
    ultimately have "read_header buf s = read_header (buf @ p) s'"
      using none s'(1) by (subst read_header.simps) simp
    then show ?thesis using Cons.IH [OF s'(2), of "buf @ p"] Cons.prems s'(3) by simp
  qed
qed

lemma read_body_supplied:
  "supplied ps s \<Longrightarrow> buf @ concat ps = whole \<Longrightarrow> \<exists>s'. read_body (length whole) buf s = Some (True, whole, s') \<and> sending s' = sending s"
proof (induction ps arbitrary: buf s)
  case Nil
  then show ?case by (subst read_body.simps) simp
next
  case (Cons p ps)
  obtain t where t: "socket_receive_bytes 0 1000 s = Some (p, t)" "supplied ps t" "sending t = sending s"
    using receive_arrival [OF Cons.prems(1)] by blast
  have "p \<noteq> []" using Cons.prems(1) by (simp add: supplied_def)
  moreover from this have "length buf < length whole" using Cons.prems(2) by auto
  ultimately have "read_body (length whole) buf s = read_body (length whole) (buf @ p) t"
    using t(1) by (subst read_body.simps) simp
  then show ?case using Cons.IH [OF t(2), of "buf @ p"] Cons.prems(2) t(3) by simp
qed

text \<open>What the header block of a request says, whatever follows it.\<close>

definition request_head ::
    "string \<Rightarrow> string \<Rightarrow> string \<Rightarrow> string \<Rightarrow> string list \<Rightarrow> nat \<Rightarrow> bool" where
  "request_head block m target version hs len \<longleftrightarrow> find_str crlf2 (block @ crlf2) = Some (length block)
     \<and> length block + 4 \<le> max_header_bytes \<and> headers_length hs 0 = Inr len
     \<and> (\<forall>rest. \<exists>line_end. request_line (block @ crlf2 @ rest) = Inr (m, target, version, line_end)
          \<and> split_lines (header_block (block @ crlf2 @ rest) line_end (length block)) = hs)"

lemma lua_request_arrives:
  assumes "request_head block m target version hs (length body)" and "supplied ps (ctx_sock ctx)"
    and "concat ps = block @ crlf2 @ body" and "ctx_buffer ctx = []"
  shows "\<exists>ctx'. lua_request ctx = Some (Inr (Some (make_request_table (block @ crlf2 @ body) m target version hs
      (length block + 4) (length body))), ctx') \<and> ctx_buffer ctx' = block @ crlf2 @ body
    \<and> sending (ctx_sock ctx') = sending (ctx_sock ctx) \<and> ctx_on_error ctx' = ctx_on_error ctx"
proof -
  define T where "T = block @ crlf2 @ body"
  have T: "find_str crlf2 T = Some (length block)" "length block + 4 \<le> max_header_bytes" "length T = length block + 4 + length body"
    using assms(1) find_str_append [of crlf2 "block @ crlf2" "length block" body]
    by (simp_all add: request_head_def T_def)
  have "concat ps \<noteq> []" using assms(3) by (simp add: crlf2_def)
  then obtain p qs where ps: "ps = p # qs" by (cases ps) auto
  obtain s1 where s1: "socket_receive_bytes 0 1000 (ctx_sock ctx) = Some (p, s1)" "supplied qs s1"
      "sending s1 = sending (ctx_sock ctx)"
    using receive_arrival assms(2) unfolding ps by blast
  have p: "p \<noteq> []" "p @ concat qs = T" using assms(2,3) by (simp_all add: ps supplied_def T_def)
  obtain buf rs s2 where h: "read_header p s1 = Some (buf, Some (length block), s2)" "buf @ concat rs = T"
      "supplied rs s2" "length block + 4 \<le> length buf" "sending s2 = sending s1"
    using read_header_supplied [OF s1(2) p(2) T(1,2)] by blast
  obtain s3 where b: "read_body (length T) buf s2 = Some (True, T, s3)" "sending s3 = sending s2"
    using read_body_supplied [OF h(3,2)] by blast
  have "buf = take (length buf) T" using h(2) by auto
  also have "\<dots> = block @ crlf2 @ take (length buf - (length block + 4)) body"
    using h(4) by (simp add: T_def)
  finally obtain rest where "buf = block @ crlf2 @ rest" by blast
  then obtain line_end where "request_line buf = Inr (m, target, version, line_end)"
      "split_lines (header_block buf line_end (length block)) = hs" "headers_length hs 0 = Inr (length body)"
    using assms(1) unfolding request_head_def by metis
  then have r: "read_request (length block) (ctx\<lparr>ctx_buffer := buf, ctx_sock := s2\<rparr>) =
      Some (Inr (make_request_table T m target version hs (length block + 4) (length body)),
            ctx\<lparr>ctx_buffer := T, ctx_sock := s3\<rparr>)"
    using b T(3) by (simp add: read_request_def Let_def)
  show ?thesis
    using s1(1,3) p(1) h(1,5) r b(2) assms(4) by (simp add: lua_request_def T_def [symmetric])
qed

section \<open>A request of the library's own builder\<close>

definition request_table_of ::
    "string \<Rightarrow> string \<Rightarrow> (string \<times> string) list \<Rightarrow> string \<Rightarrow> (lua_value \<times> lua_value) list" where
  "request_table_of m target hs body =
     [(Lua_String ''method'', Lua_String m), (Lua_String ''path'', Lua_String target),
      (Lua_String ''headers'', Lua_Table (lua_headers hs)), (Lua_String ''body'', Lua_String body)]"

text \<open>A word of the request line: what no blank, CR or NUL ends early.\<close>

definition plain_word :: "string \<Rightarrow> bool" where
  "plain_word w \<longleftrightarrow> w \<noteq> [] \<and> CHR '' '' \<notin> set w \<and> CHR 0x0D \<notin> set w \<and> CHR 0x00 \<notin> set w"

lemma find_str_single: "find_str [c] s = find_char c s"
  by (induction s) auto

lemma request_text:
  assumes "plain_word m" and "plain_word target" and "\<forall>h \<in> set hs. clean_header h"
  shows "request_builder api host (Lua_Table (request_table_of m target hs body)) =
    Inr ((m @ '' '' @ target @ '' HTTP/1.1'') @ crlf
         @ concat (map (\<lambda>h. header_text h @ crlf) ((''Host'', host) # hs)) @ header_text (content_length body) @ crlf2 @ body)"
  using assms
  by (simp add: request_builder_def request_table_of_def get_field_def to_lstring_def header_lines_clean body_part_def
      header_text_def content_length_def plain_word_def)

lemma request_line_built:
  assumes "plain_word m" and "plain_word target" and "CHR 0x0D \<notin> set version"
  shows "request_line (m @ '' '' @ target @ '' '' @ version @ crlf @ rest) =
    Inr (m, target, version, length m + length target + length version + 2)"
proof -
  let ?l = "m @ '' '' @ target @ '' '' @ version"
  have cr: "CHR 0x0D \<notin> set ?l" and sp: "CHR '' '' \<notin> set m" "CHR '' '' \<notin> set target"
    using assms by (simp_all add: plain_word_def)
  have "find_str crlf (?l @ crlf @ rest) = Some (length ?l)" using cr by (rule find_str_crlf)
  then have "find_str crlf (m @ '' '' @ target @ '' '' @ version @ crlf @ rest) = Some (length m + length target + length version + 2)"
    by simp
  moreover have "find_char (CHR '' '') (m @ '' '' @ target @ '' '' @ version @ crlf @ rest) = Some (length m)"
    using find_char_append [OF sp(1)] by simp
  moreover have "find_from '' '' (m @ '' '' @ target @ '' '' @ version @ crlf @ rest) (length m + 1) = Some (length m + 1 + length target)"
    using find_char_append [OF sp(2)] by (simp add: find_from_def find_str_single)
  ultimately show ?thesis by (simp add: request_line_def)
qed

text \<open>The length the headers of a built request give.\<close>

lemma header_length_other:
  assumes "CHR '':'' \<notin> set k" and "lower_ascii k \<noteq> ''content-length''"
  shows "header_length (header_text (k, v)) len = Inr len"
  using assms find_char_append [OF assms(1), of "'' '' @ v"] by (simp add: header_length_def header_text_def)

lemma header_length_built:
  assumes "length body \<le> max_body_bytes"
  shows "header_length (header_text (content_length body)) len = Inr (length body)"
proof -
  let ?n = "nat_str (length body)"
  have nul: "CHR 0x00 \<notin> set ?n" using nat_str_digit by blast
  have "c \<noteq> CHR 0x00 \<and> c \<noteq> CHR '' '' \<and> c \<noteq> CHR 0x09" if "c \<in> set ?n" for c
    using nat_str_digit [OF that] by (auto simp: is_ows_def)
  then have c: "c_str ('' '' @ ?n) = '' '' @ ?n" "dropWhile (\<lambda>c. c = CHR '' '' \<or> c = CHR 0x09) ('' '' @ ?n) = ?n"
    using nul by (auto simp: dropWhile_eq_self_iff)
  have "stoull 10 ?n = Inr (length body, length ?n)"
    using assms stoull_digits [of 10 "length body"] by (simp add: nat_str_def max_body_bytes_def)
  then obtain overflow where "strtoull 10 ?n = (length body, length ?n, overflow)"
    by (auto simp: stoull_def split: prod.splits if_splits)
  moreover have "lower_ascii ''Content-Length'' = ''content-length''" by (simp add: lower_ascii_def) code_simp
  moreover have "find_char (CHR '':'') (''Content-Length: '' @ ?n) = Some 14"
    using find_char_append [of "CHR '':''" "''Content-Length''" "'' '' @ ?n"] by simp
  ultimately show ?thesis
    using c assms by (simp add: header_length_def header_text_def content_length_def)
qed

lemma headers_length_built:
  assumes "length body \<le> max_body_bytes"
    and "\<forall>h \<in> set hs. clean_header h \<and> lower_ascii (fst h) \<noteq> ''content-length''"
  shows "headers_length (map header_text (hs @ [content_length body])) len = Inr (length body)"
  using assms(2)
proof (induction hs arbitrary: len)
  case Nil
  then show ?case using header_length_built [OF assms(1)] by simp
next
  case (Cons h hs)
  obtain k v where h: "h = (k, v)" by force
  then show ?case using Cons header_length_other [of k v len] by (simp add: clean_header_def)
qed

definition request_header_texts :: "string \<Rightarrow> (string \<times> string) list \<Rightarrow> string \<Rightarrow> string list" where
  "request_header_texts host hs body = map header_text (((''Host'', host) # hs) @ [content_length body])"

lemma header_block_at: "header_block (l @ crlf @ r @ rest) (length l) (length (l @ crlf @ r)) = r"
proof -
  have "length (l @ crlf @ r) + 2 ^ 64 - length l - 2 = length r + 2 ^ 64" by simp
  then show ?thesis unfolding header_block_def Let_def by simp
qed

lemma built_request_head:
  assumes "plain_word m" and "plain_word target" and "clean_text host"
    and "\<forall>h \<in> set hs. clean_header h \<and> lower_ascii (fst h) \<noteq> ''content-length''"
    and "length body \<le> max_body_bytes"
    and "request_builder api host (Lua_Table (request_table_of m target hs body)) = Inr whole"
    and "length whole \<le> max_header_bytes + length body"
  shows "\<exists>block. whole = block @ crlf2 @ body
    \<and> request_head block m target ''HTTP/1.1'' (request_header_texts host hs body) (length body)"
proof -
  let ?line = "m @ '' '' @ target @ '' '' @ ''HTTP/1.1''" and ?hs = "(''Host'', host) # hs"
  define R where "R = concat (map (\<lambda>h. header_text h @ crlf) ?hs) @ header_text (content_length body)"
  let ?block = "?line @ crlf @ R"
  have clean: "\<forall>h \<in> set ?hs. clean_header h"
    using assms(3,4) by (simp add: clean_header_def clean_text_def is_ows_def)
  have low: "lower_ascii ''Host'' \<noteq> ''content-length''" by code_simp
  have whole: "whole = ?block @ crlf2 @ body"
    using request_text [of m target hs api host body] assms(1,2,4,6) by (simp add: R_def)
  have ok: "\<forall>l \<in> set (?line # map header_text ?hs). line_ok l"
    using assms(1,2) clean header_text_ok by (auto simp: line_ok_def plain_word_def)
  have ok0: "line_ok (header_text (content_length body))" using clean_content_length header_text_ok by blast
  have "find_str crlf2 (?block @ crlf2) = Some (length ?block)"
    using find_header_end [OF ok ok0, of "[]"] by (simp add: R_def comp_def)
  moreover have "length ?block + 4 \<le> max_header_bytes"
    using assms(7) unfolding whole by simp
  moreover have "headers_length (request_header_texts host hs body) 0 = Inr (length body)"
    using headers_length_built [OF assms(5), of ?hs 0] clean low assms(4) by (simp add: request_header_texts_def)
  moreover have "request_line (?block @ crlf2 @ rest) = Inr (m, target, ''HTTP/1.1'', length ?line)
      \<and> split_lines (header_block (?block @ crlf2 @ rest) (length ?line) (length ?block)) = request_header_texts host hs body" for rest
  proof -
    have "request_line (?block @ crlf2 @ rest) = Inr (m, target, ''HTTP/1.1'', length ?line)"
      using request_line_built [OF assms(1,2), of "''HTTP/1.1''" "R @ crlf2 @ rest"] by simp
    moreover have "header_block (?block @ crlf2 @ rest) (length ?line) (length ?block) = R"
      using header_block_at [of ?line R "crlf2 @ rest"] by (simp only: append_assoc)
    then have "split_lines (header_block (?block @ crlf2 @ rest) (length ?line) (length ?block)) = request_header_texts host hs body"
      using split_header_block [OF clean clean_content_length, of body] by (simp add: R_def request_header_texts_def)
    ultimately show ?thesis by blast
  qed
  ultimately show ?thesis using whole unfolding request_head_def by blast
qed

text \<open>
  C7. A server reads the request that \<open>RequestBuilder\<close> made: in whatever pieces it arrives (each within the
  timeout of a receive), on a blocking socket or not, \<open>lua_Request\<close> gives its method, path and query,
  version, every header line in order and exactly its body, whatever bytes the body has.
\<close>

theorem listener_reads_built_request:
  assumes "plain_word m" and "plain_word target" and "clean_text host"
    and "\<forall>h \<in> set hs. clean_header h \<and> lower_ascii (fst h) \<noteq> ''content-length''"
    and "length body \<le> max_body_bytes"
    and "request_builder api host (Lua_Table (request_table_of m target hs body)) = Inr whole"
    and "length whole \<le> max_header_bytes + length body"
    and "supplied ps s" and "concat ps = whole"
  shows "\<exists>r ctx. lua_request (new_listener_context s) = Some (Inr (Some r), ctx)
    \<and> rt_data r = whole \<and> rt_method r = m \<and> rt_version r = ''HTTP/1.1''
    \<and> (case rt_query r of None \<Rightarrow> target = rt_path r | Some q \<Rightarrow> target = rt_path r @ ''?'' @ q)
    \<and> CHR ''?'' \<notin> set (rt_path r) \<and> rt_headers r = request_header_texts host hs body \<and> rt_body r = body"
proof -
  obtain block where b: "whole = block @ crlf2 @ body"
      "request_head block m target ''HTTP/1.1'' (request_header_texts host hs body) (length body)"
    using built_request_head [OF assms(1-7)] by blast
  have "supplied ps (ctx_sock (new_listener_context s))" "ctx_buffer (new_listener_context s) = []"
    using assms(8) by (simp_all add: new_listener_context_def)
  from lua_request_arrives [OF b(2) this(1) assms(9) [unfolded b(1)] this(2)] obtain ctx where
    "lua_request (new_listener_context s) = Some (Inr (Some (make_request_table whole m target ''HTTP/1.1''
        (request_header_texts host hs body) (length block + 4) (length body))), ctx)" by (auto simp: b(1))
  moreover have "take (length body) (drop (length block + 4) whole) = body" by (simp add: b(1))
  ultimately show ?thesis
    by (cases "find_char (CHR ''?'') target")
      (auto simp: make_request_table_def split_target_def find_char_None dest: find_char_Some find_char_split)
qed

lemma header_block_wraps:
  assumes "length rest < 2 ^ 63"
  shows "header_block (l @ crlf @ rest) (length l) (length l) = rest"
proof -
  have "length l + 2 ^ 64 - length l - 2 = 2 ^ 64 - (2 :: nat)" by simp
  then show ?thesis using assms unfolding header_block_def Let_def by simp
qed

lemma map_sum_Some: "map_sum id Some r = Inr (Some x) \<Longrightarrow> r = Inr x"
  by (cases r) auto

lemma read_body_complete: "read_body n b s = Some (True, b', s') \<Longrightarrow> n \<le> length b'"
proof (induction n b s rule: read_body.induct)
  case (1 n b s)
  then show ?case by (subst (asm) (2) read_body.simps) (auto split: if_splits option.splits prod.splits)
qed

lemma headerless_request:
  assumes "plain_word m" and "plain_word target" and "CHR 0x0D \<notin> set version" and "length body < 2 ^ 62"
    and "ctx_buffer ctx = m @ '' '' @ target @ '' '' @ version @ crlf2 @ body"
    and "h = length m + length target + length version + 2"
  shows "lua_request ctx = (case headers_length (split_lines body) 0 of
      Inl e \<Rightarrow> Some (Inl e, ctx)
    | Inr len \<Rightarrow> (case read_body (h + 4 + len) (ctx_buffer ctx) (ctx_sock ctx) of
          None \<Rightarrow> None
        | Some (arrived, b, s) \<Rightarrow>
            Some (if arrived then Inr (Some (make_request_table b m target version ([] # split_lines body) (h + 4) len))
                  else Inl (Lua_Error ''HTTP request body ended before Content-Length''),
                  ctx\<lparr>ctx_buffer := b, ctx_sock := s\<rparr>)))"
proof -
  let ?l = "m @ '' '' @ target @ '' '' @ version" and ?buf = "ctx_buffer ctx"
  have buf: "?buf = ?l @ crlf @ (crlf @ body)" using assms(5) by (simp add: crlf_def crlf2_def)
  have cr: "CHR 0x0D \<notin> set ?l" "?l \<noteq> []" "length ?l = h" using assms(1-3,6) by (auto simp: plain_word_def)
  have found: "find_str crlf2 ?buf = Some h"
  proof -
    have "find_str crlf2 (?l @ butlast crlf2) = None"
      using find_crlf2_lines [of "[?l]"] cr by (simp add: line_ok_def crlf_def crlf2_def)
    then show ?thesis using find_str_first [of crlf2 ?l body] assms(5) cr(3) by (simp add: crlf2_def)
  qed
  have line: "request_line ?buf = Inr (m, target, version, h)"
    using request_line_built [OF assms(1-3), of "crlf @ body"] buf assms(6) by simp
  have "split_lines (header_block ?buf h h) = [] # split_lines body"
    using header_block_wraps [of "crlf @ body" ?l] assms(4) split_lines_line [of "[]" body] unfolding buf cr(3) by simp
  moreover have "header_length [] n = Inr n" for n by (simp add: header_length_def)
  moreover have "?buf \<noteq> []" using assms(5) by (simp add: crlf2_def)
  moreover have "read_header ?buf (ctx_sock ctx) = Some (?buf, Some h, ctx_sock ctx)"
    using found by (subst read_header.simps) simp
  ultimately show ?thesis
    using line by (simp add: lua_request_def read_request_def Let_def split: sum.splits option.splits)
qed

text \<open>
  C38. A request without any header is read as if what follows its blank line were headers: the length of
  the header block wraps around, so a Content-Length the client wrote into the body takes effect, and the
  lines of the body are in the list of headers.
\<close>

theorem headerless_request_reads_body:
  assumes "plain_word m" and "plain_word target" and "CHR 0x0D \<notin> set version" and "length body < 2 ^ 62"
    and "ctx_buffer ctx = m @ '' '' @ target @ '' '' @ version @ crlf2 @ body"
    and "lua_request ctx = Some (Inr (Some r), ctx')"
  shows "rt_headers r = [] # split_lines body \<and> headers_length (split_lines body) 0 = Inr (length (rt_body r))"
  using assms(6) unfolding headerless_request [OF assms(1-5) refl]
  by (auto simp: make_request_table_def dest!: read_body_complete
      split: sum.splits option.splits prod.splits if_splits)

definition demo_headerless :: listener_context where
  "demo_headerless = (new_listener_context (accepted_socket False [] 0 4096))
     \<lparr>ctx_buffer := ''GET / HTTP/1.1'' @ crlf2 @ header_text (content_length ''x'')\<rparr>"

theorem headerless_request_reads_body_witness:
  "\<exists>r ctx. lua_request demo_headerless = Some (Inr (Some r), ctx)
    \<and> rt_headers r = [] # split_lines (header_text (content_length ''x''))
    \<and> headers_length (split_lines (header_text (content_length ''x''))) 0 = Inr (length (rt_body r))"
proof -
  let ?body = "header_text (content_length ''x'')"
  have b: "ctx_buffer demo_headerless = ''GET'' @ '' '' @ ''/'' @ '' '' @ ''HTTP/1.1'' @ crlf2 @ ?body"
    by (simp add: demo_headerless_def)
  have w: "plain_word ''GET''" "plain_word ''/''" "CHR 0x0D \<notin> set ''HTTP/1.1''" by (simp_all add: plain_word_def)
  have one: "nat_str 1 = ''1''" by code_simp
  then have "length ?body < 2 ^ 62" "\<not> length (ctx_buffer demo_headerless) < 19"
    by (simp_all add: header_text_def content_length_def demo_headerless_def)
  note run = headerless_request [OF w this(1) b refl] this(2)
  have "split_lines ?body = [?body]"
    using header_text_no_cr [OF clean_content_length, of "''x''"] by (intro split_lines_last) (auto simp: header_text_def)
  then have "headers_length (split_lines ?body) 0 = Inr 1"
    using header_length_built [of "''x''"] by (simp add: max_body_bytes_def)
  then obtain r ctx where r: "lua_request demo_headerless = Some (Inr (Some r), ctx)"
    using run by (simp add: read_body.simps [of _ "ctx_buffer demo_headerless"])
  from r headerless_request_reads_body [OF w _ b r] \<open>length ?body < 2 ^ 62\<close> show ?thesis by blast
qed

section \<open>The same connection again\<close>

lemma find_from_append: "find_from p s n = Some i \<Longrightarrow> find_from p (s @ t) n = Some i"
  by (auto simp: find_from_def find_str_append split: if_splits)

lemma find_from_Some: "find_from p s n = Some i \<Longrightarrow> n \<le> i \<and> i + length p \<le> length s"
  by (auto simp: find_from_def split: if_splits dest!: find_str_Some_le)

lemma find_char_append_Some: "find_char c s = Some i \<Longrightarrow> find_char c (s @ t) = Some i"
  using find_str_append [of "[c]" s i t] by (simp add: find_str_single)

lemma request_line_append:
  assumes "request_line b = Inr (m, target, version, e)"
  shows "request_line (b @ t) = Inr (m, target, version, e) \<and> find_str crlf b = Some e"
proof -
  from assms obtain sp1 sp2 where f: "find_str crlf b = Some e" "find_char (CHR '' '') b = Some sp1"
      "find_from '' '' b (sp1 + 1) = Some sp2" "sp2 \<le> e"
      "m = take sp1 b" "target = take (sp2 - sp1 - 1) (drop (sp1 + 1) b)" "version = take (e - sp2 - 1) (drop (sp2 + 1) b)"
    by (auto simp: request_line_def split: option.splits if_splits)
  have "sp1 < length b" "sp1 + 1 \<le> sp2" "sp2 + 1 \<le> length b" "e + 2 \<le> length b"
    using find_char_Some [OF f(2)] find_from_Some [OF f(3)] find_str_Some_le [OF f(1)] by simp_all
  then show ?thesis
    using f find_str_append [OF f(1)] find_char_append_Some [OF f(2)] find_from_append [OF f(3)]
    by (simp add: request_line_def)
qed

text \<open>The first line end is not behind the blank line, nor one character in front of it.\<close>

lemma find_str_nth:
  assumes "find_str p s = Some i" and "j < length p"
  shows "s ! (i + j) = p ! j"
  using find_str_Some [OF assms(1)] assms(2) by (metis nth_drop nth_take add_leD1)

lemma crlf_before:
  assumes "find_str crlf2 s = Some h"
  shows "\<exists>e. find_str crlf s = Some e \<and> e \<le> h"
proof -
  have "length (take h s) = h" using find_str_Some_le [OF assms] by simp
  then obtain a b where s: "s = a @ crlf2 @ b" "length a = h" using find_str_split [OF assms] by blast
  have "find_str crlf (a @ crlf) \<noteq> None" by (rule find_str_occurs [of "length a"]) simp_all
  then obtain e where e: "find_str crlf (a @ crlf) = Some e" by auto
  have "find_str crlf ((a @ crlf) @ crlf @ b) = Some e" using find_str_append [OF e] .
  moreover have "e \<le> h" using find_str_Some_le [OF e] s(2) by simp
  ultimately show ?thesis using s(1) by (simp add: crlf_def crlf2_def)
qed

lemma no_crlf_inside:
  assumes "find_str crlf2 s = Some h" and "find_str crlf s = Some e"
  shows "h \<noteq> Suc e"
  using find_str_nth [OF assms(1), of 0] find_str_nth [OF assms(2), of 1] by (auto simp: crlf_def crlf2_def)

lemma header_block_append:
  assumes "e + 2 \<le> h" and "h \<le> length b"
  shows "header_block (b @ t) e h = header_block b e h"
proof -
  obtain k where k: "h = e + 2 + k" using assms(1) le_Suc_ex by blast
  have "header_block s e (e + 2 + k) = take k (drop (e + 2) s)" for s
    by (simp add: header_block_def)
  moreover have "take k (drop (e + 2) (b @ t)) = take k (drop (e + 2) b)"
    using assms(2) by (simp add: k)
  ultimately show ?thesis by (simp only: k)
qed

lemma read_header_found:
  "read_header b s = Some (b', Some h, s') \<Longrightarrow> find_str crlf2 b' = Some h"
proof (induction b s rule: read_header.induct)
  case (1 b s)
  then show ?case by (subst (asm) (2) read_header.simps) (auto split: if_splits option.splits prod.splits)
qed

lemma read_body_extends: "read_body n b s = Some (c, b', s') \<Longrightarrow> \<exists>t. b' = b @ t"
proof (induction n b s rule: read_body.induct)
  case (1 n b s)
  show ?case
  proof (cases "length b < n")
    case False
    then show ?thesis using "1.prems" by (subst (asm) read_body.simps) simp
  next
    case True
    then obtain chunk s1 where r: "socket_receive_bytes 0 1000 s = Some (chunk, s1)"
      using "1.prems" by (subst (asm) read_body.simps) (auto split: option.splits)
    show ?thesis
    proof (cases "chunk = []")
      case True
      then show ?thesis using "1.prems" r \<open>length b < n\<close> by (subst (asm) read_body.simps) simp
    next
      case False
      then have "read_body n (b @ chunk) s1 = Some (c, b', s')"
        using "1.prems" r True by (subst (asm) read_body.simps) simp
      from "1.IH" [OF True r refl False this] show ?thesis by auto
    qed
  qed
qed

text \<open>
  Only the first request of a connection is ever seen. The buffer is kept after a request was read, so
  when it has at least one header, asking for the next request gives the same one again and reads nothing
  from the socket, whatever the client sent behind it.
\<close>

theorem request_is_repeated:
  assumes "lua_request ctx = Some (Inr (Some r), ctx')"
    and "find_str crlf (rt_data r) \<noteq> find_str crlf2 (rt_data r)"
  shows "lua_request ctx' = Some (Inr (Some r), ctx')"
proof -
  from assms(1) have "\<exists>b s h. find_str crlf2 b = Some h \<and> read_request h (ctx\<lparr>ctx_buffer := b, ctx_sock := s\<rparr>) = Some (Inr r, ctx')"
    by (auto simp: lua_request_def Let_def dest!: map_sum_Some read_header_found split: option.splits prod.splits if_splits)
  then obtain b0 s0 h where "find_str crlf2 b0 = Some h" "read_request h (ctx\<lparr>ctx_buffer := b0, ctx_sock := s0\<rparr>) = Some (Inr r, ctx')"
    by blast
  then obtain ctx1 where h: "find_str crlf2 (ctx_buffer ctx1) = Some h" "read_request h ctx1 = Some (Inr r, ctx')"
    by (metis listener_context.select_convs(2) listener_context.surjective listener_context.update_convs(1,2))
  let ?b = "ctx_buffer ctx1" and ?T = "ctx_buffer ctx'"
  from h(2) obtain m target version e len hs s where l: "request_line ?b = Inr (m, target, version, e)"
      "hs = split_lines (header_block ?b e h)" "headers_length hs 0 = Inr len"
      "read_body (h + 4 + len) ?b (ctx_sock ctx1) = Some (True, ?T, s)" "ctx_sock ctx' = s"
      "r = make_request_table ?T m target version hs (h + 4) len"
    by (auto simp: read_request_def Let_def bind_result_Inr bind_result_Inl split: sum.splits option.splits prod.splits if_splits)
  obtain t where t: "?T = ?b @ t" using read_body_extends [OF l(4)] by blast
  have data: "rt_data r = ?T" by (simp add: l(6) make_request_table_def split: prod.splits)
  have T: "find_str crlf2 ?T = Some h" "find_str crlf ?T = Some e" "request_line ?T = Inr (m, target, version, e)"
    using find_str_append [OF h(1)] request_line_append [OF l(1)] find_str_append [of crlf ?b e] by (simp_all add: t)
  have hb: "h + 4 \<le> length ?b" using find_str_Some_le [OF h(1)] by simp
  have "e \<le> h" using crlf_before [OF T(1)] T(2) by auto
  moreover have "e \<noteq> h" using assms(2) T(1,2) by (simp add: data)
  moreover have "h \<noteq> Suc e" using no_crlf_inside T(1,2) by blast
  ultimately have "header_block ?T e h = header_block ?b e h"
    using hb unfolding t by (intro header_block_append) simp_all
  moreover have "h + 4 + len \<le> length ?T" using read_body_complete [OF l(4)] .
  then have "read_body (h + 4 + len) ?T s = Some (True, ?T, s)" by (subst read_body.simps) simp
  ultimately have "read_request h ctx' = Some (Inr r, ctx')"
    using T(3) l(2,3,5,6) by (cases ctx') (simp add: read_request_def Let_def)
  moreover have "read_header ?T (ctx_sock ctx') = Some (?T, Some h, ctx_sock ctx')"
    using T(1) by (subst read_header.simps) simp
  moreover have "?T \<noteq> []" using T(1) by (auto simp: crlf2_def)
  ultimately show ?thesis by (cases ctx') (simp add: lua_request_def Let_def)
qed

definition demo_pieces :: "string list" where
  "demo_pieces = [''POST /a?b=1 HT'', ''TP/1.1'' @ crlf @ ''Host: h'' @ crlf @ ''Content-Length: 2'' @ crlf2 @ ''h'', ''i'']"

definition demo_served :: peer_socket where
  "demo_served = accepted_socket True (zip [5, 999, 20] (map Arrives demo_pieces) @ []) 0 4096"

lemma demo_supplied: "supplied demo_pieces demo_served"
proof -
  have "\<exists>ds es. length ds = length demo_pieces \<and> (\<forall>d \<in> set ds. d < 1000)
      \<and> pk_events demo_served = zip ds (map Arrives demo_pieces) @ es"
    by (rule exI [of _ "[5, 999, 20]"], rule exI [of _ "[]"])
      (simp add: demo_served_def accepted_socket_def demo_pieces_def)
  then show ?thesis
    by (simp add: supplied_def demo_served_def accepted_socket_def) (simp add: demo_pieces_def crlf_def crlf2_def)
qed

lemma demo_built: "request_builder demo_api ''h'' (Lua_Table (request_table_of ''POST'' ''/a?b=1'' [] ''hi'')) = Inr (concat demo_pieces)"
proof -
  have "nat_str 2 = ''2''" by code_simp
  then have "nat_str (Suc (Suc 0)) = ''2''" by (simp add: numeral_2_eq_2)
  then show ?thesis
    using request_text [of "''POST''" "''/a?b=1''" "[]" demo_api "''h''" "''hi''"]
    by (simp add: plain_word_def demo_pieces_def header_text_def content_length_def)
qed

lemma demo_pieces_length: "length (concat demo_pieces) = 54"
  by (simp add: demo_pieces_def crlf_def crlf2_def)

theorem listener_reads_built_request_witness:
  "\<exists>r ctx. lua_request (new_listener_context demo_served) = Some (Inr (Some r), ctx)
    \<and> rt_data r = concat demo_pieces \<and> rt_method r = ''POST'' \<and> rt_version r = ''HTTP/1.1''
    \<and> rt_headers r = request_header_texts ''h'' [] ''hi'' \<and> rt_body r = ''hi''"
  using listener_reads_built_request [OF _ _ _ _ _ demo_built _ demo_supplied refl]
  by (auto simp: plain_word_def clean_text_def is_ows_def max_body_bytes_def max_header_bytes_def demo_pieces_length
      simp del: concat.simps)

text \<open>What the first call leaves, for the second one.\<close>

lemma demo_first_request:
  "\<exists>r ctx. lua_request (new_listener_context demo_served) = Some (Inr (Some r), ctx)
    \<and> find_str crlf (rt_data r) \<noteq> find_str crlf2 (rt_data r)"
proof -
  obtain block where b: "concat demo_pieces = block @ crlf2 @ ''hi''"
      "request_head block ''POST'' ''/a?b=1'' ''HTTP/1.1'' (request_header_texts ''h'' [] ''hi'') (length ''hi'')"
    using built_request_head [OF _ _ _ _ _ demo_built]
    by (auto simp: plain_word_def clean_text_def is_ows_def max_body_bytes_def max_header_bytes_def demo_pieces_length
        simp del: concat.simps)
  have "supplied demo_pieces (ctx_sock (new_listener_context demo_served))" "ctx_buffer (new_listener_context demo_served) = []"
    using demo_supplied by (simp_all add: new_listener_context_def)
  from lua_request_arrives [OF b(2) this(1) b(1) this(2)] obtain r ctx where
      "lua_request (new_listener_context demo_served) = Some (Inr (Some r), ctx)" "rt_data r = concat demo_pieces"
    by (auto simp: b(1) make_request_table_def split: prod.splits)
  moreover have "find_str crlf (concat demo_pieces) \<noteq> find_str crlf2 (concat demo_pieces)"
    unfolding demo_pieces_def by code_simp
  ultimately show ?thesis by auto
qed

theorem request_is_repeated_witness:
  "\<exists>r ctx. lua_request (new_listener_context demo_served) = Some (Inr (Some r), ctx) \<and> lua_request ctx = Some (Inr (Some r), ctx)"
  using demo_first_request request_is_repeated by blast

end
