(* ===== verification/Accept.thy ===== *)
theory Accept imports Listener RequestOptions begin

text \<open>
  The listening side: \<open>SocketServer\<close> (\<open>socket/Socket.cpp\<close>) and the functions \<open>Listener_Create\<close>,
  \<open>Listener_Accept\<close> and \<open>Listener_AcceptAsync\<close> of \<open>main.cpp\<close>. What Windows answers to a wait and to
  \<open>accept\<close> is a script in the server's state, what Lua does when a handler is called is a parameter.
  The lemmas show that a timed call reports exactly whether it served a connection, that nothing is
  waited for without a handler, and what happens to the handles of a listener.
\<close>

section \<open>Creating a listener\<close>

record socket_server =
  sv_blocking :: bool
  sv_port :: u16
  sv_waits :: "bool list"
  sv_accepts :: "(nat + peer_socket) list"

text \<open>What the system answers to the constructor, and the handles it opens and closes.\<close>

record server_io =
  io_wsa_ok :: bool
  io_first_socket :: bool
  io_second_socket :: bool
  io_address_ok :: bool
  io_bind_error :: "nat option"
  io_listen_error :: "nat option"
  io_name_error :: "nat option"
  io_bound_port :: u16

datatype handle_op = Opens nat | Closes nat

definition server_failure :: "string \<Rightarrow> nat \<Rightarrow> error" where
  "server_failure what e = Runtime_Error (what @ '' failed (Winsock '' @ nat_str e @ '')'')"

text \<open>
  The constructor: the base class opens a socket, which the second one replaces. A failure closes the
  second and throws; the destructor of the base class then closes the same handle again.
\<close>

definition socket_server_new ::
    "server_io \<Rightarrow> bool \<Rightarrow> string \<Rightarrow> socket_server result \<times> handle_op list" where
  "socket_server_new io blocking address =
     (let thrown = (\<lambda>e. (Inl e, [Opens 0, Opens 1, Closes 1, Closes 1])) in
      if \<not> io_wsa_ok io then (Inl (Thrown_Text ''Could not start WSA''), [])
      else if \<not> io_first_socket io then (Inl (Thrown_Text ''INVALID_SOCKET''), [])
      else if \<not> io_second_socket io then (Inl (Thrown_Text ''INVALID_SOCKET''), [Opens 0])
      else if \<not> io_address_ok io then thrown (Runtime_Error (''invalid IPv4 bind address: '' @ address))
      else case io_bind_error io of Some e \<Rightarrow> thrown (server_failure ''bind'' e)
      | None \<Rightarrow> (case io_listen_error io of Some e \<Rightarrow> thrown (server_failure ''listen'' e)
      | None \<Rightarrow> (case io_name_error io of Some e \<Rightarrow> thrown (server_failure ''getsockname'' e)
      | None \<Rightarrow> (Inr \<lparr>sv_blocking = blocking, sv_port = io_bound_port io, sv_waits = [], sv_accepts = []\<rparr>,
                 [Opens 0, Opens 1]))))"

definition nth_arg :: "lua_value list \<Rightarrow> nat \<Rightarrow> lua_value" where
  "nth_arg args i = (if i < length args then args ! i else Lua_Nil)"

definition listener_create :: "lua_api \<Rightarrow> (string \<Rightarrow> bool) \<Rightarrow> server_io \<Rightarrow> lua_value list \<Rightarrow> socket_server result" where
  "listener_create api ipv4 io args =
     (if \<not> is_number api (nth_arg args 0) then Inl (Lua_Error ''bad argument #1 (number expected)'')
      else case (if nth_arg args 2 = Lua_Nil then Some ''127.0.0.1'' else map_option c_str (to_lstring api (nth_arg args 2))) of
          None \<Rightarrow> Inl (Lua_Error ''bad argument #3 (string expected)'')
        | Some address \<Rightarrow>
            if \<not> ipv4 address then Inl (Lua_Error (''invalid IPv4 bind address: '' @ address))
            else to_lua_error (fst (socket_server_new io (\<not> to_boolean (nth_arg args 1)) address)))"

section \<open>Waiting and accepting\<close>

text \<open>\<open>WaitReadable\<close> of the listening socket: the answer, or \<open>None\<close> when it never comes.\<close>

definition server_wait :: "int \<Rightarrow> socket_server \<Rightarrow> (bool \<times> socket_server) option" where
  "server_wait timeout_ms sv =
     (case sv_waits sv of
        [] \<Rightarrow> if timeout_ms < 0 then None else Some (False, sv)
      | w # ws \<Rightarrow> Some (w, sv\<lparr>sv_waits := ws\<rparr>))"

text \<open>
  \<open>SocketServer::Accept\<close>: a connection, nothing, or the thrown text. A connection blocks exactly when the
  server does. A blocking server to which nobody connects waits without end.
\<close>

definition server_accept :: "socket_server \<Rightarrow> (peer_socket option result \<times> socket_server) option" where
  "server_accept sv =
     (case sv_accepts sv of
        [] \<Rightarrow> if sv_blocking sv then None else Some (Inr None, sv)
      | Inl e # as \<Rightarrow>
          Some (if e = wsaewouldblock \<or> e = wsaeintr then Inr None else Inl (Thrown_Text ''Invalid Socket''),
                sv\<lparr>sv_accepts := as\<rparr>)
      | Inr s # as \<Rightarrow> Some (Inr (Some (s\<lparr>pk_blocking := sv_blocking sv\<rparr>)), sv\<lparr>sv_accepts := as\<rparr>))"

section \<open>The arguments\<close>

definition accept_timeout :: "(lua_num \<Rightarrow> string) \<Rightarrow> lua_num \<Rightarrow> int result" where
  "accept_timeout shown n =
     (let refused = Inl (Lua_Error (''accept: expected a whole number of milliseconds in [-2147483648, 2147483647], got ''
            @ shown n))
      in case n of
           Finite q \<Rightarrow> if q = of_int \<lfloor>q\<rfloor> \<and> - (2 ^ 31) \<le> \<lfloor>q\<rfloor> \<and> \<lfloor>q\<rfloor> < 2 ^ 31 then Inr \<lfloor>q\<rfloor> else refused
         | _ \<Rightarrow> refused)"

definition runnable :: "lua_value \<Rightarrow> bool" where
  "runnable v = (case v of Lua_Function f \<Rightarrow> True | Lua_Table t \<Rightarrow> True | Lua_Userdata u \<Rightarrow> True | _ \<Rightarrow> False)"

text \<open>The timeout, if one is given, and the handler (no runnable value when there is none).\<close>

definition accept_arguments :: "(lua_num \<Rightarrow> string) \<Rightarrow> lua_value list \<Rightarrow> (int option \<times> lua_value) result" where
  "accept_arguments shown args =
     (if 2 < length args
      then Inl (Lua_Error ''bad argument #4 (accept takes at most three arguments (server, handler, timeout_ms))'')
      else case (nth_arg args 0, nth_arg args 1) of
          (Lua_Number n, _) \<Rightarrow> bind_result (accept_timeout shown n) (\<lambda>t. Inr (Some t, Lua_Nil))
        | (h, Lua_Number n) \<Rightarrow> bind_result (accept_timeout shown n) (\<lambda>t. Inr (Some t, h))
        | (h, v) \<Rightarrow>
            if runnable h \<and> v \<noteq> Lua_Nil then Inl (Lua_Error ''bad argument #3 (expected a timeout in milliseconds)'')
            else Inr (None, h))"

section \<open>Running the handler\<close>

datatype pcall_result = Call_Returned "lua_value list" | Call_Raised lua_value

text \<open>How Lua runs a function on the connection: it may use the context and change Lua's state.\<close>

type_synonym 'l runner = "lua_value \<Rightarrow> lua_value list \<Rightarrow> listener_context \<Rightarrow> 'l \<Rightarrow> pcall_result \<times> listener_context \<times> 'l"

definition send_reply :: "lua_api \<Rightarrow> lua_value \<Rightarrow> listener_context \<Rightarrow> listener_context result" where
  "send_reply api v ctx =
     (case v of
        Lua_Table t \<Rightarrow> bind_result (response_builder api t) (\<lambda>d. Inr (snd (listener_send_bytes d ctx)))
      | _ \<Rightarrow>
          Inr (snd (listener_send_bytes (case to_lstring api v of Some d \<Rightarrow> d
              | None \<Rightarrow> ''HTTP/1.1 500 Internal Server Error'' @ crlf @ ''Content-Length: 0'' @ crlf2) ctx)))"

text \<open>
  What the handler leaves on the stack: its results, or the error and behind it the results of the
  function for errors.
\<close>

definition run_handler ::
    "'l runner \<Rightarrow> lua_value \<Rightarrow> listener_context \<Rightarrow> 'l \<Rightarrow> lua_value list result \<times> listener_context \<times> 'l" where
  "run_handler run h ctx l =
     (case run h [] ctx l of
        (Call_Returned vs, ctx1, l1) \<Rightarrow> (Inr vs, ctx1, l1)
      | (Call_Raised e, ctx1, l1) \<Rightarrow>
          (case ctx_on_error ctx1 of
             None \<Rightarrow> (Inl (Lua_Error ''Failed to execute listener function''), ctx1, l1)
           | Some f \<Rightarrow>
               (case run f [e] ctx1 l1 of
                  (Call_Returned vs, ctx2, l2) \<Rightarrow> (Inr (e # vs), ctx2, l2)
                | (Call_Raised e2, ctx2, l2) \<Rightarrow> (Inl (Lua_Error ''Failed to execute error function''), ctx2, l2))))"

definition serve :: "lua_api \<Rightarrow> 'l runner \<Rightarrow> lua_value \<Rightarrow> peer_socket \<Rightarrow> 'l \<Rightarrow> unit result \<times> listener_context \<times> 'l" where
  "serve api run h s l =
     (case run_handler run h (new_listener_context s) l of
        (Inl e, ctx, l1) \<Rightarrow> (Inl e, ctx, l1)
      | (Inr vs, ctx, l1) \<Rightarrow>
          if vs = [] then (Inr (), ctx, l1)
          else case send_reply api (last vs) ctx of
              Inl e \<Rightarrow> (Inl e, ctx, l1)
            | Inr ctx1 \<Rightarrow> (Inr (), listener_close ctx1, l1))"

section \<open>Accepting\<close>

datatype service = Not_Served | Handled listener_context | Handed_Over string peer_socket

type_synonym 'l accepted = "(bool option result \<times> service \<times> socket_server \<times> 'l) option"

definition accept_answer :: "int option \<Rightarrow> bool \<Rightarrow> bool option" where
  "accept_answer timeout_ms b = (if timeout_ms = None then None else Some b)"

definition accept_and_serve ::
    "lua_api \<Rightarrow> 'l runner \<Rightarrow> string option \<Rightarrow> int option \<Rightarrow> lua_value \<Rightarrow> socket_server \<Rightarrow> 'l \<Rightarrow> 'l accepted" where
  "accept_and_serve api run registered timeout_ms h sv l =
     (case server_accept sv of
        None \<Rightarrow> None
      | Some (Inl e, sv1) \<Rightarrow> Some (Inl e, Not_Served, sv1, l)
      | Some (Inr None, sv1) \<Rightarrow>
          Some (if runnable h \<and> sv_blocking sv then Inl (Lua_Error ''Failed to accept connection'')
                else Inr (accept_answer timeout_ms False), Not_Served, sv1, l)
      | Some (Inr (Some s), sv1) \<Rightarrow>
          (case (runnable h, registered) of
             (False, Some code) \<Rightarrow> Some (Inr (accept_answer timeout_ms True), Handed_Over code s, sv1, l)
           | _ \<Rightarrow>
               (case serve api run h s l of
                  (r, ctx, l1) \<Rightarrow>
                    Some (bind_result r (\<lambda>_. Inr (accept_answer timeout_ms True)), Handled ctx, sv1, l1))))"

definition listener_accept ::
    "lua_api \<Rightarrow> (lua_num \<Rightarrow> string) \<Rightarrow> 'l runner \<Rightarrow> string option \<Rightarrow> lua_value list \<Rightarrow> socket_server \<Rightarrow> 'l \<Rightarrow> 'l accepted" where
  "listener_accept api shown run registered args sv l =
     (case accept_arguments shown args of
        Inl e \<Rightarrow> Some (Inl e, Not_Served, sv, l)
      | Inr (timeout_ms, h) \<Rightarrow>
          if registered = None \<and> \<not> runnable h then Some (Inl (Lua_Error ''No function provided''), Not_Served, sv, l)
          else (case timeout_ms of
              Some t \<Rightarrow>
                if t = 0 then accept_and_serve api run registered timeout_ms h sv l
                else (case server_wait (if t < 0 then -1 else t) sv of
                    None \<Rightarrow> None
                  | Some (False, sv1) \<Rightarrow> Some (Inr (Some False), Not_Served, sv1, l)
                  | Some (True, sv1) \<Rightarrow> accept_and_serve api run registered timeout_ms h sv1 l)
            | None \<Rightarrow> accept_and_serve api run registered timeout_ms h sv l))"

text \<open>\<open>async\<close> registers the function's bytecode; Lua's \<open>lua_dump\<close> is a parameter.\<close>

definition listener_accept_async ::
    "(nat \<Rightarrow> string + string) \<Rightarrow> lua_value list \<Rightarrow> string option \<Rightarrow> string option result" where
  "listener_accept_async dump args registered =
     (if \<not> runnable (nth_arg args 0) then Inl (Lua_Error ''No function provided'')
      else case last args of
          Lua_Function f \<Rightarrow>
            (case dump f of Inl e \<Rightarrow> Inl (Lua_Error (''Unable to transfer function: '' @ e)) | Inr code \<Rightarrow> Inr (Some code))
        | _ \<Rightarrow> Inl (Lua_Error ''function expected''))"

section \<open>The thread of a registered function\<close>

text \<open>
  \<open>Listener_AsyncRun\<close>: \<open>load\<close> is Lua's reader of bytecode; \<open>leftover\<close> is what a new state with the
  module's classes holds, lowest first, below which the function is inserted: the call takes the topmost
  value. An error is raised outside every protected call. In the end the connection is destroyed.
\<close>

definition listener_async_run ::
    "lua_api \<Rightarrow> 'l runner \<Rightarrow> (string \<Rightarrow> string + nat) \<Rightarrow> lua_value list \<Rightarrow> string \<Rightarrow> peer_socket \<Rightarrow> 'l
     \<Rightarrow> unit result \<times> listener_context \<times> 'l" where
  "listener_async_run api run load leftover code s l =
     (case load code of
        Inl e \<Rightarrow> (Inl (Lua_Error (''Failed to load thread: '' @ e @ [CHR 0x0A])), new_listener_context s, l)
      | Inr f \<Rightarrow>
          (let stack = Lua_Function f # leftover in
           case run_handler run (last stack) (new_listener_context s) l of
             (Inl e, ctx, l1) \<Rightarrow> (Inl e, ctx, l1)
           | (Inr vs, ctx, l1) \<Rightarrow>
               (let left = butlast stack @ vs in
                if left = [] then (Inr (), listener_close ctx, l1)
                else case send_reply api (last left) ctx of
                    Inl e \<Rightarrow> (Inl e, ctx, l1)
                  | Inr ctx1 \<Rightarrow> (Inr (), listener_close ctx1, l1))))"

text \<open>When nothing is left over, the thread serves the connection as a direct handler, and always closes it.\<close>

lemma async_run_serves:
  assumes "load code = Inr f" and "serve api run (Lua_Function f) s l = (r, ctx, l')"
  shows "listener_async_run api run load [] code s l
    = (r, (case r of Inl e \<Rightarrow> ctx | Inr u \<Rightarrow> listener_close ctx), l')"
proof -
  have "listener_close (listener_close c) = listener_close c" for c
    by (simp add: listener_close_def socket_close_def)
  with assms show ?thesis
    by (auto simp: listener_async_run_def serve_def Let_def split: sum.splits prod.splits if_splits)
qed

text \<open>A handler that raises without a function for errors: the error leaves the thread.\<close>

lemma async_error_escapes:
  assumes "load code = Inr f" and "run (Lua_Function f) [] (new_listener_context s) l = (Call_Raised e, ctx, l')"
    and "ctx_on_error ctx = None"
  shows "fst (listener_async_run api run load [] code s l) = Inl (Lua_Error ''Failed to execute listener function'')"
  using assms by (simp add: listener_async_run_def run_handler_def Let_def)

section \<open>Lemmas\<close>

definition served :: "service \<Rightarrow> bool" where
  "served s \<longleftrightarrow> s \<noteq> Not_Served"

lemma accept_and_serve_answer:
  "accept_and_serve api run registered t h sv l = Some (Inr a, s, sv', l') \<Longrightarrow> a = accept_answer t (served s)"
  by (auto simp: accept_and_serve_def served_def bind_result_Inr
      split: option.splits sum.splits prod.splits bool.splits if_splits)

text \<open>
  C8. A call of \<open>accept\<close> that returns tells the truth: with a timeout it returns true exactly when a
  connection was handled or handed over to the registered function, and without one it returns no value;
  and an error for want of a handler comes before anything is waited for: the server is as it was.
\<close>

theorem accept_reports_service:
  assumes "listener_accept api shown run registered args sv l = Some (r, s, sv', l')"
  shows "(\<forall>a. r = Inr a \<longrightarrow> (\<exists>t h. accept_arguments shown args = Inr (t, h) \<and> a = (if t = None then None else Some (served s))))
    \<and> (\<forall>t h. accept_arguments shown args = Inr (t, h) \<and> registered = None \<and> \<not> runnable h \<longrightarrow>
          r = Inl (Lua_Error ''No function provided'') \<and> sv' = sv \<and> s = Not_Served \<and> l' = l)"
proof (cases "accept_arguments shown args")
  case (Inl e)
  then show ?thesis using assms by (auto simp: listener_accept_def)
next
  case (Inr th)
  obtain t h where th: "th = (t, h)" by force
  show ?thesis
  proof (cases "registered = None \<and> \<not> runnable h")
    case True
    then show ?thesis using assms Inr th by (auto simp: listener_accept_def)
  next
    case False
    have "a = accept_answer t (served s)" if "r = Inr a" for a
      using assms Inr th False that accept_and_serve_answer [of api run registered t h _ l a s sv' l']
      by (auto simp: listener_accept_def served_def accept_answer_def split: option.splits if_splits prod.splits bool.splits)
    with False Inr th show ?thesis by (auto simp: accept_answer_def)
  qed
qed

text \<open>
  An accept that is interrupted on a blocking listener raises an error, although the socket layer says an
  interruption must not become one; and a handler for errors that returns nothing makes the error's text
  the response, sent as it is.
\<close>

lemma interrupted_accept_raises:
  assumes "sv_blocking sv" and "sv_accepts sv = Inl wsaeintr # as" and "runnable h"
  shows "listener_accept api shown run registered [h, Lua_Number (Finite 0)] sv l =
    Some (Inl (Lua_Error ''Failed to accept connection''), Not_Served, sv\<lparr>sv_accepts := as\<rparr>, l)"
  using assms
  by (cases h) (simp_all add: listener_accept_def accept_arguments_def nth_arg_def accept_timeout_def accept_and_serve_def
      server_accept_def runnable_def)

lemma error_text_is_response:
  assumes "run h [] (new_listener_context s) l = (Call_Raised (Lua_String t), ctx, l1)" and "ctx_on_error ctx = Some f"
    and "run f [Lua_String t] ctx l1 = (Call_Returned [], ctx2, l2)"
  shows "serve api run h s l = (Inr (), listener_close (snd (listener_send_bytes t ctx2)), l2)"
  using assms by (simp add: serve_def run_handler_def send_reply_def to_lstring_def)

text \<open>The handles: the one of the base class is never closed, and after a failure the other one is twice.\<close>

lemma listener_handles:
  assumes "socket_server_new io blocking address = (r, ops)" and "Opens 0 \<in> set ops"
  shows "Closes 0 \<notin> set ops \<and> (Opens 1 \<in> set ops \<and> \<not> returns r \<longrightarrow> count_list ops (Closes 1) = 2)"
  using assms
  by (auto simp: socket_server_new_def Let_def split: if_splits option.splits)

definition demo_server :: socket_server where
  "demo_server = \<lparr>sv_blocking = False, sv_port = 80, sv_waits = [True], sv_accepts = [Inr (accepted_socket False [] 0 4096)]\<rparr>"

theorem accept_reports_service_witness:
  "\<exists>s sv'. listener_accept demo_api (\<lambda>_. []) (\<lambda>h vs ctx l. (Call_Returned [], ctx, l)) None
       [Lua_Function 7, Lua_Number (Finite 1000)] demo_server () = Some (Inr (Some True), s, sv', ()) \<and> served s"
proof -
  have "\<lfloor>1000 :: rat\<rfloor> = 1000" using floor_of_int [of 1000, where 'a = rat] by simp
  then have "\<exists>s sv'. listener_accept demo_api (\<lambda>_. []) (\<lambda>h vs ctx l. (Call_Returned [], ctx, l)) None
       [Lua_Function 7, Lua_Number (Finite 1000)] demo_server () = Some (Inr (Some True), s, sv', ())"
    by (simp add: listener_accept_def accept_arguments_def nth_arg_def accept_timeout_def runnable_def demo_server_def
        server_wait_def accept_and_serve_def server_accept_def serve_def run_handler_def accept_answer_def)
  then obtain s sv' where run: "listener_accept demo_api (\<lambda>_. []) (\<lambda>h vs ctx l. (Call_Returned [], ctx, l)) None
       [Lua_Function 7, Lua_Number (Finite 1000)] demo_server () = Some (Inr (Some True), s, sv', ())" by blast
  from accept_reports_service [OF run] obtain t :: "int option" where "Some True = (if t = None then None else Some (served s))"
    by blast
  then have "served s" by (simp split: if_splits)
  with run show ?thesis by blast
qed

end
