(* ===== verification/ClientServer.thy ===== *)
theory ClientServer imports HttpRoundTrip Accept begin

text \<open>
  A client and a server of this library, joined by what they put on the wire: \<open>network.request\<close> on the
  one side, \<open>accept\<close> with a handler that reads the request and returns a response table on the other.
\<close>

section \<open>The server\<close>

text \<open>A handler in Lua that reads the request of its connection and returns a table made from it.\<close>

definition answering :: "(request_table \<Rightarrow> (lua_value \<times> lua_value) list) \<Rightarrow> 'l runner" where
  "answering f h args ctx l =
     (case lua_request ctx of
        Some (Inr (Some r), ctx1) \<Rightarrow> (Call_Returned [Lua_Table (f r)], ctx1, l)
      | _ \<Rightarrow> (Call_Returned [], ctx, l))"

text \<open>The table a server is handed for a request that \<open>RequestBuilder\<close> made.\<close>

definition request_seen :: "string \<Rightarrow> string \<Rightarrow> string \<Rightarrow> (string \<times> string) list \<Rightarrow> string \<Rightarrow> string \<Rightarrow> request_table" where
  "request_seen m target host hs body whole =
     make_request_table whole m target ''HTTP/1.1'' (request_header_texts host hs body)
       (length whole - length body) (length body)"

lemma request_seen_fields:
  assumes "whole = front @ body"
  shows "rt_method (request_seen m target host hs body whole) = m" "rt_body (request_seen m target host hs body whole) = body"
    "rt_data (request_seen m target host hs body whole) = whole"
    "rt_headers (request_seen m target host hs body whole) = request_header_texts host hs body"
  using assms by (simp_all add: request_seen_def make_request_table_def split: prod.splits)

lemma accept_one:
  assumes "sv_accepts sv = Inr s # as" and "runnable h"
    and "run h [] (new_listener_context (s\<lparr>pk_blocking := sv_blocking sv\<rparr>)) l = (Call_Returned vs, ctx, l1)"
  shows "listener_accept api shown run registered [h] sv l =
    (let (r, ctx', l') = (if vs = [] then (Inr (), ctx, l1)
         else case send_reply api (last vs) ctx of Inl e \<Rightarrow> (Inl e, ctx, l1) | Inr ctx1 \<Rightarrow> (Inr (), listener_close ctx1, l1))
     in Some (bind_result r (\<lambda>_. Inr None), Handled ctx', sv\<lparr>sv_accepts := as\<rparr>, l'))"
proof -
  have "accept_arguments shown [h] = Inr (None, h)"
    using assms(2) by (cases h) (simp_all add: accept_arguments_def nth_arg_def runnable_def)
  then show ?thesis
    using assms
    by (simp add: listener_accept_def accept_and_serve_def server_accept_def serve_def run_handler_def accept_answer_def
        split: sum.splits)
qed

lemma send_table:
  assumes "response_builder api t = Inr d" and "sending (ctx_sock ctx) = (before, Inr n # ns)" and "length d \<le> n"
  shows "\<exists>ctx'. send_reply api (Lua_Table t) ctx = Inr ctx' \<and> pk_output (ctx_sock ctx') = before @ d"
  using assms by (auto simp: send_reply_def listener_send_bytes_def socket_send_bytes_def sending_def Let_def)

text \<open>The server reads the request, whatever pieces it arrives in, and puts the handler's answer on the wire.\<close>

lemma server_answers:
  assumes "plain_word m" and "plain_word target" and "clean_text host"
    and "\<forall>h \<in> set hs. clean_header h \<and> lower_ascii (fst h) \<noteq> ''content-length''"
    and "length body \<le> max_body_bytes"
    and "request_builder api host (Lua_Table (request_table_of m target hs body)) = Inr request"
    and "length request \<le> max_header_bytes + length body"
    and "sv_accepts sv = Inr s # as" and "supplied ps s" and "concat ps = request" and "runnable h"
    and "sending s = ([], Inr n # ns)"
    and "response_builder api (f (request_seen m target host hs body request)) = Inr answer" and "length answer \<le> n"
  shows "\<exists>ctx. listener_accept api shown (answering f) registered [h] sv l =
      Some (Inr None, Handled ctx, sv\<lparr>sv_accepts := as\<rparr>, l)
    \<and> pk_output (ctx_sock ctx) = answer \<and> listener_closed ctx"
proof -
  define s' where "s' = s\<lparr>pk_blocking := sv_blocking sv\<rparr>"
  obtain block where b: "request = block @ crlf2 @ body"
      "request_head block m target ''HTTP/1.1'' (request_header_texts host hs body) (length body)"
    using built_request_head [OF assms(1-7)] by blast
  have ctx: "supplied ps (ctx_sock (new_listener_context s'))" "ctx_buffer (new_listener_context s') = []"
      "sending (ctx_sock (new_listener_context s')) = ([], Inr n # ns)"
    using assms(9,12) by (simp_all add: new_listener_context_def s'_def supplied_def sending_def)
  obtain ctx1 where ctx1: "lua_request (new_listener_context s') =
        Some (Inr (Some (request_seen m target host hs body request)), ctx1)" "sending (ctx_sock ctx1) = ([], Inr n # ns)"
    using lua_request_arrives [OF b(2) ctx(1) assms(10) [unfolded b(1)] ctx(2)] ctx(3)
    by (auto simp: request_seen_def b(1))
  then have run: "answering f h [] (new_listener_context s') l =
      (Call_Returned [Lua_Table (f (request_seen m target host hs body request))], ctx1, l)"
    by (simp add: answering_def)
  obtain ctx2 where ctx2: "send_reply api (Lua_Table (f (request_seen m target host hs body request))) ctx1 = Inr ctx2"
      "pk_output (ctx_sock ctx2) = answer"
    using send_table [OF assms(13) ctx1(2) assms(14)] by auto
  show ?thesis
    using accept_one [where api = api and shown = shown and registered = registered and run = "answering f",
        OF assms(8,11) run [unfolded s'_def]] ctx2
    by (simp add: listener_closed_def listener_close_def socket_close_def socket_closed_def)
qed

section \<open>Both sides\<close>

lemma takeWhile_eq_append_blank: "c \<notin> set m \<Longrightarrow> takeWhile (\<lambda>x. x \<noteq> c) (m @ c # rest) = m"
  by (induction m) auto

lemma built_request_start:
  assumes "plain_word m" and "request = m @ CHR '' '' # rest"
  shows "request \<noteq> [] \<and> (head_request request \<longleftrightarrow> m = ''HEAD'')"
proof -
  have "starts_with (m @ CHR '' '' # rest) ''HEAD '' \<longleftrightarrow> m = ''HEAD''"
  proof
    assume "starts_with (m @ CHR '' '' # rest) ''HEAD ''"
    then obtain r where "m @ CHR '' '' # rest = ''HEAD'' @ CHR '' '' # r"
      by (auto simp: starts_with_def prefix_def)
    then have "takeWhile (\<lambda>c. c \<noteq> CHR '' '') (m @ CHR '' '' # rest) = takeWhile (\<lambda>c. c \<noteq> CHR '' '') (''HEAD'' @ CHR '' '' # r)"
      by (rule arg_cong)
    moreover have "takeWhile (\<lambda>c. c \<noteq> CHR '' '') (m @ CHR '' '' # rest) = m"
      using assms(1) by (intro takeWhile_eq_append_blank) (simp add: plain_word_def)
    ultimately show "m = ''HEAD''" by simp
  qed (simp add: starts_with_def)
  then show ?thesis by (simp add: assms(2) head_request_def)
qed

text \<open>
  C1. A client and a server of this library understand each other: the request that \<open>RequestBuilder\<close> made
  reaches the handler as its method, headers and body, in whatever pieces it arrives; what the handler
  makes of it is put on the wire and the connection is closed; and the client that gets these bytes, in
  whatever pieces, returns the handler's status, reason, headers and exactly its body.
\<close>

theorem client_and_server_agree:
  assumes "plain_word m" and "m \<noteq> ''HEAD''" and "plain_word target" and "clean_text host"
    and "\<forall>h \<in> set hs. clean_header h \<and> lower_ascii (fst h) \<noteq> ''content-length''" and "length body \<le> max_body_bytes"
    and "request_builder api host (Lua_Table (request_table_of m target hs body)) = Inr request"
    and "length request \<le> max_header_bytes + length body"
    and "sv_accepts sv = Inr s # as" and "supplied ps s" and "concat ps = request" and "runnable h"
    and "sending s = ([], Inr n # ns)" and "length answer \<le> n"
    and "num_int api (Finite (of_int st)) = st" and "100 \<le> st" and "st \<le> 999" and "st \<noteq> 204" and "st \<noteq> 304"
    and "clean_text reason" and "CHR 0x0A \<notin> set reason" and "\<forall>h \<in> set hs'. clean_header h"
    and "\<forall>h \<in> set hs'. lower_ascii (fst h) \<noteq> ''content-length'' \<and> lower_ascii (fst h) \<noteq> ''transfer-encoding''"
    and "response_builder api (response_table_of st reason hs' (g (request_seen m target host hs body request))) = Inr answer"
    and "length (g (request_seen m target host hs body request)) \<le> opt_max_response_bytes opts"
    and "length answer + opt_buffer_size opts \<le> 1024 * 1024 + length (g (request_seen m target host hs body request))"
    and "agreeable (http_callbacks env)" and "opt_total_timeout_ms opts = 0" and "options_in_range opts"
  shows "\<exists>seen ctx. rt_method seen = m \<and> rt_headers seen = request_header_texts host hs body \<and> rt_body seen = body
    \<and> listener_accept api shown (answering (\<lambda>r. response_table_of st reason hs' (g r))) registered [h] sv l =
        Some (Inr None, Handled ctx, sv\<lparr>sv_accepts := as\<rparr>, l)
    \<and> listener_closed ctx \<and> pk_output (ctx_sock ctx) = answer
    \<and> (\<forall>ks c. prompt_socket request (pk_output (ctx_sock ctx)) ks c \<longrightarrow>
        (\<exists>r e. run_exchange env opts started request (new_exchange opts (Plain c) ticks k) = Some (Inr r, e)
          \<and> resp_status r = st \<and> resp_reason r = reason \<and> resp_headers r = built_headers hs' (g seen)
          \<and> resp_body r = g seen))"
proof -
  let ?seen = "request_seen m target host hs body request"
  obtain ctx where server: "listener_accept api shown (answering (\<lambda>r. response_table_of st reason hs' (g r))) registered [h] sv l =
        Some (Inr None, Handled ctx, sv\<lparr>sv_accepts := as\<rparr>, l)" "pk_output (ctx_sock ctx) = answer" "listener_closed ctx"
    using server_answers [where f = "\<lambda>r. response_table_of st reason hs' (g r)" and shown = shown
        and registered = registered and l = l, OF assms(1,3-13,24,14)] by (elim exE conjE)
  obtain front where front: "request = front @ body" "\<exists>rest. request = m @ CHR '' '' # rest"
    using request_text [of m target hs api host body] assms(1,3,5,7) by (auto simp: plain_word_def)
  have start: "request \<noteq> []" "\<not> head_request request"
    using built_request_start [OF assms(1)] front(2) assms(2) by auto
  have "length request < 2 ^ 31"
    using assms(6,8) by (simp add: max_body_bytes_def max_header_bytes_def)
  with http_exchange_round_trip [OF assms(15-23) assms(24) assms(25-29) start(2,1)]
  have "\<exists>r e. run_exchange env opts started request (new_exchange opts (Plain c) ticks k) = Some (Inr r, e)
      \<and> resp_status r = st \<and> resp_reason r = reason \<and> resp_headers r = built_headers hs' (g ?seen) \<and> resp_body r = g ?seen"
    if "prompt_socket request (pk_output (ctx_sock ctx)) ks c" for ks c
    using that unfolding server(2) by blast
  with server request_seen_fields [OF front(1)] show ?thesis by blast
qed

section \<open>An echo server\<close>

definition echo_peer :: peer_socket where
  "echo_peer = demo_served\<lparr>pk_send_answers := [Inr 4096]\<rparr>"

definition echo_server :: socket_server where
  "echo_server = demo_server\<lparr>sv_accepts := [Inr echo_peer]\<rparr>"

lemma echo_ready:
  "supplied demo_pieces echo_peer" "sending echo_peer = ([], [Inr 4096])" "sv_accepts echo_server = [Inr echo_peer]"
  "rt_body (request_seen ''POST'' ''/a?b=1'' ''h'' [] ''hi'' (concat demo_pieces)) = ''hi''"
  "prompt_socket (concat demo_pieces) demo_http_answer (replicate 60 7) demo_peer"
proof -
  show "supplied demo_pieces echo_peer" using demo_supplied by (simp add: supplied_def echo_peer_def)
  show "sending echo_peer = ([], [Inr 4096])"
    by (simp add: sending_def echo_peer_def demo_served_def accepted_socket_def)
  show "sv_accepts echo_server = [Inr echo_peer]" by (simp add: echo_server_def)
  have "\<exists>front. concat demo_pieces = front @ ''hi''" unfolding demo_pieces_def crlf_def crlf2_def by simp
  then show "rt_body (request_seen ''POST'' ''/a?b=1'' ''h'' [] ''hi'' (concat demo_pieces)) = ''hi''"
    using request_seen_fields(2) by blast
  have "\<exists>m as. send_answers demo_peer = ready_io m # as \<and> length (concat demo_pieces) \<le> m"
    unfolding demo_pieces_length by (intro exI [of _ 100] exI [of _ "[]"]) (simp add: demo_peer_def)
  then show "prompt_socket (concat demo_pieces) demo_http_answer (replicate 60 7) demo_peer"
    using demo_prompt by (simp add: prompt_socket_def)
qed

theorem client_and_server_agree_witness:
  "\<exists>ctx r e. listener_accept demo_api (\<lambda>_. []) (answering (\<lambda>r. response_table_of 200 ''OK'' [] (rt_body r))) None
        [Lua_Function 7] echo_server () = Some (Inr None, Handled ctx, echo_server\<lparr>sv_accepts := []\<rparr>, ())
    \<and> run_exchange demo_http_env default_options 0 (concat demo_pieces) (new_exchange default_options (Plain demo_peer) [] ())
        = Some (Inr r, e) \<and> resp_status r = 200 \<and> resp_body r = ''hi''"
proof -
  have answer: "response_builder demo_api (response_table_of 200 ''OK'' []
      (rt_body (request_seen ''POST'' ''/a?b=1'' ''h'' [] ''hi'' (concat demo_pieces)))) = Inr demo_http_answer"
    unfolding echo_ready(4) by (rule demo_answer_builds)
  note agree = client_and_server_agree [where m = "''POST''" and target = "''/a?b=1''" and host = "''h''" and hs = "[]"
      and body = "''hi''" and api = demo_api and request = "concat demo_pieces" and sv = echo_server and s = echo_peer
      and as = "[]" and ps = demo_pieces and h = "Lua_Function 7" and n = 4096 and ns = "[]" and answer = demo_http_answer
      and st = 200 and reason = "''OK''" and hs' = "[]" and g = rt_body and opts = default_options and env = demo_http_env
      and shown = "\<lambda>_. []" and registered = None and l = "()" and started = 0 and ticks = "[]" and k = "()"]
  have texts: "plain_word ''POST''" "''POST'' \<noteq> ''HEAD''" "plain_word ''/a?b=1''" "clean_text ''h''" "clean_text ''OK''"
      "CHR 0x0A \<notin> set ''OK''" "runnable (Lua_Function 7)"
    by (simp_all add: plain_word_def clean_text_def is_ows_def runnable_def)
  have sizes: "length ''hi'' \<le> max_body_bytes" "length (concat demo_pieces) \<le> max_header_bytes + length ''hi''"
      "length demo_http_answer \<le> 4096"
      "length (rt_body (request_seen ''POST'' ''/a?b=1'' ''h'' [] ''hi'' (concat demo_pieces))) \<le> opt_max_response_bytes default_options"
      "length demo_http_answer + opt_buffer_size default_options
        \<le> 1024 * 1024 + length (rt_body (request_seen ''POST'' ''/a?b=1'' ''h'' [] ''hi'' (concat demo_pieces)))"
    unfolding demo_pieces_length demo_exchange_ready(7-9) echo_ready(4) by (simp_all add: max_header_bytes_def max_body_bytes_def)
  have plain: "\<forall>h \<in> set []. clean_header h \<and> lower_ascii (fst h) \<noteq> ''content-length''" "\<forall>h \<in> set []. clean_header h"
      "\<forall>h \<in> set []. lower_ascii (fst h) \<noteq> ''content-length'' \<and> lower_ascii (fst h) \<noteq> ''transfer-encoding''"
    by simp_all
  have codes: "(100 :: int) \<le> 200" "(200 :: int) \<le> 999" "(200 :: int) \<noteq> 204" "(200 :: int) \<noteq> 304" by simp_all
  from agree [OF texts(1-4) plain(1) sizes(1) demo_built sizes(2) echo_ready(3,1) refl texts(7) echo_ready(2) sizes(3)
      demo_api_int codes texts(5,6) plain(2,3) answer sizes(4,5) demo_exchange_ready(1,3,2)]
  show ?thesis using echo_ready(5) by (elim exE conjE) metis
qed

end
