(* ===== verification/SocketTools.thy ===== *)
theory SocketTools imports Accept begin

text \<open>
  The rest of \<open>socket/Socket.cpp\<close>: \<open>ReceiveLine\<close>, the connecting \<open>SocketClient\<close> and \<open>SocketSelect\<close>. The
  module itself calls none of them. The lemmas show that lines are cut off the stream one by one.
\<close>

section \<open>Lines\<close>

datatype recv_answer = Recv_Byte char | Recv_End | Recv_Failed

definition receive_one :: "peer_socket \<Rightarrow> (recv_answer \<times> peer_socket) option" where
  "receive_one s =
     (if \<not> pk_handle s \<or> pk_reset s then Some (Recv_Failed, s)
      else case peek_probe s of
          None \<Rightarrow> None
        | Some s1 \<Rightarrow>
            if pk_reset s1 then Some (Recv_Failed, s1)
            else (case pk_input s1 of
                c # cs \<Rightarrow> Some (Recv_Byte c, s1\<lparr>pk_input := cs\<rparr>)
              | [] \<Rightarrow> Some (if pk_eof s1 then Recv_End else Recv_Failed, s1)))"

lemma block_for_frame:
  "block_for es s = Some t \<Longrightarrow> inbound t = pk_input s @ arrivals es \<and> same_socket t s \<and> readable t"
proof (induction es s rule: block_for.induct)
  case (1 s)
  then show ?case by (auto simp: inbound_def same_socket_def readable_def split: if_splits)
next
  case (2 d e es s)
  show ?case
  proof (cases "readable s")
    case True
    with 2 show ?thesis by (auto simp: inbound_def same_socket_def readable_def)
  next
    case False
    then have i: "pk_input s = []" by (simp add: readable_def)
    from False 2 have "inbound t = pk_input (happen e (s\<lparr>pk_now := pk_now s + d\<rparr>)) @ arrivals es"
        and t: "same_socket t (happen e (s\<lparr>pk_now := pk_now s + d\<rparr>))" "readable t" by auto
    moreover have "same_socket (happen e (s\<lparr>pk_now := pk_now s + d\<rparr>)) s"
      using happen_frame(3) [of e "s\<lparr>pk_now := pk_now s + d\<rparr>"] by (simp add: same_socket_def)
    ultimately show ?thesis using i same_socket_trans by auto
  qed
qed

lemma peek_probe_frame:
  "peek_probe s = Some t \<Longrightarrow> inbound t = inbound s \<and> same_socket t s"
  using block_for_frame [of "pk_events s" s t] by (auto simp: peek_probe_def inbound_def split: if_splits)

lemma receive_one_byte:
  assumes "receive_one s = Some (Recv_Byte c, t)"
  shows "inbound s = c # inbound t"
proof -
  from assms obtain s1 cs where p: "peek_probe s = Some s1" "pk_input s1 = c # cs" "t = s1\<lparr>pk_input := cs\<rparr>"
    by (auto simp: receive_one_def split: if_splits option.splits list.splits)
  from p(2,3) have "inbound s1 = c # inbound t" by (simp add: inbound_def)
  with peek_probe_frame [OF p(1)] show ?thesis by simp
qed

function receive_line :: "string \<Rightarrow> peer_socket \<Rightarrow> (string \<times> peer_socket) option" where
  "receive_line ret s =
     (case receive_one s of
        None \<Rightarrow> None
      | Some (Recv_End, s1) \<Rightarrow> Some (ret, s1)
      | Some (Recv_Failed, s1) \<Rightarrow> Some ([], s1)
      | Some (Recv_Byte c, s1) \<Rightarrow>
          if c = CHR 0x0A then Some (ret @ [c], s1) else receive_line (ret @ [c]) s1)"
  by pat_completeness auto
termination
  by (relation "measure (\<lambda>(ret, s). length (inbound s))") (auto dest: receive_one_byte)

declare receive_line.simps [simp del]

text \<open>A peer that is connected and stays so.\<close>

definition staying :: "peer_socket \<Rightarrow> bool" where
  "staying s \<longleftrightarrow> pk_handle s \<and> pk_blocking s \<and> \<not> pk_eof s \<and> \<not> pk_reset s
     \<and> (\<forall>(d, e) \<in> set (pk_events s). e \<noteq> Peer_Closes \<and> e \<noteq> Peer_Resets)"

lemma block_for_staying:
  "\<not> pk_eof s \<Longrightarrow> \<not> pk_reset s \<Longrightarrow> \<forall>(d, e) \<in> set es. e \<noteq> Peer_Closes \<and> e \<noteq> Peer_Resets \<Longrightarrow>
   pk_input s @ arrivals es \<noteq> [] \<Longrightarrow>
   \<exists>t. block_for es s = Some t \<and> \<not> pk_eof t \<and> \<not> pk_reset t
     \<and> (\<forall>(d, e) \<in> set (pk_events t). e \<noteq> Peer_Closes \<and> e \<noteq> Peer_Resets)"
proof (induction es s rule: block_for.induct)
  case (1 s)
  then show ?case by (simp add: readable_def)
next
  case (2 d e es s)
  show ?case
  proof (cases "readable s")
    case True
    with 2 show ?thesis by simp
  next
    case False
    let ?h = "happen e (s\<lparr>pk_now := pk_now s + d\<rparr>)"
    have "pk_input s = []" using False by (simp add: readable_def)
    then have "pk_input ?h @ arrivals es \<noteq> []" using 2(5) by simp
    moreover have "\<not> pk_eof ?h" "\<not> pk_reset ?h" using 2(2-4) by (cases e; simp)+
    moreover have "\<forall>(d, e) \<in> set es. e \<noteq> Peer_Closes \<and> e \<noteq> Peer_Resets" using 2(4) by simp
    ultimately show ?thesis using 2(1) False by simp
  qed
qed

lemma receive_one_staying:
  assumes "staying s" and "inbound s = c # rest"
  shows "\<exists>t. receive_one s = Some (Recv_Byte c, t) \<and> staying t \<and> inbound t = rest"
proof -
  have ne: "pk_input s @ arrivals (pk_events s) \<noteq> []" using assms(2) by (simp add: inbound_def)
  have "\<exists>t. peek_probe s = Some t \<and> staying t \<and> readable t"
  proof (cases "readable s")
    case True
    then show ?thesis using assms(1) by (simp add: peek_probe_def)
  next
    case False
    obtain t where t: "block_for (pk_events s) s = Some t" "\<not> pk_eof t" "\<not> pk_reset t"
        "\<forall>(d, e) \<in> set (pk_events t). e \<noteq> Peer_Closes \<and> e \<noteq> Peer_Resets"
      using block_for_staying [of s "pk_events s", OF _ _ _ ne] assms(1) unfolding staying_def by blast
    from block_for_frame [OF t(1)] have "same_socket t s" "readable t" by simp_all
    then show ?thesis using t assms(1) False by (auto simp: staying_def peek_probe_def same_socket_def)
  qed
  then obtain t where t: "peek_probe s = Some t" "staying t" "readable t" by blast
  from t(2,3) obtain a cs where i: "pk_input t = a # cs" by (auto simp: readable_def staying_def neq_Nil_conv)
  have "inbound t = c # rest" using peek_probe_frame [OF t(1)] assms(2) by simp
  with i have "a = c" "inbound (t\<lparr>pk_input := cs\<rparr>) = rest" by (simp_all add: inbound_def)
  moreover have "staying (t\<lparr>pk_input := cs\<rparr>)" using t(2) by (simp add: staying_def)
  ultimately show ?thesis using t(1,2) i assms(1) by (simp add: receive_one_def staying_def)
qed

text \<open>
  C39. Lines: on a socket that blocks, whose peer stays connected, \<open>ReceiveLine\<close> returns the stream up to
  and with its first line feed, however it is cut into pieces, and leaves the rest of the stream.
\<close>

theorem receive_line_cuts_stream:
  assumes "staying s" and "inbound s = line @ CHR 0x0A # rest" and "CHR 0x0A \<notin> set line"
  shows "\<exists>s'. receive_line [] s = Some (line @ [CHR 0x0A], s') \<and> inbound s' = rest \<and> staying s'"
proof -
  have "\<exists>s'. receive_line ret s = Some (ret @ line @ [CHR 0x0A], s') \<and> inbound s' = rest \<and> staying s'" for ret
    using assms
  proof (induction line arbitrary: ret s)
    case Nil
    then obtain t where "receive_one s = Some (Recv_Byte (CHR 0x0A), t)" "staying t" "inbound t = rest"
      using receive_one_staying [of s "CHR 0x0A" rest] by auto
    then show ?case by (subst receive_line.simps) simp
  next
    case (Cons c line)
    then obtain t where t: "receive_one s = Some (Recv_Byte c, t)" "staying t" "inbound t = line @ CHR 0x0A # rest"
      using receive_one_staying [of s c "line @ CHR 0x0A # rest"] by auto
    have "receive_line ret s = receive_line (ret @ [c]) t"
      using t(1) Cons.prems(3) by (subst receive_line.simps) auto
    moreover obtain s' where "receive_line (ret @ [c]) t = Some ((ret @ [c]) @ line @ [CHR 0x0A], s')"
        "inbound s' = rest" "staying s'"
      using Cons.IH [OF t(2,3), of "ret @ [c]"] Cons.prems(3) by auto
    ultimately show ?case by simp
  qed
  from this [of "[]"] show ?thesis by simp
qed

theorem receive_line_cuts_stream_witness:
  "\<exists>s'. receive_line [] (accepted_socket True [(3, Arrives ''a''), (9, Arrives [CHR 0x0A, CHR ''b''])] 0 1) = Some ([CHR ''a'', CHR 0x0A], s')
    \<and> inbound s' = ''b''"
  using receive_line_cuts_stream
    [of "accepted_socket True [(3, Arrives ''a''), (9, Arrives [CHR 0x0A, CHR ''b''])] 0 1" "''a''" "''b''"]
  by (auto simp: staying_def accepted_socket_def inbound_def)

section \<open>SocketClient\<close>

text \<open>
  What the system answers to the constructor; the C library's \<open>errno\<close> and \<open>strerror\<close> are parameters. A
  failure throws a string and the destructor of the base class closes the handle.
\<close>

record client_io =
  ci_wsa_ok :: bool
  ci_socket_ok :: bool
  ci_host_found :: bool
  ci_connect_error :: "nat option"
  ci_errno :: nat

definition socket_client_new :: "(nat \<Rightarrow> string) \<Rightarrow> client_io \<Rightarrow> unit result \<times> handle_op list" where
  "socket_client_new strerror io =
     (if \<not> ci_wsa_ok io then (Inl (Thrown_Text ''Could not start WSA''), [])
      else if \<not> ci_socket_ok io then (Inl (Thrown_Text ''INVALID_SOCKET''), [])
      else if \<not> ci_host_found io then (Inl (Thrown_Text (strerror (ci_errno io))), [Opens 0, Closes 0])
      else case ci_connect_error io of
          Some e \<Rightarrow> (Inl (Thrown_Text (strerror e)), [Opens 0, Closes 0])
        | None \<Rightarrow> (Inr (), [Opens 0]))"

lemma failed_client_closes: "socket_client_new strerror io = (Inl e, ops) \<Longrightarrow> Opens 0 \<in> set ops \<longleftrightarrow> Closes 0 \<in> set ops"
  by (auto simp: socket_client_new_def split: if_splits option.splits)

section \<open>SocketSelect\<close>

text \<open>
  Two sockets by their handles; \<open>select\<close> answers an error or the handles that can be read, after at most
  one microsecond for a selection that does not block.
\<close>

definition select_timeout :: "bool \<Rightarrow> nat option" where
  "select_timeout blocking = (if blocking then None else Some 1)"

definition socket_select ::
    "(nat list \<Rightarrow> nat option \<Rightarrow> nat + nat list) \<Rightarrow> nat \<Rightarrow> nat option \<Rightarrow> bool \<Rightarrow> nat list result" where
  "socket_select select s1 s2 blocking =
     (case select (s1 # (case s2 of None \<Rightarrow> [] | Some s \<Rightarrow> [s])) (select_timeout blocking) of
        Inl e \<Rightarrow> Inl (Thrown_Text ''Error in select'')
      | Inr ready \<Rightarrow> Inr ready)"

definition select_readable :: "nat list \<Rightarrow> nat \<Rightarrow> bool" where
  "select_readable fds s \<longleftrightarrow> s \<in> set fds"

end
