(* ===== verification/Handles.thy ===== *)
theory Handles imports Prelude begin

text \<open>
  The owners of system handles: the template \<open>Handle\<close> (\<open>socket/Handle.h\<close>), the reference count of
  \<open>Socket\<close> (\<open>socket/Socket.cpp\<close>) and the event of \<open>CEventWrapper\<close>. A world keeps the handles
  that have been closed, in order. The lemmas show which operations keep every handle with one owner,
  and, for a locale of services with counted users, that the service runs exactly while it has users.
\<close>

section \<open>Handle\<close>

text \<open>An owner holds a handle or the invalid one; \<open>closes\<close> is what was closed so far.\<close>

datatype owner = Invalid | Owned nat

text \<open>
  The comparisons of two owners are those of the pointers they hold, of which \<open>nullptr\<close> is the least;
  \<open><=\<close> is written as the negation of \<open><\<close>. They make a linear order, as the containers need.
\<close>

instantiation owner :: linorder
begin

definition less_owner :: "owner \<Rightarrow> owner \<Rightarrow> bool" where
  "less_owner a b = (case b of Invalid \<Rightarrow> False | Owned m \<Rightarrow> (case a of Invalid \<Rightarrow> True | Owned n \<Rightarrow> n < m))"

definition less_eq_owner :: "owner \<Rightarrow> owner \<Rightarrow> bool" where
  "less_eq_owner a b = (\<not> b < a)"

instance
  by intro_classes (auto simp: less_owner_def less_eq_owner_def split: owner.splits)

end

lemma sorted_owners: "sort [Owned 7, Invalid, Owned 3] = [Invalid, Owned 3, Owned 7]"
  by (simp add: less_owner_def less_eq_owner_def)

definition handle_close :: "owner \<Rightarrow> nat list \<Rightarrow> owner \<times> nat list" where
  "handle_close h closes = (case h of Invalid \<Rightarrow> (Invalid, closes) | Owned v \<Rightarrow> (Invalid, closes @ [v]))"

definition handle_attach :: "owner \<Rightarrow> owner \<Rightarrow> nat list \<Rightarrow> owner \<times> nat list" where
  "handle_attach v h closes = (v, snd (handle_close h closes))"

definition handle_detach :: "owner \<Rightarrow> owner \<times> owner" where
  "handle_detach h = (h, Invalid)"

text \<open>Move assignment between two different owners: the new left and right, and what was closed.\<close>

definition handle_move :: "owner \<Rightarrow> owner \<Rightarrow> nat list \<Rightarrow> owner \<times> owner \<times> nat list" where
  "handle_move left right closes =
     (case handle_detach right of (v, right1) \<Rightarrow>
        (case handle_attach v left closes of (left1, closes1) \<Rightarrow> (left1, right1, closes1)))"

text \<open>\<open>swap\<close> calls \<open>std::exchange\<close>, which stores the second value in the first and returns the old one.\<close>

definition handle_swap :: "owner \<Rightarrow> owner \<Rightarrow> owner \<times> owner" where
  "handle_swap left right = (right, right)"

definition handle_destroy :: "owner \<Rightarrow> nat list \<Rightarrow> nat list" where
  "handle_destroy h closes = snd (handle_close h closes)"

lemma move_closes_once:
  "case handle_move left right closes of (l, r, cs) \<Rightarrow>
    l = right \<and> r = Invalid \<and> cs = closes @ (case left of Invalid \<Rightarrow> [] | Owned v \<Rightarrow> [v])"
  by (simp add: handle_move_def handle_detach_def handle_attach_def handle_close_def split: owner.splits)

text \<open>After a swap the right handle has two owners and is closed twice, the left one never.\<close>

lemma swap_closes_twice:
  assumes "left = Owned a" and "right = Owned b" and "a \<noteq> b"
  shows "case handle_swap left right of (l, r) \<Rightarrow> handle_destroy r (handle_destroy l []) = [b, b]"
  using assms by (simp add: handle_swap_def handle_destroy_def handle_close_def)

section \<open>CEventWrapper\<close>

definition event_new :: "nat option \<Rightarrow> owner result" where
  "event_new created = (case created of None \<Rightarrow> Inl (Thrown_Text ''no event'') | Some h \<Rightarrow> Inr (Owned h))"

definition event_close :: "owner \<Rightarrow> nat list \<Rightarrow> owner \<times> nat list" where
  "event_close e closes = (case e of Invalid \<Rightarrow> (Invalid, closes) | Owned v \<Rightarrow> (Invalid, closes @ [v]))"

section \<open>A counted service\<close>

text \<open>
  A service that is started for the first user and stopped after the last: what the operations that count
  its users must do to the count and to the number of starts not yet stopped.
\<close>

locale counted_service =
  fixes users :: "'s \<Rightarrow> nat" and starts :: "'s \<Rightarrow> nat"
    and acquire :: "'s \<Rightarrow> 's" and release :: "'s \<Rightarrow> 's"
  assumes acquire_users: "users (acquire s) = users s + 1"
    and acquire_starts: "starts (acquire s) = (if users s = 0 then starts s + 1 else starts s)"
    and release_users: "0 < users s \<Longrightarrow> users (release s) = users s - 1"
    and release_starts: "0 < users s \<Longrightarrow> starts (release s) = (if users s = 1 then starts s - 1 else starts s)"
begin

lemma acquire_balanced: "starts s = (if users s = 0 then 0 else 1) \<Longrightarrow> starts (acquire s) = (if users (acquire s) = 0 then 0 else 1)"
  by (simp add: acquire_users acquire_starts)

lemma release_balanced:
  "0 < users s \<Longrightarrow> starts s = (if users s = 0 then 0 else 1) \<Longrightarrow> starts (release s) = (if users (release s) = 0 then 0 else 1)"
  by (auto simp: release_users release_starts)

text \<open>However many users there are, the service runs exactly while there is one.\<close>

lemma acquire_many:
  "starts s = (if users s = 0 then 0 else 1) \<Longrightarrow>
   users ((acquire ^^ n) s) = users s + n \<and> starts ((acquire ^^ n) s) = (if users s + n = 0 then 0 else 1)"
  by (induction n) (auto simp: acquire_users acquire_starts)

lemma release_many:
  "starts s = (if users s = 0 then 0 else 1) \<Longrightarrow> n \<le> users s \<Longrightarrow>
   users ((release ^^ n) s) = users s - n \<and> starts ((release ^^ n) s) = (if users s - n = 0 then 0 else 1)"
proof (induction n)
  case 0
  then show ?case by simp
next
  case (Suc n)
  then have ih: "users ((release ^^ n) s) = users s - n" "starts ((release ^^ n) s) = (if users s - n = 0 then 0 else 1)"
    by simp_all
  have "0 < users ((release ^^ n) s)" using ih(1) Suc.prems(2) by simp
  then show ?case using ih release_users release_starts release_balanced by (auto simp: Suc_diff_Suc)
qed

end

section \<open>The reference count of Socket\<close>

text \<open>
  The objects name their socket and their counter; the counters are shared. \<open>sw_objects\<close> is the static
  count of objects, \<open>sw_started\<close> how often Winsock was started and not yet cleaned up.
\<close>

record socket_object =
  so_handle :: nat
  so_counter :: nat
  so_closed :: bool

record socket_world =
  sw_counts :: "nat \<Rightarrow> int"
  sw_objects :: nat
  sw_started :: nat
  sw_closes :: "nat list"

definition socket_start :: "socket_world \<Rightarrow> socket_world" where
  "socket_start w =
     (if sw_objects w = 0 then w\<lparr>sw_started := sw_started w + 1\<rparr> else w)\<lparr>sw_objects := sw_objects w + 1\<rparr>"

definition socket_end :: "socket_world \<Rightarrow> socket_world" where
  "socket_end w =
     (let w1 = w\<lparr>sw_objects := sw_objects w - 1\<rparr> in
      if sw_objects w1 = 0 then w1\<lparr>sw_started := sw_started w1 - 1\<rparr> else w1)"

interpretation sockets: counted_service sw_objects sw_started socket_start socket_end
  by unfold_locales (auto simp: socket_start_def socket_end_def Let_def)

definition socket_new :: "nat \<Rightarrow> nat \<Rightarrow> socket_world \<Rightarrow> socket_object \<times> socket_world" where
  "socket_new h counter w =
     (\<lparr>so_handle = h, so_counter = counter, so_closed = False\<rparr>,
      (socket_start w)\<lparr>sw_counts := (sw_counts w)(counter := 1)\<rparr>)"

definition socket_copy :: "socket_object \<Rightarrow> socket_world \<Rightarrow> socket_object \<times> socket_world" where
  "socket_copy other w =
     (\<lparr>so_handle = so_handle other, so_counter = so_counter other, so_closed = False\<rparr>,
      w\<lparr>sw_counts := (sw_counts w)(so_counter other := sw_counts w (so_counter other) + 1),
        sw_objects := sw_objects w + 1\<rparr>)"

definition socket_assign :: "socket_object \<Rightarrow> socket_object \<Rightarrow> socket_world \<Rightarrow> socket_object \<times> socket_world" where
  "socket_assign this other w =
     (this\<lparr>so_handle := so_handle other, so_counter := so_counter other\<rparr>,
      w\<lparr>sw_counts := (sw_counts w)(so_counter other := sw_counts w (so_counter other) + 1),
        sw_objects := sw_objects w + 1\<rparr>)"

definition socket_destroy :: "socket_object \<Rightarrow> socket_world \<Rightarrow> socket_world" where
  "socket_destroy this w =
     (let n = sw_counts w (so_counter this) - 1;
          w1 = w\<lparr>sw_counts := (sw_counts w)(so_counter this := n)\<rparr>;
          w2 = (if n = 0 \<and> \<not> so_closed this then w1\<lparr>sw_closes := sw_closes w1 @ [so_handle this]\<rparr> else w1)
      in socket_end w2)"

definition empty_world :: socket_world where
  "empty_world = \<lparr>sw_counts = (\<lambda>_. 0), sw_objects = 0, sw_started = 0, sw_closes = []\<rparr>"

text \<open>Whatever number of sockets is opened and destroyed, Winsock is started while there is one.\<close>

lemma winsock_while_sockets:
  assumes "m \<le> n"
  shows "sw_started ((socket_end ^^ m) ((socket_start ^^ n) empty_world)) = (if n - m = 0 then 0 else 1)"
proof -
  have "sw_objects ((socket_start ^^ n) empty_world) = n \<and>
      sw_started ((socket_start ^^ n) empty_world) = (if n = 0 then 0 else 1)"
    using sockets.acquire_many [of empty_world n] by (simp add: empty_world_def)
  with sockets.release_many [of "(socket_start ^^ n) empty_world" m] assms show ?thesis by simp
qed

text \<open>Copies: the handle is closed when the last of them is destroyed, and once.\<close>

definition world :: "(nat \<Rightarrow> int) \<Rightarrow> nat \<Rightarrow> nat list \<Rightarrow> socket_world" where
  "world counts n closes = \<lparr>sw_counts = counts, sw_objects = n, sw_started = (if n = 0 then 0 else 1), sw_closes = closes\<rparr>"

lemma world_steps:
  "socket_new h c (world counts n closes) =
    (\<lparr>so_handle = h, so_counter = c, so_closed = False\<rparr>, world (counts(c := 1)) (n + 1) closes)"
  "0 < n \<Longrightarrow> socket_copy a (world counts n closes) =
    (a\<lparr>so_closed := False\<rparr>, world (counts(so_counter a := counts (so_counter a) + 1)) (n + 1) closes)"
  "0 < n \<Longrightarrow> socket_assign a b (world counts n closes) =
    (a\<lparr>so_handle := so_handle b, so_counter := so_counter b\<rparr>,
     world (counts(so_counter b := counts (so_counter b) + 1)) (n + 1) closes)"
  "0 < n \<Longrightarrow> socket_destroy a (world counts n closes) =
    world (counts(so_counter a := counts (so_counter a) - 1)) (n - 1)
      (if counts (so_counter a) = 1 \<and> \<not> so_closed a then closes @ [so_handle a] else closes)"
  by (auto simp: world_def socket_new_def socket_copy_def socket_assign_def socket_destroy_def socket_start_def
      socket_end_def Let_def)

lemma empty_is_world: "empty_world = world (\<lambda>_. 0) 0 []"
  by (simp add: empty_world_def world_def)

lemma copies_close_once:
  assumes "socket_new h n empty_world = (a, w1)" and "socket_copy a w1 = (b, w2)"
  shows "sw_closes (socket_destroy a w2) = [] \<and> sw_closes (socket_destroy b (socket_destroy a w2)) = [h]
    \<and> sw_started w2 = 1 \<and> sw_started (socket_destroy b (socket_destroy a w2)) = 0"
proof -
  have a: "a = \<lparr>so_handle = h, so_counter = n, so_closed = False\<rparr>" and w1: "w1 = world ((\<lambda>_. 0)(n := 1)) 1 []"
    using assms(1) by (simp_all add: empty_is_world world_steps)
  have b: "b = a" and w2: "w2 = world ((\<lambda>_. 0)(n := 2)) 2 []"
    using assms(2) by (auto simp: a w1 world_steps numeral_2_eq_2)
  have "socket_destroy a w2 = world ((\<lambda>_. 0)(n := 1)) 1 []"
    by (simp add: a w2 world_steps)
  moreover have "socket_destroy b (world ((\<lambda>_. 0)(n := 1)) 1 []) = world ((\<lambda>_. 0)(n := 0)) 0 [h]"
    by (simp add: a b world_steps)
  ultimately show ?thesis by (simp add: w2 world_def)
qed

text \<open>An assignment: the handle the left side had is never closed, and Winsock is never released.\<close>

lemma assignment_leaks:
  assumes "socket_new h n empty_world = (a, w1)" and "socket_new k m w1 = (b, w2)" and "n \<noteq> m" and "h \<noteq> k"
    and "socket_assign a b w2 = (a', w3)"
  shows "h \<notin> set (sw_closes (socket_destroy b (socket_destroy a' w3))) \<and> sw_started (socket_destroy b (socket_destroy a' w3)) = 1"
proof -
  have a: "a = \<lparr>so_handle = h, so_counter = n, so_closed = False\<rparr>" and w1: "w1 = world ((\<lambda>_. 0)(n := 1)) 1 []"
    using assms(1) by (simp_all add: empty_is_world world_steps)
  have b: "b = \<lparr>so_handle = k, so_counter = m, so_closed = False\<rparr>" and w2: "w2 = world ((\<lambda>_. 0)(n := 1, m := 1)) 2 []"
    using assms(2) by (auto simp: w1 world_steps numeral_2_eq_2)
  have a': "a' = b" and w3: "w3 = world ((\<lambda>_. 0)(n := 1, m := 2)) 3 []"
    using assms(5) by (simp_all add: a b w2 world_steps)
  have "socket_destroy a' w3 = world ((\<lambda>_. 0)(n := 1, m := 1)) 2 []"
    by (simp add: a' b w3 world_steps)
  moreover have "socket_destroy b (world ((\<lambda>_. 0)(n := 1, m := 1)) 2 []) = world ((\<lambda>_. 0)(n := 1, m := 0)) 1 [k]"
    by (simp add: b world_steps)
  ultimately show ?thesis using assms(4) by (simp add: world_def)
qed

end
