(* ===== verification/AsyncConnection.thy ===== *)
theory AsyncConnection imports Handles begin

text \<open>
  \<open>AsyncConnection\<close> (\<open>connection.cpp\<close>): a non-blocking connection that is polled. What Winsock answers
  during a poll is its argument. Beside the detailed operations stands an abstract machine, the phases of
  a connection as a step relation; every poll is a step of it or changes nothing that it sees, and the
  invariants are proved on it. The use of Winsock by several connections is a counted service.
\<close>

section \<open>The connections of the process\<close>

record async_statics =
  active_connections :: nat
  wsa_data :: bool
  wsa_started :: nat

definition async_acquire :: "async_statics \<Rightarrow> async_statics" where
  "async_acquire w =
     (if active_connections w = 0 then w\<lparr>wsa_data := True, wsa_started := wsa_started w + 1\<rparr> else w)
       \<lparr>active_connections := active_connections w + 1\<rparr>"

definition async_release :: "async_statics \<Rightarrow> async_statics" where
  "async_release w =
     (let w1 = w\<lparr>active_connections := active_connections w - 1\<rparr> in
      if active_connections w1 = 0 then w1\<lparr>wsa_data := False, wsa_started := wsa_started w1 - 1\<rparr> else w1)"

interpretation connections: counted_service active_connections wsa_started async_acquire async_release
  by unfold_locales (auto simp: async_acquire_def async_release_def Let_def)

section \<open>One connection\<close>

record async_connection =
  ac_socket :: bool
  ac_valid :: bool
  ac_request :: string
  ac_response :: string
  ac_state :: nat
  ac_start_time :: nat
  ac_sent :: "string list"

text \<open>The constructor: without a socket or an address the connection exists but is not valid.\<close>

definition async_new :: "bool \<Rightarrow> bool \<Rightarrow> nat \<Rightarrow> async_statics \<Rightarrow> async_connection \<times> async_statics" where
  "async_new socket_ok host_ok now w =
     (\<lparr>ac_socket = socket_ok, ac_valid = (socket_ok \<and> host_ok), ac_request = [], ac_response = [], ac_state = 0,
       ac_start_time = now, ac_sent = []\<rparr>, async_acquire w)"

text \<open>
  What Winsock answers during a poll: the error of \<open>connect\<close>; the errors of \<open>WSASend\<close> and \<open>WSARecv\<close>; the
  results of the overlapped operations (an error, or what was transferred); whether \<open>select\<close> failed and
  whether the socket is readable; and the tick count.
\<close>

record async_io =
  connect_error :: "nat option"
  wsa_send_error :: "nat option"
  send_result :: "nat + nat"
  select_error :: "nat option"
  read_ready :: bool
  wsa_recv_error :: "nat option"
  recv_result :: "nat + string"
  tick_count :: nat

definition wsaeisconn :: nat where "wsaeisconn = 10056"
definition wsa_io_incomplete :: nat where "wsa_io_incomplete = 996"
definition io_pending :: nat where "io_pending = 997"
definition would_block :: nat where "would_block = 10035"

definition async_start :: "async_io \<Rightarrow> string \<Rightarrow> async_connection \<Rightarrow> async_connection" where
  "async_start io r c =
     (if \<not> ac_valid c then c
      else let c1 = c\<lparr>ac_request := r\<rparr> in
        if connect_error io = Some wsaeisconn then c1\<lparr>ac_state := 1\<rparr> else c1)"

text \<open>\<open>Send\<close>: every \<open>WSASend\<close> that is accepted puts the whole request on its way.\<close>

definition async_send :: "async_io \<Rightarrow> async_connection \<Rightarrow> bool \<times> async_connection" where
  "async_send io c =
     (if ac_request c = [] then (False, c)
      else if wsa_send_error io \<noteq> None \<and> wsa_send_error io \<noteq> Some io_pending then (False, c)
      else let c1 = c\<lparr>ac_sent := ac_sent c @ [ac_request c]\<rparr> in
        (case send_result io of
           Inl e \<Rightarrow> (False, c1)
         | Inr n \<Rightarrow> (n \<noteq> 0, c1)))"

text \<open>
  \<open>Recv\<close>: true means that there is nothing more to come. \<open>WSAGetOverlappedResult\<close> answers a \<open>BOOL\<close>, so the
  comparison with \<open>SOCKET_ERROR\<close> never holds: on a failure the count stays 0 and that is the end.
\<close>

definition async_recv :: "async_io \<Rightarrow> async_connection \<Rightarrow> bool \<times> async_connection" where
  "async_recv io c =
     (if select_error io \<noteq> None \<and> select_error io \<noteq> Some would_block then (False, c)
      else if \<not> read_ready io then (False, c)
      else if wsa_recv_error io \<noteq> None \<and> wsa_recv_error io \<noteq> Some io_pending then (False, c)
      else case recv_result io of
          Inl e \<Rightarrow> (True, c)
        | Inr d \<Rightarrow> if d = [] then (True, c) else (False, c\<lparr>ac_response := ac_response c @ d\<rparr>))"

definition async_reconnect :: "async_connection \<Rightarrow> async_connection" where
  "async_reconnect c = c\<lparr>ac_state := 0\<rparr>"

text \<open>The part of a poll in state 2, which a finished send falls through to.\<close>

definition poll_receiving :: "async_io \<Rightarrow> async_connection \<Rightarrow> bool \<times> async_connection" where
  "poll_receiving io c =
     (if ac_start_time c + 30000 < tick_count io then (False, async_reconnect c)
      else case async_recv io c of
          (False, c1) \<Rightarrow> (False, c1)
        | (True, c1) \<Rightarrow> (True, c1\<lparr>ac_state := 3\<rparr>))"

definition async_poll :: "async_io \<Rightarrow> async_connection \<Rightarrow> bool \<times> async_connection" where
  "async_poll io c =
     (if \<not> ac_valid c then (False, c)
      else if ac_state c = 0 then (False, async_start io (ac_request c) c)
      else if ac_state c = 1
      then (case async_send io c of
              (False, c1) \<Rightarrow> (False, c1)
            | (True, c1) \<Rightarrow> poll_receiving io (c1\<lparr>ac_state := 2\<rparr>))
      else if ac_state c = 2 then poll_receiving io c
      else (True, c))"

definition async_destroy :: "async_connection \<Rightarrow> async_statics \<Rightarrow> async_connection \<times> async_statics" where
  "async_destroy c w = (c\<lparr>ac_valid := False, ac_socket := False\<rparr>, async_release w)"

section \<open>The calls of a connection\<close>

text \<open>What a user does with a connection: it starts a request, or it polls; the answers of the polls in order.\<close>

datatype async_call = Start_Call async_io string | Poll_Call async_io

fun async_calls :: "async_call list \<Rightarrow> async_connection \<Rightarrow> bool list \<times> async_connection" where
  "async_calls [] c = ([], c)"
| "async_calls (Start_Call io r # cs) c = async_calls cs (async_start io r c)"
| "async_calls (Poll_Call io # cs) c =
     (case async_poll io c of (b, c1) \<Rightarrow> (case async_calls cs c1 of (bs, c2) \<Rightarrow> (b # bs, c2)))"

fun_cases async_calls_PollE: "async_calls (Poll_Call io # cs) c = (bs, c')"

definition polls :: "async_io list \<Rightarrow> async_connection \<Rightarrow> bool list \<times> async_connection" where
  "polls ios = async_calls (map Poll_Call ios)"

text \<open>What a call is for the machine below: the request it starts, or a poll.\<close>

primrec call_label :: "async_call \<Rightarrow> string option" where
  "call_label (Start_Call io r) = Some r"
| "call_label (Poll_Call io) = None"

section \<open>The phases of a connection\<close>

text \<open>
  What a user of a connection sees: its phase, the request it holds, the requests handed over so far, and
  the response so far. A poll is a sequence of the steps of \<open>async_step\<close>, a start is one of \<open>start_step\<close>:
  it takes the new request, and when the socket is connected it goes back to sending from any phase.
\<close>

datatype phase = Connecting | Sending | Receiving | Done

record async_view =
  av_phase :: phase
  av_request :: string
  av_sends :: "string list"
  av_response :: string

inductive async_step :: "async_view \<Rightarrow> async_view \<Rightarrow> bool" where
  connected: "av_phase v = Connecting \<Longrightarrow> async_step v (v\<lparr>av_phase := Sending\<rparr>)"
| send_again: "av_phase v = Sending \<Longrightarrow> av_request v \<noteq> [] \<Longrightarrow>
    async_step v (v\<lparr>av_sends := av_sends v @ [av_request v]\<rparr>)"
| request_out: "av_phase v = Sending \<Longrightarrow> av_request v \<noteq> [] \<Longrightarrow>
    async_step v (v\<lparr>av_phase := Receiving, av_sends := av_sends v @ [av_request v]\<rparr>)"
| reconnect: "av_phase v = Receiving \<Longrightarrow> async_step v (v\<lparr>av_phase := Connecting\<rparr>)"
| receive: "av_phase v = Receiving \<Longrightarrow> d \<noteq> [] \<Longrightarrow> async_step v (v\<lparr>av_response := av_response v @ d\<rparr>)"
| finish: "av_phase v = Receiving \<Longrightarrow> async_step v (v\<lparr>av_phase := Done\<rparr>)"

inductive start_step :: "string \<Rightarrow> async_view \<Rightarrow> async_view \<Rightarrow> bool" where
  refused: "start_step r v v"
| taken: "start_step r v (v\<lparr>av_request := r\<rparr>)"
| restarted: "start_step r v (v\<lparr>av_request := r, av_phase := Sending\<rparr>)"

inductive async_run :: "string option list \<Rightarrow> async_view \<Rightarrow> async_view \<Rightarrow> bool" where
  stop: "async_run [] v v"
| start: "start_step r v w \<Longrightarrow> async_run ls w u \<Longrightarrow> async_run (Some r # ls) v u"
| poll: "async_step\<^sup>*\<^sup>* v w \<Longrightarrow> async_run ls w u \<Longrightarrow> async_run (None # ls) v u"

inductive_cases async_step_elim: "async_step v w"

definition view_of :: "async_connection \<Rightarrow> async_view" where
  "view_of c =
     \<lparr>av_phase = (if ac_state c = 0 then Connecting else if ac_state c = 1 then Sending
                  else if ac_state c = 2 then Receiving else Done),
      av_request = ac_request c, av_sends = ac_sent c, av_response = ac_response c\<rparr>"

definition initial_view :: async_view where
  "initial_view = \<lparr>av_phase = Connecting, av_request = [], av_sends = [], av_response = []\<rparr>"

text \<open>
  The invariant of the phases, for the requests started so far: nothing is received before a request was
  sent, and what is sent is one of the requests, none of them empty.
\<close>

definition view_ok :: "string set \<Rightarrow> async_view \<Rightarrow> bool" where
  "view_ok R v \<longleftrightarrow> (av_phase v = Receiving \<or> av_phase v = Done \<or> av_response v \<noteq> [] \<longrightarrow> av_sends v \<noteq> [])
     \<and> (av_request v \<noteq> [] \<longrightarrow> av_request v \<in> R) \<and> (\<forall>m \<in> set (av_sends v). m \<noteq> [] \<and> m \<in> R)"

lemma step_ok: "async_step v w \<Longrightarrow> view_ok R v \<Longrightarrow> view_ok R w"
  by (induction rule: async_step.induct) (auto simp: view_ok_def)

lemma steps_ok: "async_step\<^sup>*\<^sup>* v w \<Longrightarrow> view_ok R v \<Longrightarrow> view_ok R w"
  by (induction rule: rtranclp_induct) (auto intro: step_ok)

lemma start_ok: "start_step r v w \<Longrightarrow> view_ok R v \<Longrightarrow> view_ok (insert r R) w"
  by (induction rule: start_step.induct) (auto simp: view_ok_def)

lemma run_ok: "async_run ls v w \<Longrightarrow> view_ok R v \<Longrightarrow> view_ok (R \<union> {m. Some m \<in> set ls}) w"
proof (induction arbitrary: R rule: async_run.induct)
  case (start r v w ls u)
  have "insert r R \<union> {m. Some m \<in> set ls} = R \<union> {m. Some m \<in> set (Some r # ls)}" by auto
  with start.IH [OF start_ok [OF start(1) start.prems]] show ?case by simp
next
  case (poll v w ls u)
  then show ?case using steps_ok by simp
qed simp

lemma step_monotone: "async_step v w \<Longrightarrow> (\<exists>m. av_sends w = av_sends v @ m) \<and> (\<exists>d. av_response w = av_response v @ d)"
  by (induction rule: async_step.induct) auto

lemma steps_monotone: "async_step\<^sup>*\<^sup>* v w \<Longrightarrow> (\<exists>m. av_sends w = av_sends v @ m) \<and> (\<exists>d. av_response w = av_response v @ d)"
proof (induction rule: rtranclp_induct)
  case (step w u)
  then show ?case using step_monotone [OF step(2)] by (metis append.assoc)
qed simp

lemma run_monotone: "async_run ls v w \<Longrightarrow> (\<exists>m. av_sends w = av_sends v @ m) \<and> (\<exists>d. av_response w = av_response v @ d)"
proof (induction rule: async_run.induct)
  case (start r v w ls u)
  then show ?case by (cases rule: start_step.cases) auto
next
  case (poll v w ls u)
  then show ?case using steps_monotone [OF poll(1)] by (metis append.assoc)
qed simp

section \<open>Calls are steps\<close>

lemmas poll_defs = async_poll_def poll_receiving_def async_start_def async_send_def async_recv_def async_reconnect_def
  view_of_def Let_def

lemma receiving_steps:
  assumes "ac_state c = 2" and "poll_receiving io c = (b, c')"
  shows "(view_of c' = view_of c \<or> async_step (view_of c) (view_of c')) \<and> (b \<longleftrightarrow> ac_state c' = 3) \<and> ac_valid c' = ac_valid c"
proof -
  have r: "av_phase (view_of c) = Receiving" using assms(1) by (simp add: view_of_def)
  consider "view_of c' = (view_of c)\<lparr>av_phase := Connecting\<rparr>" "\<not> b" "ac_state c' = 0"
    | "view_of c' = view_of c" "\<not> b" "ac_state c' = 2"
    | d where "d \<noteq> []" "view_of c' = (view_of c)\<lparr>av_response := av_response (view_of c) @ d\<rparr>" "\<not> b" "ac_state c' = 2"
    | "view_of c' = (view_of c)\<lparr>av_phase := Done\<rparr>" "b" "ac_state c' = 3"
    using assms by (auto simp: poll_defs split: if_splits sum.splits bool.splits)
  moreover have "ac_valid c' = ac_valid c"
    using assms(2) by (auto simp: poll_defs split: if_splits sum.splits bool.splits)
  ultimately show ?thesis
    using async_step.reconnect [OF r] async_step.receive [OF r] async_step.finish [OF r] by cases auto
qed

lemma poll_steps:
  assumes "async_poll io c = (b, c')"
  shows "async_step\<^sup>*\<^sup>* (view_of c) (view_of c') \<and> (b \<longrightarrow> 3 \<le> ac_state c')"
proof -
  consider "\<not> ac_valid c" | "ac_valid c" "ac_state c = 0" | "ac_valid c" "ac_state c = 1"
    | "ac_valid c" "ac_state c = 2" | "ac_valid c" "3 \<le> ac_state c" by linarith
  then show ?thesis
  proof cases
    case 1
    then show ?thesis using assms by (simp add: async_poll_def)
  next
    case 2
    then have "av_phase (view_of c) = Connecting" by (simp add: view_of_def)
    note step = async_step.connected [OF this]
    have "view_of c' = view_of c \<or> view_of c' = (view_of c)\<lparr>av_phase := Sending\<rparr>" "\<not> b"
      using assms 2 by (auto simp: poll_defs split: if_splits)
    then show ?thesis using step by auto
  next
    case 3
    then have s: "av_phase (view_of c) = Sending" by (simp add: view_of_def)
    obtain ok c1 where snd: "async_send io c = (ok, c1)" by force
    show ?thesis
    proof (cases ok)
      case False
      then have "view_of c' = view_of c \<or> av_request (view_of c) \<noteq> []
          \<and> view_of c' = (view_of c)\<lparr>av_sends := av_sends (view_of c) @ [av_request (view_of c)]\<rparr>" "\<not> b"
        using assms 3 snd by (auto simp: poll_defs split: if_splits sum.splits bool.splits)
      then show ?thesis using async_step.send_again [OF s] by auto
    next
      case True
      let ?c2 = "c1\<lparr>ac_state := 2\<rparr>"
      have p: "poll_receiving io ?c2 = (b, c')" using assms 3 snd True by (simp add: async_poll_def)
      have "av_request (view_of c) \<noteq> []
          \<and> view_of ?c2 = (view_of c)\<lparr>av_phase := Receiving, av_sends := av_sends (view_of c) @ [av_request (view_of c)]\<rparr>"
        using snd 3 True by (auto simp: async_send_def view_of_def Let_def split: if_splits sum.splits)
      then have "async_step (view_of c) (view_of ?c2)" using async_step.request_out [OF s] by simp
      moreover have "view_of c' = view_of ?c2 \<or> async_step (view_of ?c2) (view_of c')" "b \<longrightarrow> 3 \<le> ac_state c'"
        using receiving_steps [OF _ p] by simp_all
      ultimately show ?thesis by (auto intro: converse_rtranclp_into_rtranclp)
    qed
  next
    case 4
    then have p: "poll_receiving io c = (b, c')" using assms by (simp add: async_poll_def)
    from receiving_steps [OF 4(2) this] show ?thesis by auto
  next
    case 5
    then show ?thesis using assms by (auto simp: async_poll_def)
  qed
qed

lemma start_steps: "start_step r (view_of c) (view_of (async_start io r c))"
proof -
  have "view_of (async_start io r c) = view_of c \<or> view_of (async_start io r c) = (view_of c)\<lparr>av_request := r\<rparr>
      \<or> view_of (async_start io r c) = (view_of c)\<lparr>av_request := r, av_phase := Sending\<rparr>"
    by (simp add: async_start_def Let_def view_of_def)
  then show ?thesis using start_step.intros [where r = r and v = "view_of c"] by metis
qed

lemma calls_run: "async_calls cs c = (bs, c') \<Longrightarrow> async_run (map call_label cs) (view_of c) (view_of c')"
proof (induction cs arbitrary: c bs)
  case Nil
  then show ?case by (simp add: async_run.stop)
next
  case (Cons k cs)
  show ?case
  proof (cases k)
    case (Start_Call io r)
    with Cons have "async_run (map call_label cs) (view_of (async_start io r c)) (view_of c')" by simp
    from async_run.start [OF start_steps this] show ?thesis using Start_Call by simp
  next
    case (Poll_Call io)
    with Cons.prems obtain b c1 bs' where p: "async_poll io c = (b, c1)" "async_calls cs c1 = (bs', c')"
      by (auto split: prod.splits)
    have "async_step\<^sup>*\<^sup>* (view_of c) (view_of c1)" using poll_steps [OF p(1)] by blast
    from async_run.poll [OF this Cons.IH [OF p(2)]] show ?thesis using Poll_Call by simp
  qed
qed

lemma calls_append:
  "async_calls (cs @ ds) c = (case async_calls cs c of (bs, c1) \<Rightarrow> (case async_calls ds c1 of (bs', c2) \<Rightarrow> (bs @ bs', c2)))"
  by (induction cs c rule: async_calls.induct) (simp_all split: prod.splits)

text \<open>A poll that answers true leaves a connection that is done: every further poll says so and changes nothing.\<close>

lemma true_poll_done: "async_poll io c = (True, c') \<Longrightarrow> ac_valid c' \<and> 3 \<le> ac_state c'"
  using poll_steps [of io c True c']
  by (auto simp: poll_defs split: if_splits sum.splits prod.splits bool.splits)

lemma polls_done: "ac_valid c \<Longrightarrow> 3 \<le> ac_state c \<Longrightarrow> polls ios c = (replicate (length ios) True, c)"
  by (induction ios) (simp_all add: polls_def async_poll_def)

section \<open>An exchange that succeeds\<close>

definition accepts_request :: "async_io \<Rightarrow> bool" where
  "accepts_request io \<longleftrightarrow> wsa_send_error io \<in> {None, Some io_pending} \<and> (\<exists>n. send_result io = Inr n \<and> 0 < n)"

definition delivers :: "nat \<Rightarrow> async_io \<Rightarrow> string \<Rightarrow> bool" where
  "delivers start_time io d \<longleftrightarrow> tick_count io \<le> start_time + 30000 \<and> select_error io \<in> {None, Some would_block}
     \<and> read_ready io \<and> wsa_recv_error io \<in> {None, Some io_pending} \<and> recv_result io = Inr d"

lemma receiving_delivers:
  "delivers (ac_start_time c) io d \<Longrightarrow> poll_receiving io c =
     (if d = [] then (True, c\<lparr>ac_state := 3\<rparr>) else (False, c\<lparr>ac_response := ac_response c @ d\<rparr>))"
  by (auto simp: delivers_def poll_defs)

lemma polls_receive:
  "list_all2 (delivers (ac_start_time c)) ios (ds @ [[]]) \<Longrightarrow> [] \<notin> set ds \<Longrightarrow> ac_valid c \<Longrightarrow> ac_state c = 2 \<Longrightarrow>
     polls ios c = (replicate (length ds) False @ [True], c\<lparr>ac_response := ac_response c @ concat ds, ac_state := 3\<rparr>)"
proof (induction ds arbitrary: ios c)
  case Nil
  then obtain io where "ios = [io]" "delivers (ac_start_time c) io []" by (auto simp: list_all2_Cons2)
  then show ?case using Nil receiving_delivers [of c io "[]"] by (simp add: polls_def async_poll_def)
next
  case (Cons d ds)
  then obtain io ios' where io: "ios = io # ios'" "delivers (ac_start_time c) io d"
      "list_all2 (delivers (ac_start_time c)) ios' (ds @ [[]])" by (auto simp: list_all2_Cons2)
  let ?c = "c\<lparr>ac_response := ac_response c @ d\<rparr>"
  have "d \<noteq> []" using Cons.prems(2) by auto
  then have "async_poll io c = (False, ?c)"
    using Cons.prems(3,4) receiving_delivers [OF io(2)] by (simp add: async_poll_def)
  moreover have "polls ios' ?c = (replicate (length ds) False @ [True], ?c\<lparr>ac_response := ac_response ?c @ concat ds, ac_state := 3\<rparr>)"
    using Cons.prems(2-4) io(3) Cons.IH [of ?c ios'] by simp
  ultimately show ?case by (simp add: io(1) polls_def)
qed

text \<open>
  A request that Winsock serves within half a minute: the polls answer false until the end of the
  response, the last one answers true, the request went out once, and the response is all that came.
\<close>

lemma exchange_succeeds:
  assumes "r \<noteq> []" and "connect_error io = Some wsaeisconn" and "ios \<noteq> []" and "accepts_request (hd ios)"
    and "list_all2 (delivers now) ios (ds @ [[]])" and "[] \<notin> set ds"
  shows "\<exists>c. async_calls (Start_Call io r # map Poll_Call ios) (fst (async_new True True now w)) =
      (replicate (length ds) False @ [True], c) \<and> ac_sent c = [r] \<and> ac_response c = concat ds \<and> av_phase (view_of c) = Done"
proof -
  let ?c0 = "fst (async_new True True now w)\<lparr>ac_request := r, ac_state := 1\<rparr>"
    and ?c2 = "fst (async_new True True now w)\<lparr>ac_request := r, ac_sent := [r], ac_state := 2\<rparr>"
  have start: "async_start io r (fst (async_new True True now w)) = ?c0"
    using assms(2) by (simp add: async_start_def async_new_def)
  obtain io1 ios1 where ios: "ios = io1 # ios1" using assms(3) by (cases ios) auto
  have "async_send io1 ?c0 = (True, ?c0\<lparr>ac_sent := [r]\<rparr>)"
    using assms(1,4) by (auto simp: async_send_def accepts_request_def ios async_new_def Let_def)
  then have first: "async_poll io1 ?c0 = poll_receiving io1 ?c2" by (simp add: async_poll_def async_new_def)
  have "async_poll io1 ?c2 = poll_receiving io1 ?c2" by (simp add: async_poll_def async_new_def)
  then have "polls ios ?c0 = polls ios ?c2" using first by (simp add: polls_def ios)
  also have "\<dots> = (replicate (length ds) False @ [True], ?c2\<lparr>ac_response := ac_response ?c2 @ concat ds, ac_state := 3\<rparr>)"
    using assms(5,6) by (intro polls_receive) (simp_all add: async_new_def)
  finally show ?thesis using start by (simp add: polls_def async_new_def view_of_def)
qed

text \<open>
  C9. The calls of a connection refine its phases. From a new connection, whatever Winsock answers and
  however starts and polls follow each other, the calls run along the machine; nothing is received before
  a request was sent, every request sent is one that was started and not empty, later calls only add to
  what was sent and received, and after a poll that answered true every further poll says the same and
  changes nothing, until the next start. And a request that is started on a connected socket, handed over
  and answered in pieces within half a minute completes: the polls answer false until the end, then true,
  the request was sent once and the response is the pieces in order.
\<close>

theorem polls_refine_phases:
  assumes "async_calls calls (fst (async_new socket_ok host_ok now w)) = (bs, c)"
  shows "async_run (map call_label calls) initial_view (view_of c)
    \<and> (ac_response c \<noteq> [] \<or> 2 \<le> ac_state c \<longrightarrow> ac_sent c \<noteq> [])
    \<and> (\<forall>m \<in> set (ac_sent c). m \<noteq> [] \<and> (\<exists>io. Start_Call io m \<in> set calls))
    \<and> (\<forall>calls' bs' c'. async_calls calls' c = (bs', c') \<longrightarrow>
          (\<exists>m. ac_sent c' = ac_sent c @ m) \<and> (\<exists>d. ac_response c' = ac_response c @ d))
    \<and> (\<forall>io cs ios. calls = cs @ [Poll_Call io] \<and> List.last bs \<longrightarrow> polls ios c = (replicate (length ios) True, c))
    \<and> (\<forall>r io ios ds. r \<noteq> [] \<and> connect_error io = Some wsaeisconn \<and> ios \<noteq> [] \<and> accepts_request (hd ios)
          \<and> list_all2 (delivers now) ios (ds @ [[]]) \<and> [] \<notin> set ds \<longrightarrow>
          (\<exists>e. async_calls (Start_Call io r # map Poll_Call ios) (fst (async_new True True now w)) =
             (replicate (length ds) False @ [True], e) \<and> ac_sent e = [r] \<and> ac_response e = concat ds))"
proof -
  have i: "view_of (fst (async_new socket_ok host_ok now w)) = initial_view"
    by (simp add: async_new_def view_of_def initial_view_def)
  have run: "async_run (map call_label calls) initial_view (view_of c)" using calls_run [OF assms] unfolding i .
  have "view_ok {} initial_view" by (simp add: view_ok_def initial_view_def)
  from run_ok [OF run this] have ok: "view_ok {m. Some m \<in> set (map call_label calls)} (view_of c)" by simp
  have labels: "\<exists>io. Start_Call io m \<in> set calls" if "Some m \<in> set (map call_label calls)" for m
  proof -
    from that obtain k where k: "k \<in> set calls" "call_label k = Some m" by auto
    from k(2) obtain io where "k = Start_Call io m" by (cases k) simp_all
    with k(1) show ?thesis by blast
  qed
  have grow: "(\<exists>m. ac_sent c' = ac_sent c @ m) \<and> (\<exists>d. ac_response c' = ac_response c @ d)"
    if "async_calls calls' c = (bs', c')" for calls' bs' c'
    using run_monotone [OF calls_run [OF that]] by (simp add: view_of_def)
  have final: "polls ios c = (replicate (length ios) True, c)" if ends: "calls = cs @ [Poll_Call io]" "List.last bs" for cs io ios
  proof -
    obtain bs1 c1 b where "async_poll io c1 = (b, c)" "bs = bs1 @ [b]"
      using assms unfolding ends(1) calls_append by (auto split: prod.splits)
    then show ?thesis using true_poll_done polls_done ends(2) by simp
  qed
  have v: "av_sends (view_of c) = ac_sent c" "av_response (view_of c) = ac_response c" by (simp_all add: view_of_def)
  have phase: "av_phase (view_of c) = Receiving \<or> av_phase (view_of c) = Done" if "2 \<le> ac_state c"
    using that by (simp add: view_of_def)
  have sends: "ac_response c \<noteq> [] \<or> 2 \<le> ac_state c \<longrightarrow> ac_sent c \<noteq> []"
    using ok phase unfolding view_ok_def v by blast
  have known: "\<forall>m \<in> set (ac_sent c). m \<noteq> [] \<and> (\<exists>io. Start_Call io m \<in> set calls)"
    using ok labels unfolding view_ok_def v by blast
  have served: "\<exists>e. async_calls (Start_Call io r # map Poll_Call ios) (fst (async_new True True now w)) =
        (replicate (length ds) False @ [True], e) \<and> ac_sent e = [r] \<and> ac_response e = concat ds"
    if "r \<noteq> [] \<and> connect_error io = Some wsaeisconn \<and> ios \<noteq> [] \<and> accepts_request (hd ios)
          \<and> list_all2 (delivers now) ios (ds @ [[]]) \<and> [] \<notin> set ds" for r io ios ds
    using exchange_succeeds [of r io ios now ds w] that by blast
  show ?thesis
    by (intro conjI run sends known) (use grow in blast, use final in blast, use served in blast)
qed

text \<open>
  A send that Windows leaves pending is not waited for: the poll reports nothing and the next one hands
  the whole request over again; a receive left pending counts as the end of the response. And half a minute after its construction a connection never gets an
  answer any more, because the start time is not set anew: it reconnects at every poll in which it would
  receive.
\<close>

lemma pending_send_repeats:
  assumes "ac_valid c" and "ac_state c = 1" and "ac_request c \<noteq> []"
    and "wsa_send_error io = Some io_pending" and "send_result io = Inl wsa_io_incomplete"
  shows "polls [io, io] c = ([False, False], c\<lparr>ac_sent := ac_sent c @ [ac_request c, ac_request c]\<rparr>)"
  using assms by (simp add: polls_def poll_defs)

lemma failed_receive_completes:
  assumes "select_error io = None" and "read_ready io" and "wsa_recv_error io = Some io_pending"
    and "recv_result io = Inl wsa_io_incomplete"
  shows "async_recv io c = (True, c)"
  using assms by (simp add: async_recv_def)

lemma late_poll_reconnects:
  assumes "ac_valid c" and "ac_state c = 2" and "ac_start_time c + 30000 < tick_count io"
  shows "async_poll io c = (False, c\<lparr>ac_state := 0\<rparr>)"
  using assms by (simp add: poll_defs)

text \<open>Winsock runs exactly while there are connections.\<close>

definition no_connections :: async_statics where
  "no_connections = \<lparr>active_connections = 0, wsa_data = False, wsa_started = 0\<rparr>"

lemma winsock_while_connected:
  assumes "m \<le> n"
  shows "wsa_started ((async_release ^^ m) ((async_acquire ^^ n) no_connections)) = (if n - m = 0 then 0 else 1)"
proof -
  have "active_connections ((async_acquire ^^ n) no_connections) = n \<and>
      wsa_started ((async_acquire ^^ n) no_connections) = (if n = 0 then 0 else 1)"
    using connections.acquire_many [of no_connections n] by (simp add: no_connections_def)
  with connections.release_many [of "(async_acquire ^^ n) no_connections" m] assms show ?thesis by simp
qed

definition demo_io :: async_io where
  "demo_io = \<lparr>connect_error = Some wsaeisconn, wsa_send_error = None, send_result = Inr 3, select_error = None,
     read_ready = True, wsa_recv_error = None, recv_result = Inr ''ok'', tick_count = 5\<rparr>"

definition demo_end :: async_io where
  "demo_end = demo_io\<lparr>recv_result := Inr [], tick_count := 9\<rparr>"

theorem polls_refine_phases_witness:
  "\<exists>e. async_calls [Start_Call demo_io ''GET'', Poll_Call demo_io, Poll_Call demo_end] (fst (async_new True True 0 no_connections)) =
      ([False, True], e) \<and> ac_sent e = [''GET''] \<and> ac_response e = ''ok'' \<and> polls [demo_io, demo_io] e = ([True, True], e)"
proof -
  let ?c = "fst (async_new True True 0 no_connections)"
  have d: "accepts_request demo_io" "list_all2 (delivers 0) [demo_io, demo_end] ([''ok''] @ [[]])"
      "connect_error demo_io = Some wsaeisconn"
    by (simp_all add: accepts_request_def delivers_def demo_io_def demo_end_def)
  have "async_calls [] ?c = ([], ?c)" by simp
  note first = polls_refine_phases [OF this]
  have "\<exists>e. async_calls (Start_Call demo_io ''GET'' # map Poll_Call [demo_io, demo_end]) ?c =
      (replicate (length [''ok'']) False @ [True], e) \<and> ac_sent e = [''GET''] \<and> ac_response e = concat [''ok'']"
    by (rule first [THEN conjunct2, THEN conjunct2, THEN conjunct2, THEN conjunct2, THEN conjunct2, rule_format])
      (use d in simp)
  then obtain e where e: "async_calls [Start_Call demo_io ''GET'', Poll_Call demo_io, Poll_Call demo_end] ?c = ([False, True], e)"
      "ac_sent e = [''GET'']" "ac_response e = ''ok''" by auto
  have "polls [demo_io, demo_io] e = (replicate (length [demo_io, demo_io]) True, e)"
    by (rule polls_refine_phases [OF e(1), THEN conjunct2, THEN conjunct2, THEN conjunct2, THEN conjunct2, THEN conjunct1,
          rule_format, of "[Start_Call demo_io ''GET'', Poll_Call demo_io]" demo_end]) simp
  with e show ?thesis by (intro exI [of _ e]) simp
qed

end
