(* ===== verification/Ping.thy ===== *)
theory Ping imports Prelude begin

text \<open>
  \<open>CPing\<close> (\<open>misc/ping.cpp\<close>): the Internet checksum, the echo request and the loop of tries. What the
  system answers is an argument. The lemmas show that every packet
  sent verifies under its own checksum, and that an answered request measures the time since it was made.
\<close>

section \<open>The checksum\<close>

text \<open>The sum of the 16-bit little-endian words; the \<open>int\<close> it is kept in has room for 64 KiB.\<close>

fun sum_words :: "string \<Rightarrow> nat" where
  "sum_words [] = 0"
| "sum_words [a] = byte a"
| "sum_words (a # b # s) = byte a + 256 * byte b + sum_words s"

definition fold_carries :: "nat \<Rightarrow> nat" where
  "fold_carries total_sum =
     (let s1 = total_sum div 65536 + total_sum mod 65536 in (s1 + s1 div 65536) mod 65536)"

definition in_cksum :: "string \<Rightarrow> u16" where
  "in_cksum data = NOT (of_nat (fold_carries (sum_words data)))"

section \<open>The echo request\<close>

definition le16 :: "u16 \<Rightarrow> string" where
  "le16 w = [chr_of (unat w mod 256), chr_of (unat w div 256)]"

definition le32 :: "u32 \<Rightarrow> string" where
  "le32 w = map (\<lambda>i. chr_of (unat w div 256 ^ i mod 256)) [0, 1, 2, 3]"

text \<open>The packed \<open>ECHOREQUEST\<close>: the header with its one data byte, the tick count and 32 characters.\<close>

definition echo_request :: "u16 \<Rightarrow> u16 \<Rightarrow> u16 \<Rightarrow> u32 \<Rightarrow> string" where
  "echo_request cksum ident seq time =
     [chr_of 8, chr_of 0] @ le16 cksum @ le16 ident @ le16 seq @ [chr_of 0] @ le32 time
     @ map (\<lambda>i. chr_of (32 + i)) [0..<32]"

definition send_echo_request :: "u16 \<Rightarrow> u16 \<Rightarrow> u32 \<Rightarrow> string" where
  "send_echo_request ident seq time = echo_request (in_cksum (echo_request 0 ident seq time)) ident seq time"

section \<open>The reply\<close>

text \<open>
  \<open>RecvEchoReply\<close> reads a packed \<open>ECHOREPLY\<close>: an IP header of 20 bytes with the time to live at 8, then the
  echo request, whose tick count follows 9 bytes of header. Without a datagram, or behind the end of a
  short one, what it reads is not initialised.
\<close>

definition read_le32 :: "string \<Rightarrow> u32" where
  "read_le32 s = of_nat (foldr (\<lambda>c n. byte c + 256 * n) (take 4 s) 0)"

definition recv_echo_reply :: "string option \<Rightarrow> (nat \<times> u32) result" where
  "recv_echo_reply datagram =
     (case datagram of
        None \<Rightarrow> Inl Undefined
      | Some d \<Rightarrow> if length d < 33 then Inl Undefined else Inr (byte (d ! 8), read_le32 (drop 29 d)))"

section \<open>The tries\<close>

text \<open>
  A try: \<open>select\<close> fails, times out or says there is an answer; the datagram, none when it could not be
  received; the tick count now.
\<close>

record ping_io =
  pg_select :: "nat + bool"
  pg_reply :: "string option"
  pg_now :: u32

fun ping_loop :: "ping_io list \<Rightarrow> bool \<times> u32 \<Rightarrow> (bool \<times> u32) result" where
  "ping_loop [] res = Inr res"
| "ping_loop (io # ios) res =
     (case pg_select io of
        Inl e \<Rightarrow> Inr res
      | Inr False \<Rightarrow> ping_loop ios res
      | Inr True \<Rightarrow> bind_result (recv_echo_reply (pg_reply io)) (\<lambda>(ttl, t). ping_loop ios (True, pg_now io - t)))"

text \<open>\<open>Ping\<close>: the answers of the calls before and after the tries, one entry of \<open>ios\<close> per try.\<close>

definition ping :: "bool \<Rightarrow> bool \<Rightarrow> bool \<Rightarrow> bool \<Rightarrow> ping_io list \<Rightarrow> (bool \<times> u32) result" where
  "ping startup_ok socket_ok host_found close_ok ios =
     (if \<not> startup_ok \<or> \<not> socket_ok \<or> \<not> host_found then Inr (False, 0)
      else bind_result (ping_loop ios (False, 0)) (\<lambda>res. Inr (if close_ok then res else (False, 0))))"

section \<open>The checksum verifies\<close>

lemma sum_words_bound: "sum_words s \<le> 65535 * length s"
proof (induction s rule: sum_words.induct)
  case (2 a)
  have "byte a \<le> 65535" using byte_less [of a] by linarith
  then show ?case by simp
next
  case (3 a b s)
  moreover have "byte a \<le> 255" "byte b \<le> 255" using byte_less [of a] byte_less [of b] by linarith+
  ultimately show ?case unfolding sum_words.simps list.size by (simp only: add_mult_distrib2)
qed simp

lemma fold_carries_complement:
  assumes "n < 2 ^ 31"
  shows "fold_carries (n + (65535 - fold_carries n)) = 65535"
proof -
  define h l where "h = n div 65536" and "l = n mod 65536"
  have n: "n = 65536 * h + l" and l: "l < 65536" and h: "h < 32768"
    using assms by (simp_all add: h_def l_def)
  show ?thesis
  proof (cases "h + l < 65536")
    case True
    then have f: "fold_carries n = h + l"
      by (simp add: fold_carries_def Let_def h_def [symmetric] l_def [symmetric])
    have "n + (65535 - (h + l)) = 65536 * h + (65535 - h)" using n True by simp
    then have "(n + (65535 - (h + l))) div 65536 = h" "(n + (65535 - (h + l))) mod 65536 = 65535 - h" by simp_all
    then show ?thesis unfolding f using h by (simp add: fold_carries_def)
  next
    case False
    then have d: "(h + l) div 65536 = 1" using l h by (simp add: div_nat_eqI)
    have "(h + l + 1) mod 65536 = h + l - 65535"
      using mod_if [of "h + l + 1" 65536] False l h by simp
    then have f: "fold_carries n = h + l - 65535"
      using d by (simp add: fold_carries_def Let_def h_def [symmetric] l_def [symmetric])
    have e: "n + (65535 - (h + l - 65535)) = (65534 - h) + (h + 1) * 65536" using n False l h by simp
    have "65534 - h < 65536" by simp
    then have "(n + (65535 - (h + l - 65535))) div 65536 = h + 1" "(n + (65535 - (h + l - 65535))) mod 65536 = 65534 - h"
      unfolding e by (simp_all only: div_mult_self3 mod_mult_self1 div_less mod_less)  simp_all
    then show ?thesis unfolding f using h by (simp add: fold_carries_def)
  qed
qed

lemma sum_le16: "sum_words (le16 w @ s) = unat w + sum_words s"
proof -
  have "unat w < 65536" using unsigned_less [of w, where ?'a = nat] by simp
  then show ?thesis by (simp add: le16_def)
qed

lemma sum_echo_request:
  "sum_words (echo_request cksum ident seq time) = unat cksum + sum_words (echo_request 0 ident seq time)"
proof -
  have "sum_words (chr_of 8 # chr_of 0 # le16 w @ s) = byte (chr_of 8) + 256 * byte (chr_of 0) + (unat w + sum_words s)" for w s
    using sum_le16 [of w s] by simp
  then show ?thesis by (simp add: echo_request_def)
qed

lemma unat_complement: "unat (NOT w) = 65535 - unat w" for w :: u16
proof -
  have u: "uint w < 65536" using uint_lt2p [of w] by simp
  have "uint (NOT w) = (- uint w - 1) mod 65536"
    by (simp add: not_eq_complement uint_word_ariths mod_diff_left_eq)
  also have "\<dots> = (65535 - uint w + (- 1) * 65536) mod 65536" by (rule arg_cong [where f = "\<lambda>x. x mod 65536"]) simp
  also have "\<dots> = 65535 - uint w" unfolding mod_mult_self1
    by (intro mod_pos_pos_trivial; use u uint_nonnegative [of w] in linarith)
  finally have "uint (NOT w) = 65535 - uint w" .
  then show ?thesis using u uint_nat [of w] uint_nat [of "NOT w"] by linarith
qed

lemma echo_request_length: "length (echo_request c ident seq time) = 45"
  by (simp add: echo_request_def le16_def le32_def)

section \<open>The receiver\<close>

text \<open>
  How a receiver checks a packet by RFC 1071, written from the RFC: the packet is read as 16-bit words in
  network order, with a zero byte behind an odd one, the words are added with the carry brought round,
  and the sum of a valid packet has all its bits set. Nothing of the program's own checksum is used.
\<close>

definition ones_add :: "nat \<Rightarrow> nat \<Rightarrow> nat" where
  "ones_add a b = (if a + b < 65536 then a + b else a + b - 65535)"

fun net_words :: "string \<Rightarrow> nat list" where
  "net_words (a # b # s) = (256 * byte a + byte b) # net_words s"
| "net_words s = []"

definition even_padded :: "string \<Rightarrow> string" where
  "even_padded p = (if even (length p) then p else p @ [CHR 0x00])"

definition receiver_accepts :: "string \<Rightarrow> bool" where
  "receiver_accepts p \<longleftrightarrow> foldl ones_add 0 (net_words (even_padded p)) = 65535"

lemma ones_add_mod: "ones_add a b mod 65535 = (a + b) mod 65535"
  by (auto simp: ones_add_def mod_if [of "a + b"])

lemma ones_add_range: "a < 65536 \<Longrightarrow> b < 65536 \<Longrightarrow> ones_add a b < 65536 \<and> (0 < a \<or> 0 < b \<longrightarrow> 0 < ones_add a b)"
  by (auto simp: ones_add_def)

lemma foldl_ones_add:
  "acc < 65536 \<Longrightarrow> list_all (\<lambda>w. w < 65536) ws \<Longrightarrow>
     foldl ones_add acc ws < 65536 \<and> (0 < acc \<longrightarrow> 0 < foldl ones_add acc ws)
     \<and> foldl ones_add acc ws mod 65535 = (acc + sum_list ws) mod 65535"
proof (induction ws arbitrary: acc)
  case (Cons w ws)
  have w: "w < 65536" "list_all (\<lambda>w. w < 65536) ws" using Cons.prems(2) by simp_all
  note r = ones_add_range [OF Cons.prems(1) w(1)]
  have "(ones_add acc w + sum_list ws) mod 65535 = (acc + w + sum_list ws) mod 65535"
    using ones_add_mod [of acc w] by (metis mod_add_left_eq)
  with Cons.IH [of "ones_add acc w"] r w(2) show ?case by (simp add: add.assoc)
qed simp

lemma net_words_range: "list_all (\<lambda>w. w < 65536) (net_words s)"
proof (induction s rule: net_words.induct)
  case (1 a b s)
  have "byte a \<le> 255" "byte b \<le> 255" using byte_less [of a] byte_less [of b] by linarith+
  then have "256 * byte a + byte b < 65536" by linarith
  with 1 show ?case by simp
qed simp_all

lemma even_padded_Cons2: "even_padded (a # b # s) = a # b # even_padded s"
  by (simp add: even_padded_def)

text \<open>The words of the other byte order add up to 256 times the sum, as the carry comes round.\<close>

lemma sum_net_words: "sum_list (net_words (even_padded s)) mod 65535 = 256 * sum_words s mod 65535"
proof (induction s rule: sum_words.induct)
  case (2 a)
  then show ?case by (simp add: even_padded_def byte_def)
next
  case (3 a b s)
  let ?n = "sum_list (net_words (even_padded s))"
  have "256 * sum_words (a # b # s) = byte a * 256 + byte b + 256 * sum_words s + 65535 * byte b" by simp
  then have "256 * sum_words (a # b # s) mod 65535 = (byte a * 256 + byte b + 256 * sum_words s) mod 65535"
    by (simp only: mod_mult_self2)
  also have "\<dots> = (byte a * 256 + byte b + ?n) mod 65535" using 3 by (metis mod_add_right_eq)
  finally show ?case by (simp add: even_padded_Cons2 mult.commute)
qed (simp add: even_padded_def)

lemma fold_carries_mod:
  assumes "n < 2 ^ 31"
  shows "fold_carries n mod 65535 = n mod 65535"
proof -
  define h l where "h = n div 65536" and "l = n mod 65536"
  have n: "n = 65536 * h + l" and l: "l < 65536" and h: "h < 32768"
    using assms by (simp_all add: h_def l_def)
  have m: "n mod 65535 = (h + l) mod 65535"
  proof -
    have "n = (h + l) + 65535 * h" using n by simp
    then show ?thesis by (simp only: mod_mult_self2)
  qed
  show ?thesis
  proof (cases "h + l < 65536")
    case True
    then have "fold_carries n = h + l" by (simp add: fold_carries_def Let_def h_def [symmetric] l_def [symmetric])
    then show ?thesis using m by simp
  next
    case False
    then have d: "(h + l) div 65536 = 1" using l h by (simp add: div_nat_eqI)
    have "(h + l + 1) mod 65536 = h + l - 65535" using mod_if [of "h + l + 1" 65536] False l h by simp
    then have f: "fold_carries n = h + l - 65535"
      using d by (simp add: fold_carries_def Let_def h_def [symmetric] l_def [symmetric])
    show ?thesis unfolding f m using False by (simp add: mod_if [of "h + l" 65535])
  qed
qed

lemma receiver_accepts_iff:
  assumes "hd (net_words (even_padded p)) \<noteq> 0" and "2 \<le> length p"
  shows "receiver_accepts p \<longleftrightarrow> sum_words p mod 65535 = 0"
proof -
  obtain w ws where ws: "net_words (even_padded p) = w # ws"
    using assms(2) by (cases p; cases "tl p") (auto simp: even_padded_Cons2)
  have r: "w < 65536" "list_all (\<lambda>w. w < 65536) ws" "0 < w"
    using net_words_range [of "even_padded p"] assms(1) unfolding ws by simp_all
  let ?x = "foldl ones_add w ws"
  have x: "?x < 65536" "0 < ?x" "?x mod 65535 = (w + sum_list ws) mod 65535"
    using foldl_ones_add [OF r(1,2)] r(3) by simp_all
  have first: "foldl ones_add 0 (w # ws) = ?x" using r(1) by (simp add: ones_add_def)
  have "?x = 65535 \<longleftrightarrow> ?x mod 65535 = 0" using x(1,2) by (auto simp: mod_if split: if_splits)
  also have "\<dots> \<longleftrightarrow> 256 * sum_words p mod 65535 = 0"
    unfolding x(3) sum_net_words [symmetric] ws by simp
  also have "\<dots> \<longleftrightarrow> sum_words p mod 65535 = 0"
  proof -
    have c: "coprime (65535 :: nat) 256" by (simp add: coprime_iff_gcd_eq_1 gcd_nat.simps)
    show ?thesis using coprime_dvd_mult_right_iff [OF c, of "sum_words p"] by (simp add: dvd_eq_mod_eq_0)
  qed
  finally show ?thesis unfolding receiver_accepts_def ws first .
qed

text \<open>
  C40. Every echo request is a valid ICMP packet for a receiver that follows RFC 1071: it is 45 bytes
  long, it is the request that was asked for with only the checksum filled in, and its words in network
  order, the odd last byte counted with a zero behind it, add up with the carries brought round to all
  bits set; whatever the identifier, the sequence number and the tick count. The checksum the program
  would compute over it is 0 as well.
\<close>

theorem echo_checksum_verifies:
  "receiver_accepts (send_echo_request ident seq time) \<and> in_cksum (send_echo_request ident seq time) = 0
   \<and> length (send_echo_request ident seq time) = 45
   \<and> (\<exists>cksum. send_echo_request ident seq time = echo_request cksum ident seq time)"
proof -
  let ?p = "echo_request 0 ident seq time" and ?r = "send_echo_request ident seq time"
  note len = echo_request_length [of _ ident seq time]
  have f: "fold_carries n < 65536" for n by (simp add: fold_carries_def Let_def)
  have "unat (of_nat (fold_carries (sum_words ?p)) :: u16) = fold_carries (sum_words ?p)"
    using f by (simp add: unat_of_nat)
  then have "unat (in_cksum ?p) = 65535 - fold_carries (sum_words ?p)"
    by (simp add: in_cksum_def unat_complement)
  then have s: "sum_words ?r = sum_words ?p + (65535 - fold_carries (sum_words ?p))"
    using sum_echo_request [of "in_cksum ?p" ident seq time] by (simp add: send_echo_request_def)
  have b: "sum_words ?p < 2 ^ 31" using sum_words_bound [of ?p] len [of 0] by simp
  have c: "fold_carries (sum_words ?r) = 65535" using fold_carries_complement [OF b] s by simp
  have "sum_words ?r < 2 ^ 31" using sum_words_bound [of ?r] len by (simp add: send_echo_request_def)
  from fold_carries_mod [OF this] have "sum_words ?r mod 65535 = 0" unfolding c by simp
  moreover have "hd (net_words (even_padded ?r)) = 2048"
    by (simp add: send_echo_request_def echo_request_def even_padded_Cons2)
  moreover have "length ?r = 45" using len by (simp add: send_echo_request_def)
  ultimately have "receiver_accepts ?r" using receiver_accepts_iff [of ?r] by simp
  moreover have "in_cksum ?r = 0" using c by (simp add: in_cksum_def)
  ultimately show ?thesis using \<open>length ?r = 45\<close> by (auto simp: send_echo_request_def)
qed

section \<open>The time\<close>

lemma byte_digits_sum:
  fixes n :: nat
  assumes "n < 256 ^ 4"
  shows "n mod 256 + 256 * (n div 256 mod 256 + 256 * (n div 65536 mod 256 + 256 * (n div 16777216 mod 256))) = n"
proof -
  define a b c where "a = n div 256" and "b = a div 256" and "c = b div 256"
  have "n div 65536 = b" "n div 16777216 = c"
    by (simp_all add: a_def b_def c_def div_mult2_eq [symmetric])
  moreover have "c < 256" using assms by (simp add: a_def b_def c_def div_mult2_eq [symmetric] less_mult_imp_div_less)
  moreover have "n mod 256 + 256 * a = n" "a mod 256 + 256 * b = a" "b mod 256 + 256 * c = b"
    by (simp_all add: a_def b_def c_def)
  ultimately show ?thesis by (simp add: a_def [symmetric])
qed

lemma read_le32: "read_le32 (le32 w @ s) = w"
proof -
  let ?n = "unat w"
  have n: "?n < 256 ^ 4" using unsigned_less [of w, where ?'a = nat] by simp
  have "read_le32 (le32 w @ s) = of_nat (?n mod 256 + 256 * (?n div 256 mod 256
      + 256 * (?n div 65536 mod 256 + 256 * (?n div 16777216 mod 256))))"
    by (simp add: read_le32_def le32_def del: of_nat_add of_nat_mult)
  then show ?thesis unfolding byte_digits_sum [OF n] by simp
qed

text \<open>
  The time that was put into a request is read back from the packet that echoes it, behind an IP header
  without options; whatever the header fields of the echo say.
\<close>

lemma reply_time:
  assumes "length ip = 20" and "length icmp = 9"
  shows "recv_echo_reply (Some (ip @ icmp @ le32 time @ payload)) = Inr (byte (ip ! 8), time)"
proof -
  have "drop 29 (ip @ icmp @ le32 time @ payload) = le32 time @ payload" using assms by simp
  moreover have "length (le32 time) = 4" by (simp add: le32_def)
  ultimately show ?thesis using assms read_le32 [of time payload] by (simp add: recv_echo_reply_def nth_append)
qed

lemma send_echo_request_parts:
  "\<exists>icmp payload. length icmp = 9 \<and> send_echo_request ident seq time = icmp @ le32 time @ payload"
  by (rule exI [of _ "take 9 (send_echo_request ident seq time)"], rule exI [of _ "map (\<lambda>i. chr_of (32 + i)) [0..<32]"])
    (simp add: send_echo_request_def echo_request_def le16_def)

text \<open>One answered try measures the time since its request was made; the tick count may have wrapped.\<close>

lemma ping_measures:
  assumes "length ip = 20"
  shows "ping True True True True
      [\<lparr>pg_select = Inr True, pg_reply = Some (ip @ send_echo_request ident seq time), pg_now = time + elapsed\<rparr>]
    = Inr (True, elapsed)"
proof -
  obtain icmp payload where p: "length icmp = 9" "send_echo_request ident seq time = icmp @ le32 time @ payload"
    using send_echo_request_parts by blast
  show ?thesis using reply_time [OF assms p(1), of time payload] p(2) by (simp add: ping_def bind_result_def)
qed

text \<open>With options the header is longer than the structure, and other bytes are taken for the time.\<close>

lemma options_shift_time:
  "recv_echo_reply (Some (replicate 24 (CHR 0x00) @ send_echo_request 1 1 7)) = Inr (0, 256)"
proof -
  have "drop 5 (send_echo_request 1 1 7) = chr_of 0 # chr_of 1 # chr_of 0 # chr_of 0 # le32 7 @ map (\<lambda>i. chr_of (32 + i)) [0..<32]"
    by (simp add: send_echo_request_def echo_request_def le16_def)
  then have "read_le32 (drop 29 (replicate 24 (CHR 0x00) @ send_echo_request 1 1 7)) = 256"
    by (simp add: read_le32_def)
  moreover have "length (send_echo_request 1 1 7) = 45" using echo_request_length by (simp add: send_echo_request_def)
  moreover have "byte (CHR 0x00) = 0" by (simp add: byte_def)
  ultimately show ?thesis by (simp add: recv_echo_reply_def nth_append)
qed

text \<open>The result is that of the last try that was answered.\<close>

lemma ping_loop_last:
  "ping_loop (ios @ [io]) res = Inr r \<Longrightarrow> pg_select io = Inr True \<Longrightarrow> \<forall>i \<in> set ios. \<exists>b. pg_select i = Inr b \<Longrightarrow>
   \<exists>ttl t. recv_echo_reply (pg_reply io) = Inr (ttl, t) \<and> r = (True, pg_now io - t)"
  by (induction ios arbitrary: res) (auto simp: bind_result_Inr split: bool.splits sum.splits)

end
