(* ===== verification/Diagnostics.thy ===== *)
theory Diagnostics imports LuaValue begin

text \<open>
  The hexadecimal dumps of \<open>socket/Utilities.cpp\<close> and the files of \<open>misc/misc.cpp\<close>; the file system
  answers as a parameter. The lemmas show that a dump can be read back,
  fits its line buffer and holds nothing a format string would interpret.
\<close>

section \<open>Hexadecimal dumps\<close>

definition hex_column :: "nat \<Rightarrow> char \<Rightarrow> string" where
  "hex_column i c = [digit_chr (byte c div 16), digit_chr (byte c mod 16), if i = 7 then CHR '':'' else CHR '' '']"

definition shown_byte :: "char \<Rightarrow> char" where
  "shown_byte c = (if byte c < 32 \<or> 126 < byte c \<or> c = CHR 0x25 then CHR ''.'' else c)"

definition hex_columns :: "string \<Rightarrow> string" where
  "hex_columns bs = concat (map (\<lambda>i. hex_column i (bs ! i)) [0..<length bs])"

text \<open>
  A line of up to 16 bytes. The offset takes at least four places and two blanks; the columns start at
  position 6 whatever its length, so they cover the end of a longer one.
\<close>

definition dump_line :: "nat \<Rightarrow> string \<Rightarrow> string" where
  "dump_line index bs =
     (let offset = digits 16 index in
      take 6 (replicate (4 - length offset) (CHR '' '') @ offset @ ''  '')
      @ hex_columns bs @ replicate (3 * (16 - length bs)) (CHR '' '') @ '' '' @ map shown_byte bs)"

function dump_lines :: "nat \<Rightarrow> string \<Rightarrow> string list" where
  "dump_lines index buf =
     (if buf = [] then [] else dump_line index (take 16 buf) # dump_lines (index + 16) (drop 16 buf))"
  by pat_completeness auto
termination
  by (relation "measure (\<lambda>(index, buf). length buf)") (auto simp: length_drop)

declare dump_lines.simps [simp del]

definition print_hex_dump :: "bool \<Rightarrow> string \<Rightarrow> string list" where
  "print_hex_dump verbose buf = dump_lines 0 (if \<not> verbose \<and> 16 < length buf then take 16 buf else buf)"

text \<open>A reader of the columns: two digits and a separator per byte, up to the first blank column.\<close>

fun read_columns :: "string \<Rightarrow> string" where
  "read_columns (a # b # c # s) =
     (case (digit_val a, digit_val b) of
        (Some h, Some l) \<Rightarrow> chr_of (16 * h + l) # read_columns s
      | _ \<Rightarrow> [])"
| "read_columns s = []"

lemma read_hex_column: "read_columns (hex_column i c @ s) = c # read_columns s"
proof -
  have "byte c div 16 < 16" using byte_less [of c] by linarith
  moreover have "16 * (byte c div 16) + byte c mod 16 = byte c" by simp
  ultimately show ?thesis by (simp add: hex_column_def digit_val_chr)
qed

lemma hex_columns_snoc: "hex_columns (bs @ [c]) = hex_columns bs @ hex_column (length bs) c"
proof -
  have e: "map (\<lambda>i. hex_column i ((bs @ [c]) ! i)) [0..<length bs] = map (\<lambda>i. hex_column i (bs ! i)) [0..<length bs]"
    by (simp add: nth_append)
  show ?thesis by (simp add: hex_columns_def e)
qed

lemma read_hex_columns: "read_columns (hex_columns bs @ s) = bs @ read_columns s"
proof (induction bs arbitrary: s rule: rev_induct)
  case Nil
  then show ?case by (simp add: hex_columns_def)
next
  case (snoc c bs)
  then show ?case by (simp add: hex_columns_snoc read_hex_column)
qed

lemma length_hex_columns: "length (hex_columns bs) = 3 * length bs"
  by (induction bs rule: rev_induct) (simp_all add: hex_columns_snoc hex_column_def hex_columns_def [of "[]"])

lemma digit_plain: "d < 16 \<Longrightarrow> digit_chr d \<noteq> CHR 0x25"
proof -
  assume "d < 16"
  then have "byte (digit_chr d) \<noteq> 37" by (simp add: digit_chr_def)
  moreover have "byte (CHR 0x25) = 37" by (simp add: byte_def)
  ultimately show ?thesis by metis
qed

lemma digits_plain: "CHR 0x25 \<notin> set (digits 16 n)"
proof (induction n rule: less_induct)
  case (less n)
  show ?case
  proof (cases "n < 16")
    case True
    then show ?thesis using digit_plain [of n] by (auto simp: digits.simps [of _ n])
  next
    case False
    then have "n div 16 < n" by simp
    then show ?thesis using less [of "n div 16"] digit_plain [of "n mod 16"] False by (subst digits.simps) auto
  qed
qed

lemma hex_columns_plain: "CHR 0x25 \<notin> set (hex_columns bs)"
proof (induction bs rule: rev_induct)
  case (snoc c bs)
  have "byte c div 16 < 16" "byte c mod 16 < 16" using byte_less [of c] by linarith+
  then show ?case using snoc digit_plain [of "byte c div 16"] digit_plain [of "byte c mod 16"]
    by (auto simp: hex_columns_snoc hex_column_def)
qed (simp add: hex_columns_def)

lemma dump_line_reads:
  assumes "length bs \<le> 16"
  shows "read_columns (drop 6 (dump_line index bs)) = bs \<and> length (dump_line index bs) = 55 + length bs
    \<and> CHR 0x25 \<notin> set (dump_line index bs)"
proof -
  define start where
    "start = take 6 (replicate (4 - length (digits 16 index)) (CHR '' '') @ digits 16 index @ ''  '')"
  have line: "dump_line index bs =
      start @ hex_columns bs @ replicate (3 * (16 - length bs)) (CHR '' '') @ '' '' @ map shown_byte bs"
    by (simp add: dump_line_def start_def Let_def)
  have start: "length start = 6" by (simp add: start_def)
  have "CHR 0x25 \<notin> set start"
    using digits_plain [of index] by (auto simp: start_def dest!: in_set_takeD)
  then have plain: "CHR 0x25 \<notin> set (dump_line index bs)"
    using hex_columns_plain [of bs] by (auto simp: line shown_byte_def)
  have blank: "digit_val (CHR '' '') = None" by (simp add: digit_val_def byte_def)
  have "read_columns (replicate (3 * (16 - length bs)) (CHR '' '') @ '' '' @ map shown_byte bs) = []"
  proof (cases "length bs = 16")
    case True
    then obtain a b rest where "bs = a # b # rest" by (cases bs; cases "tl bs") auto
    with True blank show ?thesis by simp
  next
    case False
    then obtain m where "16 - length bs = Suc m" using assms by (metis Suc_diff_Suc le_neq_implies_less)
    then show ?thesis using blank by (simp add: numeral_3_eq_3)
  qed
  then have "read_columns (drop 6 (dump_line index bs)) = bs"
    using start read_hex_columns [of bs] by (simp add: line)
  moreover have "length (dump_line index bs) = 55 + length bs"
    using start assms by (simp add: line length_hex_columns)
  ultimately show ?thesis using plain by simp
qed

text \<open>
  A full dump loses nothing and is safe to print: the bytes are read back from the columns of its
  lines, every line with its terminating NUL fits the buffer of 100 characters, and no line holds a
  percent sign, so \<open>DebugMsg\<close>, which takes the line as its format, finds nothing to interpret.
\<close>

theorem hex_dump_reads_back:
  "concat (map (\<lambda>l. read_columns (drop 6 l)) (print_hex_dump True buf)) = buf
   \<and> (\<forall>l \<in> set (print_hex_dump verbose buf). length l + 1 \<le> 72 \<and> CHR 0x25 \<notin> set l)"
proof -
  have "concat (map (\<lambda>l. read_columns (drop 6 l)) (dump_lines i b)) = b
      \<and> (\<forall>l \<in> set (dump_lines i b). length l + 1 \<le> 72 \<and> CHR 0x25 \<notin> set l)" for i b
  proof (induction i b rule: dump_lines.induct)
    case (1 i b)
    then show ?case
      using dump_line_reads [of "take 16 b" i] by (subst (1 2) dump_lines.simps) auto
  qed
  then show ?thesis by (auto simp: print_hex_dump_def split: if_splits)
qed

theorem hex_dump_reads_back_witness:
  "concat (map (\<lambda>l. read_columns (drop 6 l)) (print_hex_dump True ''100%, say'')) = ''100%, say''
   \<and> list_all (\<lambda>l. CHR 0x25 \<notin> set l) (print_hex_dump False ''100%, say'')"
  using hex_dump_reads_back [of "''100%, say''" False] by (simp add: list_all_iff)

section \<open>Files\<close>

text \<open>The directory of the program: what comes before the last backslash; everything without one.\<close>

definition get_exe_directory :: "string option \<Rightarrow> string" where
  "get_exe_directory module_name =
     (case module_name of
        None \<Rightarrow> []
      | Some s \<Rightarrow> (case find_char (CHR 0x5C) (rev s) of
            None \<Rightarrow> s
          | Some i \<Rightarrow> take (length s - (i + 1)) s))"

lemma exe_directory:
  "CHR 0x5C \<notin> set file \<Longrightarrow> get_exe_directory (Some (dir @ CHR 0x5C # file)) = dir"
  by (simp add: get_exe_directory_def find_char_append)

text \<open>
  \<open>file_copy\<close>: \<open>files\<close> are those that can be read, \<open>writable\<close> tells which paths can be opened for
  writing. The length is narrowed to the 32-bit \<open>long\<close>, so a file of 2 GiB or more raises or is cut.
\<close>

definition file_copy :: "(wstring \<Rightarrow> bool) \<Rightarrow> wstring \<Rightarrow> wstring \<Rightarrow> (wstring \<Rightarrow> string option) \<Rightarrow> bool \<times> (wstring \<Rightarrow> string option)" where
  "file_copy writable source target files =
     (case files source of
        None \<Rightarrow> (False, files)
      | Some d \<Rightarrow>
          (let n = to_int32 (int (length d)) in
           if n < 0 \<or> \<not> writable target then (False, files) else (True, files(target \<mapsto> take (nat n) d))))"

lemma file_copied:
  "files source = Some d \<Longrightarrow> length d < 2 ^ 31 \<Longrightarrow> writable target \<Longrightarrow>
   file_copy writable source target files = (True, files(target \<mapsto> d))"
  by (simp add: file_copy_def to_int32_id)

end
