(* ===== verification/Utilities.thy ===== *)
theory Utilities imports Diagnostics Der begin

text \<open>
  The rest of \<open>socket/Utilities.cpp\<close> and \<open>misc/misc.cpp\<close>, and \<open>misc/Time.cpp\<close>: formatted texts, error
  texts, debug output, names, paths and differences of time. What the printf family, Windows and the file
  system answer are parameters. The lemmas show which texts fit their buffers: those of the hexadecimal
  dumps and of the error codes do, a long debug message does not.
\<close>

section \<open>Formatted texts\<close>

text \<open>
  The loop of \<open>string_format\<close>: \<open>t\<close> is what the format produces. \<open>_vsnwprintf_s\<close> with a count as large as its
  buffer never cuts: when the text and its NUL do not fit it calls the handler for invalid parameters,
  which ends the process (the inner \<open>None\<close>) unless another one was installed that \<open>continues\<close>; then
  it returns -1 and the size doubles. The outer \<open>None\<close> is a loop that does not end.
\<close>

partial_function (option) string_format_loop :: "bool \<Rightarrow> nat \<Rightarrow> wstring \<Rightarrow> wstring option option" where
  "string_format_loop continues n t =
     (if length t < n then Some (Some (takeWhile (\<lambda>w. w \<noteq> 0) t))
      else if \<not> continues then Some None
      else string_format_loop continues (n + nat \<bar>- 1 - int n + 1\<bar>) t)"

definition string_format :: "bool \<Rightarrow> wstring \<Rightarrow> wstring \<Rightarrow> wstring option option" where
  "string_format continues fmt t = string_format_loop continues (max 10 (length fmt * 2)) t"

text \<open>It always ends: with the text when the first buffer is large enough or the handler continues.\<close>

lemma string_format_returns:
  "string_format continues fmt t =
     Some (if length t < max 10 (length fmt * 2) \<or> continues then Some (takeWhile (\<lambda>w. w \<noteq> 0) t) else None)"
proof -
  have "string_format_loop True n t = Some (Some (takeWhile (\<lambda>w. w \<noteq> 0) t))" if "0 < n" for n
    using that
  proof (induction "Suc (length t) - n" arbitrary: n rule: less_induct)
    case less
    show ?case
    proof (cases "length t < n")
      case True
      then show ?thesis by (simp add: string_format_loop.simps [of True n])
    next
      case False
      with less.prems have "Suc (length t) - (n + n) < Suc (length t) - n" by simp
      from less.hyps [OF this] less.prems False show ?thesis
        by (subst string_format_loop.simps) (simp add: nat_add_distrib mult_2)
    qed
  qed
  then show ?thesis
    by (cases continues) (simp_all add: string_format_def string_format_loop.simps [of False])
qed

section \<open>Error texts\<close>

definition is_trailing :: "u16 \<Rightarrow> bool" where
  "is_trailing c \<longleftrightarrow> c \<in> {9, 10, 11, 12, 13, 32}"

definition rtrim :: "wstring \<Rightarrow> wstring" where
  "rtrim s = rev (dropWhile is_trailing (rev s))"

definition error_code_text :: "u32 \<Rightarrow> string" where
  "error_code_text e = ''Error code '' @ nat_str (unat e) @ '' (0x'' @ hex8 (unat e) @ '')''"

text \<open>\<open>WinErrorMsg\<close>: the system's text in at most 100 characters without trailing blanks, or the code.\<close>

definition win_error_msg :: "bool \<Rightarrow> (u32 \<Rightarrow> wstring) \<Rightarrow> u32 \<Rightarrow> wstring option option" where
  "win_error_msg continues format_message e =
     (let t = rtrim (format_message e) in
      if t = [] then string_format continues (widen ''Error code %u (0x%.8x)'') (widen (error_code_text e))
      else Some (Some t))"

lemma rtrim_idem: "rtrim (rtrim s) = rtrim s"
  by (simp add: rtrim_def)

lemma length_digits:
  assumes "2 \<le> b"
  shows "n < b ^ k \<Longrightarrow> 0 < k \<Longrightarrow> length (digits b n) \<le> k"
proof (induction k arbitrary: n)
  case (Suc k)
  show ?case
  proof (cases "n < b")
    case True
    then show ?thesis by (subst digits.simps) simp
  next
    case False
    with Suc.prems have "n div b < b ^ k" "0 < k"
      by (auto simp: less_mult_imp_div_less mult.commute intro!: gr0I)
    then show ?thesis using Suc.IH [of "n div b"] False assms by (subst digits.simps) simp
  qed
qed simp

text \<open>A text for a code always fits the first buffer, so every error has a text, whatever the handler does.\<close>

lemma error_code_text_fits: "length (error_code_text e) \<le> 34"
proof -
  have "unat e < 2 ^ 32" using unsigned_less [of e, where ?'a = nat] by simp
  then have e: "unat e < 10 ^ 10" "unat e < 16 ^ 8" by simp_all
  have "length (nat_str (unat e)) \<le> 10" "length (hex8 (unat e)) = 8"
    using length_digits [of 10 "unat e" 10] length_digits [of 16 "unat e" 8] e
    by (simp_all add: nat_str_def hex8_def Let_def)
  then show ?thesis by (simp add: error_code_text_def)
qed

lemma win_error_msg_returns:
  "\<exists>t. win_error_msg continues format_message e = Some (Some t) \<and> t \<noteq> []"
proof (cases "rtrim (format_message e) = []")
  case True
  have "length (widen (error_code_text e)) < 44" using error_code_text_fits [of e] by (simp add: widen_def)
  moreover have "takeWhile (\<lambda>w. w \<noteq> 0) (widen (error_code_text e)) \<noteq> []"
    by (simp add: error_code_text_def widen_def byte_def)
  ultimately show ?thesis
    using True by (simp add: win_error_msg_def string_format_returns widen_def)
next
  case False
  then show ?thesis by (simp add: win_error_msg_def Let_def)
qed

section \<open>Debug output\<close>

text \<open>
  \<open>DebugMsg\<close>: the thread id, the text and a line feed in a buffer of 1024 characters. The text is written
  behind the id, but the size that is passed is that of the whole buffer.
\<close>

definition debug_prefix :: "u32 \<Rightarrow> string" where
  "debug_prefix thread = ''('' @ nat_str (unat thread) @ ''): ''"

definition debug_msg :: "u32 \<Rightarrow> string \<Rightarrow> string result" where
  "debug_msg thread formatted =
     (let out = debug_prefix thread @ take 1023 (c_str formatted) in
      if 1024 < length out + 1 then Inl Undefined else Inr (take 1023 (out @ [CHR 0x0A])))"

lemma debug_prefix_length: "length (debug_prefix thread) \<le> 14" "5 \<le> length (debug_prefix thread)"
proof -
  have "unat thread < 2 ^ 32" using unsigned_less [of thread, where ?'a = nat] by simp
  then have "length (nat_str (unat thread)) \<le> 10"
    using length_digits [of 10 "unat thread" 10] by (simp add: nat_str_def)
  moreover have "0 < length (nat_str (unat thread))" by (simp add: nat_str_def)
  ultimately show "length (debug_prefix thread) \<le> 14" "5 \<le> length (debug_prefix thread)"
    by (simp_all add: debug_prefix_def Suc_le_eq)
qed

lemma debug_msg_short:
  assumes "length (c_str formatted) \<le> 1008"
  shows "debug_msg thread formatted = Inr (debug_prefix thread @ c_str formatted @ [CHR 0x0A])"
  using debug_prefix_length(1) [of thread] assms by (simp add: debug_msg_def)

lemma debug_msg_overflows:
  assumes "1019 \<le> length (c_str formatted)"
  shows "debug_msg thread formatted = Inl Undefined"
  using debug_prefix_length(2) [of thread] assms by (simp add: debug_msg_def)

text \<open>The dumps are short enough, and are printed as they are.\<close>

lemma dump_lines_short: "l \<in> set (dump_lines i b) \<Longrightarrow> length l \<le> 71"
proof (induction i b rule: dump_lines.induct)
  case (1 i b)
  have "length (dump_line i (take 16 b)) \<le> 71" using dump_line_reads [of "take 16 b" i] by simp
  moreover have "dump_lines i b = (if b = [] then [] else dump_line i (take 16 b) # dump_lines (i + 16) (drop 16 b))"
    by (rule dump_lines.simps)
  ultimately show ?case using 1 by (auto split: if_splits)
qed

lemma dumps_do_not_overflow:
  "l \<in> set (print_hex_dump verbose buf) \<Longrightarrow>
   debug_msg thread l = Inr (debug_prefix thread @ c_str l @ [CHR 0x0A])"
  using dump_lines_short [of l 0] length_takeWhile_le [of "\<lambda>c. c \<noteq> CHR 0x00" l]
  by (intro debug_msg_short) (auto simp: print_hex_dump_def c_str_def split: if_splits dest: dump_lines_short)

section \<open>Names and rights\<close>

text \<open>
  \<open>GetHostName\<close> and \<open>GetCurrentUserName\<close> ask for the size first. That call answers a \<open>BOOL\<close>, which is compared
  with \<open>ERROR_SUCCESS\<close>: the call is meant to fail, and 0 passes the test. The second call fills a string
  of the needed size, which counts the NUL.
\<close>

definition get_host_name :: "nat \<times> nat \<Rightarrow> (nat \<Rightarrow> wstring option) \<Rightarrow> wstring" where
  "get_host_name query fetch =
     (case query of (answer, needed) \<Rightarrow>
        if answer \<noteq> 0 then []
        else case fetch needed of None \<Rightarrow> [] | Some t \<Rightarrow> take needed (t @ replicate needed 0))"

definition get_current_user_name :: "nat \<times> nat \<Rightarrow> (nat \<Rightarrow> wstring option) \<Rightarrow> wstring" where
  "get_current_user_name query fetch =
     (case query of (answer, needed) \<Rightarrow>
        if answer \<noteq> 0 then []
        else case fetch needed of None \<Rightarrow> [] | Some t \<Rightarrow> take needed (t @ replicate needed 0))"

text \<open>So the name ends with a NUL that is part of the string.\<close>

lemma host_name_keeps_nul:
  "fetch (length name + 1) = Some (name @ [0]) \<Longrightarrow> get_host_name (0, length name + 1) fetch = name @ [0]"
  by (simp add: get_host_name_def)

text \<open>\<open>IsUserAdmin\<close>: whether the group could be made, and the membership unless the test failed.\<close>

definition is_user_admin :: "bool \<Rightarrow> int option \<Rightarrow> bool" where
  "is_user_admin group_made membership = (group_made \<and> membership = Some 1)"

definition get_version_text :: string where
  "get_version_text = ''2'' @ ''.'' @ ''1'' @ ''.'' @ ''1''"

section \<open>Code pages\<close>

datatype code_page = Ansi_Page | Utf8_Page

definition utf8_encode :: "(code_page \<Rightarrow> wstring \<Rightarrow> string) \<Rightarrow> wstring \<Rightarrow> string" where
  "utf8_encode convert w = (if w = [] then [] else convert Ansi_Page w)"

definition utf8_decode :: "(code_page \<Rightarrow> string \<Rightarrow> wstring) \<Rightarrow> string \<Rightarrow> wstring" where
  "utf8_decode convert s = (if s = [] then [] else convert Ansi_Page s)"

definition utf8_encode_lua :: "(code_page \<Rightarrow> wstring \<Rightarrow> string) \<Rightarrow> wstring \<Rightarrow> string" where
  "utf8_encode_lua convert w = (if w = [] then [] else convert Utf8_Page w)"

section \<open>Paths\<close>

definition get_exe_directory_w :: "wstring option \<Rightarrow> wstring" where
  "get_exe_directory_w module_name =
     (case module_name of
        None \<Rightarrow> []
      | Some s \<Rightarrow>
          (let i = length (takeWhile (\<lambda>w. w \<noteq> 92) (rev s)) in
           if i = length s then s else take (length s - (i + 1)) s))"

text \<open>The path, and the directories made on the way; \<open>create_directory\<close> may throw.\<close>

definition get_and_create_cache_path ::
    "(wstring \<Rightarrow> error option) \<Rightarrow> wstring option \<Rightarrow> wstring \<Rightarrow> wstring result \<times> wstring list" where
  "get_and_create_cache_path create module_name folder =
     (let cache = get_exe_directory_w module_name @ 92 # widen ''cache'' in
      case create cache of
        Some e \<Rightarrow> (Inl e, [])
      | None \<Rightarrow>
          (let path = cache @ 92 # folder in
           case create path of Some e \<Rightarrow> (Inl e, [cache]) | None \<Rightarrow> (Inr path, [cache, path])))"

definition file_exists :: "wstring \<Rightarrow> (wstring \<Rightarrow> string option) \<Rightarrow> bool" where
  "file_exists name files = (files name \<noteq> None)"

lemma exe_directory_w: "92 \<notin> set file \<Longrightarrow> get_exe_directory_w (Some (dir @ 92 # file)) = dir"
proof -
  assume "92 \<notin> set file"
  then have "takeWhile (\<lambda>w. w \<noteq> 92) (rev file @ 92 # rev dir) = rev file"
    by (subst takeWhile_append2) auto
  then show ?thesis by (simp add: get_exe_directory_w_def)
qed

text \<open>The folder lies in \<open>cache\<close> beside the program, and its parent is made before it.\<close>

lemma cache_path:
  assumes "92 \<notin> set file" and "\<And>p. create p = None"
  shows "get_and_create_cache_path create (Some (dir @ 92 # file)) folder =
    (Inr (dir @ 92 # widen ''cache'' @ 92 # folder),
     [dir @ 92 # widen ''cache'', dir @ 92 # widen ''cache'' @ 92 # folder])"
  using assms by (simp add: get_and_create_cache_path_def exe_directory_w Let_def)

lemma copied_file_exists:
  "file_copy writable source target files = (True, files') \<Longrightarrow> file_exists source files \<and> file_exists target files'"
  by (auto simp: file_copy_def file_exists_def Let_def split: option.splits if_splits)

section \<open>Time\<close>

text \<open>
  \<open>CTime::Diff\<close>: two readings of the steady clock, \<open>per_ms\<close> ticks to the millisecond. The cast cuts towards
  zero; the count is narrowed to \<open>int\<close>.
\<close>

definition time_diff :: "int \<Rightarrow> int \<Rightarrow> int \<Rightarrow> int" where
  "time_diff per_ms start now = to_int32 (sgn (now - start) * (\<bar>now - start\<bar> div per_ms))"

lemma time_diff_exact:
  assumes "0 < per_ms" and "0 \<le> ms" and "ms < 2 ^ 31" and "0 \<le> rest" and "rest < per_ms"
  shows "time_diff per_ms start (start + ms * per_ms + rest) = ms"
proof -
  have "0 \<le> ms * per_ms + rest" using assms by simp
  moreover have "(ms * per_ms + rest) div per_ms = ms" using assms by simp
  moreover have "sgn (ms * per_ms + rest) * ms = ms"
  proof (cases "ms = 0")
    case False
    then have "0 < ms * per_ms + rest" using assms by (simp add: add_pos_nonneg)
    then show ?thesis by simp
  qed simp
  ultimately have d: "sgn (ms * per_ms + rest) * (\<bar>ms * per_ms + rest\<bar> div per_ms) = ms" by simp
  have "time_diff per_ms start (start + ms * per_ms + rest)
      = to_int32 (sgn (ms * per_ms + rest) * (\<bar>ms * per_ms + rest\<bar> div per_ms))"
    by (simp only: time_diff_def add.assoc add_diff_cancel_left')
  then show ?thesis unfolding d using assms by (simp add: to_int32_id)
qed

text \<open>After 25 days the difference is negative.\<close>

lemma time_diff_wraps: "time_diff 1000000 0 (25 * 24 * 60 * 60 * 1000 * 1000000) < 0"
  by (simp add: time_diff_def to_int32_def)

end
