(* ===== verification/Credentials.thy ===== *)
theory Credentials imports Handles CertHelper "HOL-Library.Multiset" begin

text \<open>
  The owners of security handles. \<open>HandleTraits\<close> (\<open>socket/Handle.h\<close>) is an interface that the pointers and
  the two-word handles of \<open>socket/SecurityHandle.h\<close> implement; the classes of \<open>socket/CertRAII.cpp\<close> own one
  handle each. The lemmas show what an owner closes under every implementation of the interface, and that
  creating a certificate releases, on every path, exactly the handles it acquired.
\<close>

section \<open>Traits of handles\<close>

record 'h traits =
  tr_invalid :: 'h
  tr_equal :: "'h \<Rightarrow> 'h \<Rightarrow> bool"
  tr_less :: "'h \<Rightarrow> 'h \<Rightarrow> bool"

definition held :: "'h traits \<Rightarrow> 'h \<Rightarrow> bool" where
  "held T h \<longleftrightarrow> \<not> tr_equal T h (tr_invalid T)"

definition traits_close :: "'h traits \<Rightarrow> 'h \<Rightarrow> 'h list \<Rightarrow> 'h \<times> 'h list" where
  "traits_close T h closes = (if held T h then (tr_invalid T, closes @ [h]) else (h, closes))"

definition traits_attach :: "'h traits \<Rightarrow> 'h \<Rightarrow> 'h \<Rightarrow> 'h list \<Rightarrow> 'h \<times> 'h list" where
  "traits_attach T v h closes = (v, snd (traits_close T h closes))"

definition traits_detach :: "'h traits \<Rightarrow> 'h \<Rightarrow> 'h \<times> 'h" where
  "traits_detach T h = (h, tr_invalid T)"

definition traits_differ :: "'h traits \<Rightarrow> 'h \<Rightarrow> 'h \<Rightarrow> bool" where
  "traits_differ T a b \<longleftrightarrow> \<not> tr_equal T a b"

definition traits_greater :: "'h traits \<Rightarrow> 'h \<Rightarrow> 'h \<Rightarrow> bool" where
  "traits_greater T a b \<longleftrightarrow> tr_less T b a"

definition traits_at_most :: "'h traits \<Rightarrow> 'h \<Rightarrow> 'h \<Rightarrow> bool" where
  "traits_at_most T a b \<longleftrightarrow> \<not> tr_less T b a"

definition traits_at_least :: "'h traits \<Rightarrow> 'h \<Rightarrow> 'h \<Rightarrow> bool" where
  "traits_at_least T a b \<longleftrightarrow> \<not> tr_less T a b"

text \<open>What the class template relies on: \<open>Equal\<close> is equality, \<open>Less\<close> a strict linear order.\<close>

locale handle_traits =
  fixes T :: "'h traits"
  assumes equal_iff: "tr_equal T a b \<longleftrightarrow> a = b"
    and less_irrefl: "\<not> tr_less T a a"
    and less_trans: "tr_less T a b \<Longrightarrow> tr_less T b c \<Longrightarrow> tr_less T a c"
    and less_total: "a \<noteq> b \<Longrightarrow> tr_less T a b \<or> tr_less T b a"
begin

lemma held_iff: "held T h \<longleftrightarrow> h \<noteq> tr_invalid T"
  by (simp add: held_def equal_iff)

lemma close_twice: "traits_close T h cs = (h1, cs1) \<Longrightarrow> traits_close T h1 cs1 = (h1, cs1)"
  by (auto simp: traits_close_def held_iff split: if_splits)

lemma closed_is_invalid: "fst (traits_close T h cs) = tr_invalid T"
  by (simp add: traits_close_def held_iff)

text \<open>An owner that gets one handle after the other closes each of them when the next one comes.\<close>

lemma attach_many:
  "fold (\<lambda>v (h, cs). traits_attach T v h cs) vs (h, cs) =
     (last (h # vs), cs @ filter (held T) (butlast (h # vs)))"
proof (induction vs arbitrary: h cs)
  case (Cons v vs)
  have "traits_attach T v h cs = (v, cs @ filter (held T) [h])"
    by (simp add: traits_attach_def traits_close_def)
  then show ?case by (simp add: Cons.IH)
qed simp

lemma detached_is_not_closed: "traits_detach T h = (v, h1) \<Longrightarrow> v = h \<and> snd (traits_close T h1 cs) = cs"
  by (auto simp: traits_detach_def traits_close_def held_iff)

lemma at_most_linear:
  "traits_at_most T a a" "traits_at_most T a b \<or> traits_at_most T b a"
  "traits_at_most T a b \<Longrightarrow> traits_at_most T b a \<Longrightarrow> a = b"
  "traits_at_most T a b \<Longrightarrow> traits_at_most T b c \<Longrightarrow> traits_at_most T a c"
  using less_irrefl less_trans less_total by (auto simp: traits_at_most_def) metis+

lemma comparisons_agree:
  "traits_at_least T a b \<longleftrightarrow> traits_at_most T b a" "traits_greater T a b \<longleftrightarrow> traits_differ T a b \<and> traits_at_least T a b"
  using less_irrefl less_trans less_total [of a b]
  by (auto simp: traits_at_least_def traits_at_most_def traits_greater_def traits_differ_def equal_iff)

end

text \<open>The defaults, for pointers; \<open>nullptr\<close> is 0.\<close>

definition pointer_traits :: "nat traits" where
  "pointer_traits = \<lparr>tr_invalid = 0, tr_equal = (=), tr_less = (<)\<rparr>"

interpretation pointers: handle_traits pointer_traits
  by unfold_locales (auto simp: pointer_traits_def)

text \<open>A credential and a security context are two words each, invalid when both are all ones.\<close>

record sec_handle =
  dw_lower :: "64 word"
  dw_upper :: "64 word"

definition two_words_less :: "sec_handle \<Rightarrow> sec_handle \<Rightarrow> bool" where
  "two_words_less left right =
     (if dw_upper left = dw_upper right then dw_lower left < dw_lower right else dw_upper left < dw_upper right)"

definition credential_traits :: "sec_handle traits" where
  "credential_traits =
     \<lparr>tr_invalid = \<lparr>dw_lower = - 1, dw_upper = - 1\<rparr>,
      tr_equal = (\<lambda>left right. dw_upper left = dw_upper right \<and> dw_lower left = dw_lower right),
      tr_less = two_words_less\<rparr>"

definition security_context_traits :: "sec_handle traits" where
  "security_context_traits =
     \<lparr>tr_invalid = \<lparr>dw_lower = - 1, dw_upper = - 1\<rparr>,
      tr_equal = (\<lambda>left right. dw_upper left = dw_upper right \<and> dw_lower left = dw_lower right),
      tr_less = two_words_less\<rparr>"

lemma sec_handle_eq: "dw_upper a = dw_upper b \<Longrightarrow> dw_lower a = dw_lower b \<Longrightarrow> a = (b :: sec_handle)"
  by simp

interpretation credentials: handle_traits credential_traits
  by unfold_locales (auto simp: credential_traits_def two_words_less_def split: if_splits intro: sec_handle_eq)

interpretation contexts: handle_traits security_context_traits
  by unfold_locales (auto simp: security_context_traits_def two_words_less_def split: if_splits intro: sec_handle_eq)

text \<open>A credential that is replaced and then closed: every one of them is freed once, in order.\<close>

lemma credentials_freed_once:
  assumes "a \<noteq> tr_invalid credential_traits" and "b \<noteq> tr_invalid credential_traits"
  shows "fold (\<lambda>v (h, cs). traits_attach credential_traits v h cs) [a, b, tr_invalid credential_traits]
      (tr_invalid credential_traits, []) = (tr_invalid credential_traits, [a, b])"
  unfolding credentials.attach_many using assms by (simp add: credentials.held_iff)

section \<open>CertRAII\<close>

text \<open>
  \<open>CSP\<close>, \<open>CryptKey\<close> and \<open>CertStore\<close> hold one handle, 0 for none; \<open>CryptProvider\<close> also the name of its key
  container, a new UUID. Acquiring writes the handle without releasing the one before. The answers of
  Windows are arguments.
\<close>

datatype release =
    Release_Context nat
  | Free_Name wstring
  | Destroy_Key nat
  | Close_Store nat
  | Free_Certificate nat

record crypt_provider =
  cp_name :: "wstring option"
  cp_handle :: nat

definition crypt_provider_new :: "nat \<Rightarrow> wstring option \<Rightarrow> crypt_provider" where
  "crypt_provider_new uuid_status uuid_text =
     \<lparr>cp_name = (if uuid_status = 0 then uuid_text else None), cp_handle = 0\<rparr>"

definition crypt_provider_acquire :: "nat option \<Rightarrow> crypt_provider \<Rightarrow> bool \<times> crypt_provider" where
  "crypt_provider_acquire answer p =
     (case answer of None \<Rightarrow> (False, p) | Some h \<Rightarrow> (True, p\<lparr>cp_handle := h\<rparr>))"

definition crypt_provider_destroy :: "crypt_provider \<Rightarrow> release list" where
  "crypt_provider_destroy p =
     (if cp_handle p \<noteq> 0 then [Release_Context (cp_handle p)] else [])
     @ (case cp_name p of None \<Rightarrow> [] | Some n \<Rightarrow> [Free_Name n])"

definition crypt_key_gen :: "nat option \<Rightarrow> nat \<Rightarrow> bool \<times> nat" where
  "crypt_key_gen answer k = (case answer of None \<Rightarrow> (False, k) | Some h \<Rightarrow> (True, h))"

definition crypt_key_destroy :: "nat \<Rightarrow> release list" where
  "crypt_key_destroy k = (if k \<noteq> 0 then [Destroy_Key k] else [])"

definition cert_store_open :: "nat \<Rightarrow> nat \<Rightarrow> bool \<times> nat" where
  "cert_store_open answer old = (answer \<noteq> 0, answer)"

definition cert_store_destroy :: "nat \<Rightarrow> release list" where
  "cert_store_destroy h = (if h \<noteq> 0 then [Close_Store h] else [])"

definition csp_acquire :: "nat option \<Rightarrow> nat \<Rightarrow> bool \<times> nat" where
  "csp_acquire answer c = (case answer of None \<Rightarrow> (False, c) | Some h \<Rightarrow> (True, h))"

definition csp_destroy :: "nat \<Rightarrow> release list" where
  "csp_destroy c = (if c \<noteq> 0 then [Release_Context c] else [])"

text \<open>A store that is opened twice closes only the second.\<close>

lemma reopened_store_leaks:
  "a \<noteq> b \<Longrightarrow> Close_Store a \<notin> set (cert_store_destroy (snd (cert_store_open b (snd (cert_store_open a 0)))))"
  by (simp add: cert_store_open_def cert_store_destroy_def)

section \<open>What a creation holds\<close>

text \<open>
  The local variables of \<open>CreateCertificate\<close> that own something. \<open>ok\<close> tells which calls succeed, \<open>h\<close> the
  handle each of them then yields.
\<close>

record creation_objects =
  co_provider :: crypt_provider
  co_key :: nat
  co_context :: nat
  co_store :: nat
  co_csp :: nat

definition perform :: "(creation_call \<Rightarrow> bool) \<Rightarrow> (creation_call \<Rightarrow> nat) \<Rightarrow> creation_call \<Rightarrow> creation_objects \<Rightarrow> creation_objects" where
  "perform ok h c v =
     (let answer = (if ok c then Some (h c) else None) in
      case c of
        Acquire_Container m \<Rightarrow> v\<lparr>co_provider := snd (crypt_provider_acquire answer (co_provider v))\<rparr>
      | New_Container \<Rightarrow> v\<lparr>co_provider := snd (crypt_provider_acquire answer (co_provider v))\<rparr>
      | Generate_Key \<Rightarrow> v\<lparr>co_key := snd (crypt_key_gen answer (co_key v))\<rparr>
      | Self_Sign \<Rightarrow> v\<lparr>co_context := (if ok c then h c else 0)\<rparr>
      | Open_For_Writing k \<Rightarrow> v\<lparr>co_store := snd (cert_store_open (if ok c then h c else 0) (co_store v))\<rparr>
      | Acquire_Private_Key \<Rightarrow> v\<lparr>co_csp := snd (csp_acquire answer (co_csp v))\<rparr>
      | _ \<Rightarrow> v)"

text \<open>On return the variables are destroyed, the last one first; a success detaches the certificate.\<close>

definition unwind :: "bool \<Rightarrow> creation_objects \<Rightarrow> release list" where
  "unwind success v =
     (let context = (if success then snd (traits_detach pointer_traits (co_context v)) else co_context v) in
      csp_destroy (co_csp v) @ cert_store_destroy (co_store v)
      @ map Free_Certificate (snd (traits_close pointer_traits context []))
      @ crypt_key_destroy (co_key v) @ crypt_provider_destroy (co_provider v))"

definition creation_releases ::
    "(creation_call \<Rightarrow> bool) \<Rightarrow> (creation_call \<Rightarrow> nat) \<Rightarrow> crypt_provider \<Rightarrow> bool \<Rightarrow> creation_call list \<Rightarrow> release list" where
  "creation_releases ok h provider success calls =
     unwind success (fold (perform ok h) calls
       \<lparr>co_provider = provider, co_key = 0, co_context = 0, co_store = 0, co_csp = 0\<rparr>)"

text \<open>What a call acquires, as the release that gives it back.\<close>

definition acquired :: "(creation_call \<Rightarrow> nat) \<Rightarrow> creation_call \<Rightarrow> release list" where
  "acquired h c =
     (case c of
        Acquire_Container m \<Rightarrow> [Release_Context (h c)]
      | New_Container \<Rightarrow> [Release_Context (h c)]
      | Generate_Key \<Rightarrow> [Destroy_Key (h c)]
      | Self_Sign \<Rightarrow> [Free_Certificate (h c)]
      | Open_For_Writing k \<Rightarrow> [Close_Store (h c)]
      | Acquire_Private_Key \<Rightarrow> [Release_Context (h c)]
      | _ \<Rightarrow> [])"

lemmas creation_objects_defs = perform_def unwind_def crypt_provider_acquire_def crypt_provider_destroy_def
  crypt_key_gen_def crypt_key_destroy_def cert_store_open_def cert_store_destroy_def csp_acquire_def csp_destroy_def
  traits_attach_def traits_detach_def traits_close_def held_def pointer_traits_def acquired_def

text \<open>
  The calls acquire into five variables. When no call that succeeds is followed by one for the same
  variable, every handle is held until the variables are destroyed.
\<close>

definition slots :: "creation_call \<Rightarrow> nat list" where
  "slots c =
     (case c of Acquire_Container m \<Rightarrow> [0] | New_Container \<Rightarrow> [0] | Generate_Key \<Rightarrow> [1] | Self_Sign \<Rightarrow> [2]
      | Open_For_Writing k \<Rightarrow> [3] | Acquire_Private_Key \<Rightarrow> [4] | _ \<Rightarrow> [])"

definition slot_value :: "creation_objects \<Rightarrow> nat \<Rightarrow> nat" where
  "slot_value v n =
     (if n = 0 then cp_handle (co_provider v) else if n = 1 then co_key v else if n = 2 then co_context v
      else if n = 3 then co_store v else co_csp v)"

definition slots_free :: "creation_objects \<Rightarrow> creation_call \<Rightarrow> bool" where
  "slots_free v c = list_all (\<lambda>n. slot_value v n = 0) (slots c)"

fun well_slotted :: "(creation_call \<Rightarrow> bool) \<Rightarrow> creation_call list \<Rightarrow> bool" where
  "well_slotted ok [] \<longleftrightarrow> True"
| "well_slotted ok (c # cs) \<longleftrightarrow> (ok c \<longrightarrow> list_all (\<lambda>d. set (slots c) \<inter> set (slots d) = {}) cs) \<and> well_slotted ok cs"

lemma perform_owned:
  assumes "slots_free v c" and "ok c \<Longrightarrow> h c \<noteq> 0"
  shows "mset (unwind False (perform ok h c v)) = mset (unwind False v) + mset (if ok c then acquired h c else [])"
  using assms by (cases c) (auto simp: creation_objects_defs slots_free_def slots_def slot_value_def Let_def)

lemma perform_keeps_free:
  assumes "slots_free v c" and "slots_free v d" and "ok c \<Longrightarrow> set (slots c) \<inter> set (slots d) = {}"
  shows "slots_free (perform ok h c v) d"
  using assms by (cases c; cases d)
    (auto simp: perform_def slots_free_def slots_def slot_value_def crypt_provider_acquire_def crypt_key_gen_def
      cert_store_open_def csp_acquire_def)

lemma performed_owned:
  assumes "\<And>c. ok c \<Longrightarrow> h c \<noteq> 0"
  shows "well_slotted ok calls \<Longrightarrow> list_all (slots_free v) calls \<Longrightarrow>
    mset (unwind False (fold (perform ok h) calls v)) = mset (unwind False v) + mset (concat (map (acquired h) (filter ok calls)))"
proof (induction calls arbitrary: v)
  case (Cons c calls)
  then have "list_all (slots_free (perform ok h c v)) calls"
    using perform_keeps_free by (auto simp: list_all_iff)
  with Cons show ?case using perform_owned [of v c ok h] assms by simp
qed simp

lemma well_slotted_append: "well_slotted ok (xs @ ys) \<Longrightarrow> well_slotted ok xs"
  by (induction xs) auto

lemma well_slotted_prefix: "prefix xs ys \<Longrightarrow> well_slotted ok ys \<Longrightarrow> well_slotted ok xs"
  using well_slotted_append by (auto simp: prefix_def)

lemma performed_context:
  "co_context (fold (perform ok h) calls v) =
     (if Self_Sign \<in> set calls then (if ok Self_Sign then h Self_Sign else 0) else co_context v)"
proof (induction calls arbitrary: v)
  case (Cons c calls)
  have "co_context (perform ok h c v) = (if c = Self_Sign then (if ok c then h c else 0) else co_context v)"
    by (cases c) (simp_all add: perform_def)
  then show ?case by (auto simp: Cons.IH)
qed simp

lemma unwind_success:
  "mset (unwind True v) + (if co_context v \<noteq> 0 then {#Free_Certificate (co_context v)#} else {#}) = mset (unwind False v)"
  by (auto simp: unwind_def traits_detach_def traits_close_def held_def pointer_traits_def)

lemma creation_calls:
  assumes "create_certificate ok m s f d cl = (calls, success)"
  shows "well_slotted ok calls"
    and "success \<Longrightarrow> ok Self_Sign \<and> Self_Sign \<in> set calls"
proof -
  let ?steps = "creation_steps m s f d cl"
  have steps: "well_slotted ok (Acquire_Container m # ?steps)"
    "\<not> ok (Acquire_Container m) \<Longrightarrow> well_slotted ok (Acquire_Container m # New_Container # ?steps)"
    by (simp_all add: creation_steps_def slots_def Let_def)
  obtain done1 r1 done2 r2 where
    r: "run_calls ok ?steps = (done1, r1)" "run_calls ok (New_Container # ?steps) = (done2, r2)" by (metis surj_pair)
  have p: "prefix (Acquire_Container m # done1) (Acquire_Container m # ?steps)"
    "prefix (Acquire_Container m # done2) (Acquire_Container m # New_Container # ?steps)"
    using run_calls_done [OF r(1)] run_calls_done [OF r(2)] by simp_all
  have calls: "calls = Acquire_Container m # (if ok (Acquire_Container m) then done1 else done2)"
      "success = (if ok (Acquire_Container m) then r1 else r2)"
    using assms r by (auto simp: create_certificate_def Let_def split: if_splits)
  show "well_slotted ok calls"
  proof (cases "ok (Acquire_Container m)")
    case True
    then show ?thesis using well_slotted_prefix [OF p(1) steps(1)] calls(1) by simp
  next
    case False
    then show ?thesis using well_slotted_prefix [OF p(2) steps(2) [OF False]] calls(1) by simp
  qed
  have "Self_Sign \<in> set ?steps" by (simp add: creation_steps_def Let_def)
  then have done1: "r1 \<Longrightarrow> ok Self_Sign \<and> Self_Sign \<in> set done1" and done2: "r2 \<Longrightarrow> ok Self_Sign \<and> Self_Sign \<in> set done2"
    using run_calls_done [OF r(1)] run_calls_done [OF r(2)] by (simp_all add: list_all_iff)
  show "success \<Longrightarrow> ok Self_Sign \<and> Self_Sign \<in> set calls"
    using done1 done2 calls by (cases "ok (Acquire_Container m)") simp_all
qed

text \<open>
  C17. Creating a certificate leaks nothing: whichever of its calls fails, when \<open>CreateCertificate\<close> returns it
  has released exactly the handles and the name it acquired, each once; only the certificate itself is
  kept, and only on success.
\<close>

theorem creation_leaks_nothing:
  assumes "create_certificate ok m s f d cl = (calls, success)" and "\<And>c. ok c \<Longrightarrow> h c \<noteq> 0"
  shows "mset (creation_releases ok h (crypt_provider_new status name) success calls)
      + (if success then {#Free_Certificate (h Self_Sign)#} else {#})
    = mset (concat (map (acquired h) (filter ok calls)))
      + (if status = 0 then mset (case name of None \<Rightarrow> [] | Some n \<Rightarrow> [Free_Name n]) else {#})"
proof -
  let ?start = "\<lparr>co_provider = crypt_provider_new status name, co_key = 0, co_context = 0, co_store = 0, co_csp = 0\<rparr>"
  let ?final = "fold (perform ok h) calls ?start"
  have "list_all (slots_free ?start) calls"
    by (auto simp: list_all_iff slots_free_def slot_value_def crypt_provider_new_def)
  with performed_owned [of ok h calls ?start] creation_calls(1) [OF assms(1)] assms(2)
  have all: "mset (unwind False ?final) = mset (unwind False ?start) + mset (concat (map (acquired h) (filter ok calls)))"
    by blast
  have start: "mset (unwind False ?start) = (if status = 0 then mset (case name of None \<Rightarrow> [] | Some n \<Rightarrow> [Free_Name n]) else {#})"
    by (simp add: creation_objects_defs crypt_provider_new_def Let_def)
  show ?thesis
  proof (cases success)
    case True
    then have "co_context ?final = h Self_Sign" "co_context ?final \<noteq> 0"
      using performed_context [of ok h calls ?start] creation_calls(2) [OF assms(1)] assms(2) by simp_all
    then show ?thesis using True all start unwind_success [of ?final]
      by (simp add: creation_releases_def add.commute)
  next
    case False
    then show ?thesis using all start by (simp add: creation_releases_def add.commute)
  qed
qed

definition demo_handle :: "creation_call \<Rightarrow> nat" where
  "demo_handle c = (case slots c of [] \<Rightarrow> 9 | n # ns \<Rightarrow> n + 1)"

theorem creation_leaks_nothing_witness:
  "mset (creation_releases (\<lambda>c. c \<noteq> Add_To_Store) demo_handle (crypt_provider_new 0 (Some [])) False
      (fst (create_certificate (\<lambda>c. c \<noteq> Add_To_Store) False None None None True)))
    = {#Release_Context 1, Destroy_Key 2, Free_Certificate 3, Close_Store 4, Free_Name []#}"
proof -
  let ?ok = "\<lambda>c. c \<noteq> Add_To_Store"
  have calls: "create_certificate ?ok False None None None True =
      (Acquire_Container False # take 9 (creation_steps False None None None True), False)"
    by (simp add: create_certificate_def creation_steps_def Let_def)
  have acq: "mset (concat (map (acquired demo_handle)
      (filter ?ok (Acquire_Container False # take 9 (creation_steps False None None None True)))))
    = {#Release_Context 1, Destroy_Key 2, Free_Certificate 3, Close_Store 4#}"
    by (simp add: creation_steps_def acquired_def demo_handle_def slots_def Let_def)
  have "\<And>c. ?ok c \<Longrightarrow> demo_handle c \<noteq> 0" by (simp add: demo_handle_def split: list.splits)
  from creation_leaks_nothing [OF calls this, of "\<lambda>c. c" 0 "Some []"] show ?thesis
    unfolding calls acq by simp
qed

end
