(* ===== verification/CertDisplay.thy ===== *)
theory CertDisplay imports CertHelper Utilities begin

text \<open>
  The parts of \<open>socket/CertHelper.cpp\<close> that show certificates to people: \<open>GetCertName\<close>, the selection dialog of
  \<open>CertFindServerCertificateUI\<close> and \<open>ShowCertInfo\<close>; and the end of the validity of a new certificate. What the
  dialog shows and what was chosen are arguments. The lemmas show that a chosen certificate is a valid one
  and when showing its properties succeeds.
\<close>

section \<open>The name of a certificate\<close>

text \<open>
  The string has 128 characters, but the size that is passed is its capacity. \<open>None\<close>: there is no name. When
  no NUL lies in the 128 characters, \<open>find\<close> answers npos and \<open>resize\<close> throws.
\<close>

definition get_cert_name :: "nat \<Rightarrow> wstring option \<Rightarrow> wstring result" where
  "get_cert_name capacity name =
     (case name of
        None \<Rightarrow> Inr (widen ''<unknown>'')
      | Some n \<Rightarrow>
          (let buf = take 128 (take (capacity - 1) n @ replicate 128 0) in
           if 0 \<in> set buf then Inr (takeWhile (\<lambda>w. w \<noteq> 0) buf) else Inl (Runtime_Error ''string too long'')))"

lemma cert_name_read:
  assumes "0 \<notin> set n" and "length n < 128" and "128 \<le> capacity"
  shows "get_cert_name capacity (Some n) = Inr n"
proof -
  have "take (capacity - 1) n = n" using assms by simp
  moreover have "take 128 (n @ replicate 128 0) = n @ 0 # replicate (127 - length n) 0"
  proof -
    have "min (128 - length n) 128 = Suc (127 - length n)" using assms(2) by simp
    then show ?thesis using assms(2) by (simp add: take_replicate)
  qed
  moreover have "takeWhile (\<lambda>w. w \<noteq> 0) (n @ 0 # ws) = n" for ws
    using assms(1) by (subst takeWhile_append2) auto
  ultimately show ?thesis by (simp only: get_cert_name_def Let_def) simp
qed

text \<open>A capacity above 128, as a library may give it, makes a long name throw.\<close>

lemma cert_name_throws:
  assumes "0 \<notin> set n" and "128 < capacity" and "128 \<le> length n"
  shows "get_cert_name capacity (Some n) = Inl (Runtime_Error ''string too long'')"
proof -
  have "128 \<le> length (take (capacity - 1) n)" using assms(2,3) by simp
  then have "take 128 (take (capacity - 1) n @ replicate 128 0) = take 128 n" using assms(2) by (simp add: min_absorb1)
  moreover have "0 \<notin> set (take 128 n)" using assms(1) by (auto dest: in_set_takeD)
  ultimately show ?thesis by (simp add: get_cert_name_def)
qed

section \<open>The selection dialog\<close>

definition e_nointerface :: nat where "e_nointerface = 0x80004002"
definition e_fail :: nat where "e_fail = 0x80004005"

record ui_env =
  ui_dll :: bool
  ui_proc :: bool
  ui_contents :: "store_kind \<Rightarrow> cert_context list"
  ui_choice :: "cert_context list \<Rightarrow> cert_context option"
  ui_capacity :: nat

text \<open>The filter callback: every certificate is named first, and a null name to compare with is undefined.\<close>

fun displayed :: "cert_env \<Rightarrow> nat \<Rightarrow> wstring option \<Rightarrow> cert_context list \<Rightarrow> cert_context list result" where
  "displayed env capacity subject [] = Inr []"
| "displayed env capacity subject (c # cs) =
     bind_result (get_cert_name capacity (friendly_name env c)) (\<lambda>n.
       case subject of
         None \<Rightarrow> Inl Undefined
       | Some s \<Rightarrow> bind_result (displayed env capacity subject cs) (\<lambda>shown.
           Inr (if valid_server_cert env c s then c # shown else shown)))"

text \<open>
  The function of the library is looked up once, when it is not \<open>linked\<close> yet; that it is there is not
  checked. The result: status and certificate, the cache of stores, and whether it is linked.
\<close>

definition cert_find_server_ui :: "cert_env \<Rightarrow> ui_env \<Rightarrow> cert_context option \<Rightarrow> wstring option \<Rightarrow> bool
    \<Rightarrow> store_cache \<Rightarrow> bool \<Rightarrow> (nat \<times> cert_context option) result \<times> store_cache \<times> bool" where
  "cert_find_server_ui env ui start subject use_user cache linked =
     (let (h, cache1) = get_store env use_user cache in
      if \<not> succeeded h then (Inr (h, start), cache1, linked)
      else if \<not> linked \<and> \<not> ui_dll ui then (Inr (e_nointerface, None), cache1, False)
      else if \<not> linked \<and> \<not> ui_proc ui then (Inl Undefined, cache1, False)
      else (bind_result (displayed env (ui_capacity ui) subject (ui_contents ui (store_of use_user))) (\<lambda>shown.
              case ui_choice ui shown of
                None \<Rightarrow> Inr (sec_e_cert_unknown, None)
              | Some c \<Rightarrow> Inr (0, Some c)), cache1, True))"

lemma displayed_valid:
  "displayed env capacity (Some s) cs = Inr shown \<Longrightarrow> shown = filter (\<lambda>c. valid_server_cert env c s) cs"
  by (induction cs arbitrary: shown) (auto simp: bind_result_Inr)

text \<open>What the user chooses among the shown certificates is in the store, and valid for the name.\<close>

lemma ui_choice_valid:
  assumes "cert_find_server_ui env ui start (Some s) use_user cache linked = (Inr (0, Some c), cache', linked')"
    and "\<And>cs c. ui_choice ui cs = Some c \<Longrightarrow> c \<in> set cs" and "start = None"
  shows "c \<in> set (ui_contents ui (store_of use_user)) \<and> valid_server_cert env c s \<and> linked'"
proof -
  obtain h cache1 where g: "get_store env use_user cache = (h, cache1)" by force
  obtain shown where "displayed env (ui_capacity ui) (Some s) (ui_contents ui (store_of use_user)) = Inr shown"
      "ui_choice ui shown = Some c" "linked'"
    using assms(1,3) by (auto simp: cert_find_server_ui_def g bind_result_Inr e_nointerface_def split: if_splits option.splits)
  moreover from displayed_valid [OF this(1)] have "set shown = {c \<in> set (ui_contents ui (store_of use_user)). valid_server_cert env c s}"
    by simp
  ultimately show ?thesis using assms(2) [of shown c] by simp
qed

section \<open>The properties of a certificate\<close>

text \<open>What \<open>ShowCertInfo\<close> prints for the property numbers it knows.\<close>

definition property_labels :: "(nat \<times> string) list" where
  "property_labels =
     [(11, ''Friendly name: ''), (15, ''Signature hash identifier ''), (1, ''KEY PROVE HANDLE''),
      (2, ''KEY PROV INFO PROP ID ''), (3, ''SHA1 HASH identifier''), (4, ''md5 hash identifier ''),
      (5, ''KEY CONTEXT PROP identifier''), (6, ''KEY SPEC PROP identifier''), (9, ''ENHKEY USAGE PROP identifier''),
      (10, ''NEXT UPDATE LOCATION PROP identifier''), (12, ''PVK FILE PROP identifier ''),
      (13, ''DESCRIPTION PROP identifier ''), (14, ''ACCESS STATE PROP identifier ''),
      (16, ''SMART_CARD DATA PROP identifier ''), (17, ''EFS PROP identifier ''),
      (18, ''FORTEZZA DATA PROP identifier ''), (19, ''ARCHIVED PROP identifier ''),
      (20, ''KEY IDENTIFIER PROP identifier ''), (21, ''AUTO ENROLL identifier. ''),
      (24, ''ISSUER PUBLIC KEY MD5 HASH identifier. '')]"

text \<open>A property: its number, its size unless the first call fails, its bytes unless the second does.\<close>

record cert_property =
  prop_id :: nat
  prop_size :: "nat option"
  prop_data :: "string option"

definition property_readable :: "cert_property \<Rightarrow> bool" where
  "property_readable p \<longleftrightarrow> prop_size p \<noteq> None \<and> (prop_size p \<noteq> Some 0 \<longrightarrow> prop_data p \<noteq> None)"

definition property_head :: "cert_property \<Rightarrow> string list" where
  "property_head p =
     (''Property # '' @ nat_str (prop_id p) @ '' found->'')
     # (case map_of property_labels (prop_id p) of Some l \<Rightarrow> [l] | None \<Rightarrow> [])"

definition property_content :: "cert_property \<Rightarrow> string list" where
  "property_content p =
     (case (prop_size p, prop_data p) of
        (None, _) \<Rightarrow> [''Call #1 to CertGetCertificateContextProperty failed.'']
      | (Some 0, _) \<Rightarrow> [''The Property is empty'']
      | (Some n, None) \<Rightarrow> [''Call #2 to CertGetCertificateContextProperty failed.'']
      | (Some n, Some d) \<Rightarrow> ''The Property Content is'' # print_hex_dump False d)"

fun show_properties :: "cert_property list \<Rightarrow> string list \<times> nat" where
  "show_properties [] = ([], 0)"
| "show_properties (p # ps) =
     (let lines = property_head p @ property_content p in
      if \<not> property_readable p then (lines, e_fail)
      else (let (more_lines, status) = show_properties ps in (lines @ more_lines, status)))"

definition show_cert_info :: "bool \<Rightarrow> string option \<Rightarrow> string list \<Rightarrow> cert_property list \<Rightarrow> string list \<times> nat" where
  "show_cert_info dialog_ok name extensions ps =
     (let (lines, status) = show_properties ps in
      ((if dialog_ok then [] else [''UI failed.''])
       @ [case name of Some n \<Rightarrow> ''Certificate for '' @ n | None \<Rightarrow> ''CertGetName failed.'']
       @ map (\<lambda>e. ''Extension '' @ e) extensions @ lines, status))"

text \<open>It succeeds exactly when every property can be read, and stops behind the first that cannot.\<close>

lemma show_properties_status: "snd (show_properties ps) = 0 \<longleftrightarrow> list_all property_readable ps"
  by (induction ps) (auto simp: e_fail_def Let_def split: prod.splits)

lemma show_properties_stops:
  assumes "list_all property_readable ps" and "\<not> property_readable p"
  shows "show_properties (ps @ p # qs) =
    (concat (map (\<lambda>p. property_head p @ property_content p) (ps @ [p])), e_fail)"
  using assms by (induction ps) (auto simp: Let_def)

lemma show_cert_info_status: "snd (show_cert_info d n es ps) = 0 \<longleftrightarrow> list_all property_readable ps"
  by (simp add: show_cert_info_def show_properties_status split: prod.splits) (metis show_properties_status snd_conv)

section \<open>The end of the validity\<close>

text \<open>Five years are added to the year of the date, a 16-bit number; the rest of the date stays.\<close>

definition end_time :: "nat \<times> nat \<times> nat \<Rightarrow> nat \<times> nat \<times> nat" where
  "end_time date = (case date of (y, m, d) \<Rightarrow> ((y + 5) mod 2 ^ 16, m, d))"

definition leap_year :: "nat \<Rightarrow> bool" where
  "leap_year y \<longleftrightarrow> y mod 4 = 0 \<and> (y mod 100 \<noteq> 0 \<or> y mod 400 = 0)"

definition month_days :: "nat \<Rightarrow> nat \<Rightarrow> nat" where
  "month_days y m = (if m = 2 then (if leap_year y then 29 else 28) else if m \<in> {4, 6, 9, 11} then 30 else 31)"

definition date_ok :: "nat \<times> nat \<times> nat \<Rightarrow> bool" where
  "date_ok date = (case date of (y, m, d) \<Rightarrow> 1 \<le> m \<and> m \<le> 12 \<and> 1 \<le> d \<and> d \<le> month_days y m)"

text \<open>On every day but one the end is a date; on a leap day it is the 29th of February of a common year.\<close>

lemma end_time_date:
  assumes "date_ok (y, m, d)" and "y + 5 < 2 ^ 16"
  shows "date_ok (end_time (y, m, d)) \<longleftrightarrow> \<not> (m = 2 \<and> d = 29)"
proof -
  have "\<not> leap_year (y + 5)" if "leap_year y" using that unfolding leap_year_def by presburger
  then show ?thesis using assms by (auto simp: end_time_def date_ok_def month_days_def split: if_splits)
qed

end
