(* ===== verification/Bindings.thy ===== *)
theory Bindings imports Accept AsyncConnection Ping begin

text \<open>
  What \<open>main.cpp\<close> registers with Lua around the other components: the addresses of sockets, the class of
  polled connections, \<open>network.async\<close>, \<open>network.ping\<close> and the table of the module. The library that makes
  classes of C++ types is not part of the repository; a userdata of a polled connection is what it holds,
  \<open>None\<close> for a null pointer. The lemmas show that ports are read back, that collecting a connection undoes
  its creation once, and what a ping reports.
\<close>

section \<open>Addresses\<close>

text \<open>
  A \<open>sockaddr_storage\<close> is its 128 bytes: the family, little endian; the port, big endian, in either kind of
  address; then an IPv4 address, or 4 more bytes and an IPv6 address. Every family but \<open>AF_INET\<close> counts as
  IPv6. \<open>ntop4\<close> and \<open>ntop6\<close> are \<open>inet_ntop\<close>.
\<close>

definition ss_family :: "string \<Rightarrow> nat" where
  "ss_family sa = byte (sa ! 0) + 256 * byte (sa ! 1)"

definition network_word :: "string \<Rightarrow> nat \<Rightarrow> nat" where
  "network_word sa i = 256 * byte (sa ! i) + byte (sa ! (i + 1))"

definition sockaddr_ip :: "(string \<Rightarrow> string) \<Rightarrow> (string \<Rightarrow> string) \<Rightarrow> string \<Rightarrow> string" where
  "sockaddr_ip ntop4 ntop6 sa =
     c_str (if ss_family sa = 2 then ntop4 (take 4 (drop 4 sa)) else ntop6 (take 16 (drop 8 sa)))"

definition sockaddr_port :: "string \<Rightarrow> int" where
  "sockaddr_port sa = int (if ss_family sa = 2 then network_word sa 2 else network_word sa 2)"

text \<open>
  \<open>GetLocal\<close> and \<open>GetRemote\<close> of every kind of socket do not look at what the system answered: when it
  failed (\<open>None\<close>), the structure they return was never written.
\<close>

definition get_local :: "string option \<Rightarrow> string result" where
  "get_local getsockname = (case getsockname of None \<Rightarrow> Inl Undefined | Some sa \<Rightarrow> Inr sa)"

definition get_remote :: "string option \<Rightarrow> string result" where
  "get_remote getpeername = (case getpeername of None \<Rightarrow> Inl Undefined | Some sa \<Rightarrow> Inr sa)"

definition connection_port :: "string option \<Rightarrow> int result" where
  "connection_port getsockname =
     bind_result (get_local getsockname) (\<lambda>sa.
       Inr (int (if ss_family sa = 2 then network_word sa 2 else network_word sa 2)))"

definition server_port :: "socket_server \<Rightarrow> int" where
  "server_port sv = uint (sv_port sv)"

text \<open>The addresses the system writes.\<close>

definition ipv4_address :: "string \<Rightarrow> nat \<Rightarrow> string" where
  "ipv4_address ip port =
     [chr_of 2, chr_of 0, chr_of (port div 256), chr_of port] @ ip @ replicate 120 (CHR 0x00)"

definition ipv6_address :: "string \<Rightarrow> nat \<Rightarrow> string" where
  "ipv6_address ip port =
     [chr_of 23, chr_of 0, chr_of (port div 256), chr_of port] @ replicate 4 (CHR 0x00) @ ip @ replicate 104 (CHR 0x00)"

lemma addresses_read:
  assumes "port < 65536"
  shows "length ip = 4 \<Longrightarrow> sockaddr_port (ipv4_address ip port) = int port
      \<and> sockaddr_ip ntop4 ntop6 (ipv4_address ip port) = c_str (ntop4 ip)"
    and "length ip = 16 \<Longrightarrow> sockaddr_port (ipv6_address ip port) = int port
      \<and> sockaddr_ip ntop4 ntop6 (ipv6_address ip port) = c_str (ntop6 ip)"
proof -
  have "256 * (port div 256 mod 256) + port mod 256 = port" using assms by simp
  then show "length ip = 4 \<Longrightarrow> sockaddr_port (ipv4_address ip port) = int port
      \<and> sockaddr_ip ntop4 ntop6 (ipv4_address ip port) = c_str (ntop4 ip)"
    "length ip = 16 \<Longrightarrow> sockaddr_port (ipv6_address ip port) = int port
      \<and> sockaddr_ip ntop4 ntop6 (ipv6_address ip port) = c_str (ntop6 ip)"
    by (simp_all add: sockaddr_port_def sockaddr_ip_def ss_family_def network_word_def ipv4_address_def ipv6_address_def
        numeral_2_eq_2 numeral_3_eq_3)
qed

lemma connection_port_is_sockaddr_port: "connection_port (Some sa) = Inr (sockaddr_port sa)"
  by (simp add: connection_port_def get_local_def sockaddr_port_def)

section \<open>Polled connections\<close>

type_synonym async_userdata = "async_connection option"

text \<open>The host is a C string, the port is narrowed to 16 bits.\<close>

definition async_arguments :: "lua_api \<Rightarrow> lua_value list \<Rightarrow> (string \<times> u16) result" where
  "async_arguments api args =
     (case to_lstring api (nth_arg args 0) of
        None \<Rightarrow> Inl (Lua_Error ''bad argument #1 (string expected)'')
      | Some host \<Rightarrow>
          if \<not> is_number api (nth_arg args 1) then Inl (Lua_Error ''bad argument #2 (number expected)'')
          else Inr (c_str host, word_of_int (to_integer api (nth_arg args 1))))"

definition async_create :: "lua_api \<Rightarrow> bool \<Rightarrow> (string \<Rightarrow> u16 \<Rightarrow> bool) \<Rightarrow> nat \<Rightarrow> lua_value list \<Rightarrow> async_statics
    \<Rightarrow> (async_userdata \<times> async_statics) result" where
  "async_create api socket_ok resolves now args w =
     bind_result (async_arguments api args) (\<lambda>(host, port).
       Inr (case async_new socket_ok (resolves host port) now w of (c, w1) \<Rightarrow> (Some c, w1)))"

definition async_gc :: "async_userdata \<Rightarrow> async_statics \<Rightarrow> async_userdata \<times> async_statics" where
  "async_gc u w = (case u of None \<Rightarrow> (None, w) | Some c \<Rightarrow> (None, snd (async_destroy c w)))"

text \<open>The methods return nothing for a connection that was collected.\<close>

definition async_start_method :: "lua_api \<Rightarrow> async_io \<Rightarrow> lua_value \<Rightarrow> async_userdata \<Rightarrow> async_userdata result" where
  "async_start_method api io v u =
     (case u of
        None \<Rightarrow> Inr None
      | Some c \<Rightarrow>
          (case to_lstring api v of
             None \<Rightarrow> Inl (Lua_Error ''bad argument #2 (string expected)'')
           | Some r \<Rightarrow> Inr (Some (async_start io (c_str r) c))))"

definition async_poll_method :: "async_io \<Rightarrow> async_userdata \<Rightarrow> bool option \<times> async_userdata" where
  "async_poll_method io u =
     (case u of None \<Rightarrow> (None, None) | Some c \<Rightarrow> (case async_poll io c of (b, c1) \<Rightarrow> (Some b, Some c1)))"

definition async_response_method :: "async_userdata \<Rightarrow> string option" where
  "async_response_method u = (case u of None \<Rightarrow> None | Some c \<Rightarrow> Some (ac_response c))"

text \<open>Collecting releases what the creation acquired, and a second time nothing.\<close>

lemma release_acquire:
  "wsa_data w = (active_connections w \<noteq> 0) \<Longrightarrow> async_release (async_acquire w) = w"
  by (auto simp: async_release_def async_acquire_def Let_def)

lemma gc_undoes_create:
  assumes "async_create api socket_ok resolves now args w = Inr (u, w1)"
    and "wsa_data w = (active_connections w \<noteq> 0)"
  shows "async_gc u w1 = (None, w) \<and> async_gc (fst (async_gc u w1)) (snd (async_gc u w1)) = (None, w)"
proof -
  obtain c where "u = Some c" "w1 = async_acquire w"
    using assms(1) by (auto simp: async_create_def async_new_def bind_result_Inr)
  then show ?thesis using release_acquire [OF assms(2)] by (simp add: async_gc_def async_destroy_def)
qed

text \<open>A request that is started is cut at its first NUL byte.\<close>

lemma started_request_is_cut:
  assumes "ac_valid c" and "CHR 0x00 \<notin> set head"
  shows "\<exists>c'. async_start_method api io (Lua_String (head @ CHR 0x00 # body)) (Some c) = Inr (Some c') \<and> ac_request c' = head"
proof -
  have "c_str (head @ CHR 0x00 # body) = head"
    unfolding c_str_def using assms(2) by (subst takeWhile_append2) auto
  then show ?thesis using assms(1) by (simp add: async_start_method_def to_lstring_def async_start_def Let_def)
qed

section \<open>Ping\<close>

text \<open>The number of tries is converted to 32 bits without a sign; without the argument it is 1.\<close>

definition ping_arguments :: "lua_api \<Rightarrow> lua_value list \<Rightarrow> (string \<times> nat) result" where
  "ping_arguments api args =
     (case to_lstring api (nth_arg args 0) of
        None \<Rightarrow> Inl (Lua_Error ''bad argument #1 (string expected)'')
      | Some host \<Rightarrow>
          if nth_arg args 1 = Lua_Nil then Inr (c_str host, 1)
          else if \<not> is_number api (nth_arg args 1) then Inl (Lua_Error ''bad argument #2 (number expected)'')
          else Inr (c_str host, nat (to_integer api (nth_arg args 1) mod 2 ^ 32)))"

definition network_ping :: "lua_api \<Rightarrow> bool \<Rightarrow> bool \<Rightarrow> bool \<Rightarrow> (string \<Rightarrow> bool) \<Rightarrow> (nat \<Rightarrow> ping_io) \<Rightarrow> lua_value list
    \<Rightarrow> int option result" where
  "network_ping api startup_ok socket_ok close_ok known answers args =
     bind_result (ping_arguments api args) (\<lambda>(host, tries).
       bind_result (ping startup_ok socket_ok (known host) close_ok (map answers [0..<tries])) (\<lambda>(success, time).
         Inr (if success then Some (uint time) else None)))"

text \<open>An answered ping reports the milliseconds since its request was made.\<close>

lemma network_ping_measures:
  assumes "to_lstring api v = Some host" and "known (c_str host)" and "length ip = 20"
    and "answers 0 = \<lparr>pg_select = Inr True, pg_reply = Some (ip @ send_echo_request ident seq time), pg_now = time + elapsed\<rparr>"
  shows "network_ping api True True True known answers [v] = Inr (Some (uint elapsed))"
proof -
  have "ping_arguments api [v] = Inr (c_str host, 1)" using assms(1) by (simp add: ping_arguments_def nth_arg_def)
  then show ?thesis using ping_measures [OF assms(3), of ident seq time elapsed] assms(2,4) by (simp add: network_ping_def)
qed

text \<open>Minus one try is 4294967295 of them.\<close>

lemma negative_tries:
  assumes "to_lstring api v = Some host" and "num_int api (Finite n) = - 1"
  shows "ping_arguments api [v, Lua_Number (Finite n)] = Inr (c_str host, 4294967295)"
  using assms by (simp add: ping_arguments_def nth_arg_def is_number_def to_integer_def as_number_def)

section \<open>The module\<close>

datatype lua_function =
    Web_Request | Web_Request_Detailed | Simple_Get | Simple_Download | Connection_Create | Listener_Create
  | Async_Create | Last_Error | Network_Ping

datatype module_field = Text_Field string | Flags "(string \<times> bool) list" | Function_Field lua_function

text \<open>The table that \<open>luaopen_network\<close> returns; \<open>Last_Error\<close> is \<open>WSAGetLastError\<close>.\<close>

definition network_module :: "(string \<times> module_field) list" where
  "network_module =
     [(''_VERSION'', Text_Field ''network 0.4.0''),
      (''capabilities'', Flags (map (\<lambda>c. (c, True))
         [''structured_response'', ''stream_callbacks'', ''request_timeouts'', ''large_tls_writes'', ''response_limits'',
          ''listener_bind_address'', ''ssl_any_port'', ''tls_verify'', ''ca_file'', ''sni_override'', ''proxy_socks5'',
          ''accept_timeout'', ''ready_read''])),
      (''send'', Function_Field Web_Request), (''request'', Function_Field Web_Request_Detailed),
      (''get'', Function_Field Simple_Get), (''download'', Function_Field Simple_Download),
      (''connect'', Function_Field Connection_Create), (''listen'', Function_Field Listener_Create),
      (''async'', Function_Field Async_Create), (''last_error'', Function_Field Last_Error),
      (''ping'', Function_Field Network_Ping)]"

datatype class_member = Property string | Method string

definition network_classes :: "(string \<times> class_member list) list" where
  "network_classes =
     [(''sockaddr_storage'', [Property ''ip'', Property ''port'']),
      (''ListenerContext'', [Property ''remote'', Property ''listener'', Property ''closed'', Method ''close'', Method ''receive'',
         Method ''send'', Property ''request'', Method ''build'', Method ''error'']),
      (''SocketServer'', [Property ''port'', Method ''accept'', Method ''async'']),
      (''ConnectionContext'', [Property ''remote'', Property ''port'', Property ''closed'', Method ''close'', Method ''receive'',
         Method ''send'', Method ''poll''])]"

definition async_class :: "class_member list" where
  "async_class = [Method ''__gc'', Method ''start'', Method ''poll'', Method ''response'']"

text \<open>No name is registered twice, so no entry hides another.\<close>

definition member_name :: "class_member \<Rightarrow> string" where
  "member_name m = (case m of Property n \<Rightarrow> n | Method n \<Rightarrow> n)"

lemma names_distinct:
  "distinct (map fst network_module)" "distinct (map fst network_classes)"
  "list_all (\<lambda>(c, ms). distinct (map member_name ms)) network_classes" "distinct (map member_name async_class)"
  by (simp_all add: network_module_def network_classes_def async_class_def member_name_def)

end
