(* ===== verification/ConnectionSource.thy ===== *)
theory ConnectionSource imports HttpRoundTrip begin

text \<open>
  A connection of an exchange, plain or TLS, seen as a source of the bytes that are still to come: a receive
  fails for good or yields the next of them, and a send that succeeds does not disturb them. For a TLS
  connection this rests on the record layer of \<open>SslClient\<close> being in step with what Schannel decrypts.
\<close>

section \<open>A connection as a source of bytes\<close>

definition source :: "'c sspi \<Rightarrow> 'c connection \<Rightarrow> string \<Rightarrow> bool" where
  "source api conn rest \<longleftrightarrow>
     (case conn of
        Plain s \<Rightarrow> \<not> recv_initiated s \<and> wire s = rest
      | Secure s \<Rightarrow> \<exists>rs. in_sync api s rs \<and> plain_stream s rs = rest)"

text \<open>Schannel keeps the two directions apart: encrypting does not disturb what is decrypted later.\<close>

definition duplex :: "'c sspi \<Rightarrow> bool" where
  "duplex api \<longleftrightarrow> (\<forall>c sizes data rs. decrypts api c rs \<longrightarrow> decrypts api (snd (snd (encrypt api c sizes data))) rs)"

lemma source_timeouts:
  "source api (on_socket (set_recv_timeout_seconds t b) conn) rest = source api conn rest"
  "source api (on_socket (set_send_timeout_seconds t b) conn) rest = source api conn rest"
  by (simp_all add: source_def on_socket_def in_sync_def plain_stream_def live_bytes_def set_recv_timeout_seconds_def
      set_send_timeout_seconds_def Let_def split: connection.splits)

text \<open>A receive fails for good or yields the next bytes of the source.\<close>

lemma conn_recv_source:
  assumes "source api conn rest" and "0 < len" and "len < 2 ^ 31"
  shows "\<exists>n data conn'. conn_recv api len conn = Inr (n, data, conn')
    \<and> (n = -1 \<or> n = int (length data) \<and> (\<exists>rest'. rest = data @ rest' \<and> source api conn' rest'))"
proof (cases conn)
  case (Plain s)
  then have s: "\<not> recv_initiated s" "wire s = rest" using assms(1) by (simp_all add: source_def)
  obtain n ws s' where r: "recv 0 len 1 s = (n, ws, s')" by (metis prod_cases3)
  note c = recv_one [OF s(1) assms(3) r]
  have recv: "conn_recv api len conn = Inr (n, take (nat n) (apply_writes 0 (replicate len (CHR 0x00)) ws), Plain s')"
    using r Plain by (simp add: conn_recv_def)
  consider "n = -1" | "n = 0" "wire s' = wire s" "\<not> recv_initiated s'"
    | d where "n = int (length d)" "length d \<le> len" "ws = [(0, d)]" "wire s = d @ wire s'" "\<not> recv_initiated s'"
    using c by auto
  then show ?thesis
  proof cases
    case 1
    then show ?thesis using recv by blast
  next
    case 2
    then show ?thesis using recv s by (auto simp: source_def)
  next
    case 3
    then have "take (nat n) (apply_writes 0 (replicate len (CHR 0x00)) ws) = d" by simp
    then show ?thesis using recv s 3 by (auto simp: source_def)
  qed
next
  case (Secure s)
  then obtain rs where rs: "in_sync api s rs" "plain_stream s rs = rest" using assms(1) by (auto simp: source_def)
  from ssl_recv_reads [OF rs(1) assms(2,3)] obtain n d s' where r: "ssl_recv api len s = Inr (n, d, s')"
      "n = -1 \<and> d = [] \<or> n = int (length d) \<and> length d \<le> len
        \<and> (\<exists>rs'. in_sync api s' rs' \<and> plain_stream s rs = d @ plain_stream s' rs')" by blast
  have recv: "conn_recv api len conn = Inr (n, take (nat n) (d @ replicate (len - length d) (CHR 0x00)), Secure s')"
    using r(1) Secure by (simp add: conn_recv_def)
  show ?thesis
  proof (cases "n = -1")
    case True
    then show ?thesis using recv by blast
  next
    case False
    then obtain rs' where rs': "n = int (length d)" "in_sync api s' rs'" "plain_stream s rs = d @ plain_stream s' rs'"
      using r(2) by auto
    then have "take (nat n) (d @ replicate (len - length d) (CHR 0x00)) = d" by simp
    then show ?thesis using recv rs' rs(2) by (auto simp: source_def)
  qed
qed

text \<open>A send that succeeds leaves the source as it was.\<close>

lemma send_record_in_sync:
  assumes "send_record api data s = Inr (n, s')" and "n \<noteq> -1" and "in_sync api s rs" and "duplex api"
  shows "in_sync api s' rs \<and> plain_pending s' = plain_pending s"
proof -
  obtain status bytes c where e: "encrypt api (ssl_context s) (ssl_sizes s) data = (status, bytes, c)" by (metis prod_cases3)
  obtain err sock where x: "send bytes (ssl_stream s) = (err, sock)" by force
  have "s' = s\<lparr>ssl_context := c, ssl_stream := sock, ssl_error := 0\<rparr>"
    using assms(1,2) e x by (auto simp: send_record_def Let_def split: if_splits)
  moreover have "decrypts api c rs"
    using assms(3,4) e unfolding duplex_def in_sync_def by (metis snd_conv)
  ultimately show ?thesis using send_cases [OF x] assms(3) by (simp add: in_sync_def live_bytes_def)
qed

lemma send_records_in_sync:
  assumes "duplex api"
  shows "send_records api chunk data done s = Inr (n, s') \<Longrightarrow> n \<noteq> -1 \<Longrightarrow> in_sync api s rs \<Longrightarrow>
    in_sync api s' rs \<and> plain_pending s' = plain_pending s"
  using assms
proof (induction api chunk data "done" s rule: send_records.induct)
  case (1 api chunk data "done" s)
  show ?case
  proof (cases "done < length data")
    case False
    then show ?thesis using "1.prems" by (subst (asm) send_records.simps) simp
  next
    case True
    let ?d = "substr data done (min chunk (length data - done))"
    from "1.prems"(1) True obtain m s1 where m: "send_record api ?d s = Inr (m, s1)"
      and rest: "(if m \<le> 0 then Inr (-1, s1) else send_records api chunk data (done + nat m) s1) = Inr (n, s')"
      by (subst (asm) send_records.simps) (auto simp: bind_result_Inr)
    have pos: "\<not> m \<le> 0" using rest "1.prems"(2) by auto
    then have "m \<noteq> -1" by simp
    note one = send_record_in_sync [OF m this "1.prems"(3,4)]
    from "1.IH" [OF True m refl pos _ "1.prems"(2) conjunct1 [OF one] "1.prems"(4)] rest pos one show ?thesis by simp
  qed
qed

lemma conn_send_source:
  assumes "conn_send api data conn = Inr (n, conn')" and "n \<noteq> -1" and "source api conn rest"
    and "secure conn \<longrightarrow> duplex api"
  shows "source api conn' rest"
proof (cases conn)
  case (Plain s)
  obtain m s' where "send data s = (m, s')" by force
  with send_cases [OF this] assms(1,3) Plain show ?thesis by (auto simp: conn_send_def source_def)
next
  case (Secure s)
  then obtain s' where s': "ssl_send api data s = Inr (n, s')" "conn' = Secure s'"
    using assms(1) by (auto simp: conn_send_def bind_result_Inr)
  obtain rs where rs: "in_sync api s rs" "plain_stream s rs = rest" using assms(3) Secure by (auto simp: source_def)
  have d: "duplex api" using assms(4) Secure by (simp add: secure_def)
  have "in_sync api s' rs \<and> plain_pending s' = plain_pending s"
    using s'(1) assms(2) send_record_in_sync [OF _ assms(2) rs(1) d] send_records_in_sync [OF d _ assms(2) rs(1)]
    by (auto simp: ssl_send_def split: if_splits)
  with rs s'(2) show ?thesis by (auto simp: source_def plain_stream_def)
qed

end
