(* ===== verification/BodyFraming.thy ===== *)
theory BodyFraming imports ConnectionSource begin

text \<open>
  How the client finds the end of a body, as an interface (\<open>framing\<close>), and what follows from it for a whole
  exchange: whatever the network, the callbacks and the limits do, a response that is returned has arrived
  whole. Bodies with a content length and chunked bodies are the two framings of \<open>ResolveHttpRequest\<close> that
  mark their end.
\<close>

section \<open>Framings of a body\<close>

text \<open>
  How the end of a body is found is an interface. \<open>good\<close> says that a header block, the bytes behind it, the
  headers it parses to and a content belong together, and how many of the bytes carry the content;
  \<open>body_at\<close> describes the state after a number of these bytes. The laws are about taking in more of them
  and about the end.
\<close>

locale framing =
  fixes good :: "http_request_options \<Rightarrow> bool \<Rightarrow> string \<Rightarrow> string \<Rightarrow> http_response \<Rightarrow> string \<Rightarrow> nat \<Rightarrow> bool"
    and body_at :: "http_request_options \<Rightarrow> string \<Rightarrow> http_response \<Rightarrow> nat \<Rightarrow> ('c, 'l) exchange \<Rightarrow> bool"
  assumes head_found: "good opts head block payload r content len \<Longrightarrow> find_str crlf2 (block @ crlf2) = Some (length block)"
    and head_parsed: "good opts head block payload r content len \<Longrightarrow>
      parse_response_headers block (empty_response\<lparr>bytes_received := b\<rparr>) = Inr (r\<lparr>bytes_received := b\<rparr>)"
    and has_body: "good opts head block payload r content len \<Longrightarrow> \<not> no_body head r"
    and body_starts: "good opts head block payload r content len \<Longrightarrow> ex_response st = r\<lparr>bytes_received := b\<rparr> \<Longrightarrow>
      ex_chunked st = is_chunked r \<Longrightarrow> content_length_of r = Inr (ex_length st) \<Longrightarrow>
      ex_decoder st = new_decoder (opt_max_response_bytes opts) \<Longrightarrow> body_at opts payload r 0 st"
    and body_grows: "good opts head block payload r content len \<Longrightarrow> body_at opts payload r j st \<Longrightarrow> \<not> ex_finished st \<Longrightarrow>
      absorb_body cb opts (take m (drop j payload)) st = (Inr u, st') \<Longrightarrow>
      body_at opts payload r (j + m) st' \<and> ex_conn st' = ex_conn st \<and> ex_got_headers st' = ex_got_headers st"
    and body_frame:
      "body_at opts payload r j (st\<lparr>ex_conn := c\<rparr>) = body_at opts payload r j st"
      "body_at opts payload r j (st\<lparr>ex_clock := ticks\<rparr>) = body_at opts payload r j st"
      "body_at opts payload r j (st\<lparr>ex_lua := l\<rparr>) = body_at opts payload r j st"
      "body_at opts payload r j (st\<lparr>ex_finished := f\<rparr>) = body_at opts payload r j st"
      "body_at opts payload r j (st\<lparr>ex_response := (ex_response st)\<lparr>bytes_received := b\<rparr>\<rparr>) = body_at opts payload r j st"
    and body_ends: "good opts head block payload r content len \<Longrightarrow> body_at opts payload r j st \<Longrightarrow> ex_got_headers st \<Longrightarrow>
      conclude started head st = (Inr resp, e) \<Longrightarrow>
      len \<le> j \<and> (\<exists>b t. resp = r\<lparr>resp_body := content, bytes_received := b, elapsed_ms := t\<rparr>)"

text \<open>
  The state after \<open>k\<close> bytes of a header block, a blank line and what follows. \<open>ex_finished\<close> is left open: a
  closed connection sets it too.
\<close>

definition on_track ::
    "http_request_options \<Rightarrow> (nat \<Rightarrow> ('c, 'l) exchange \<Rightarrow> bool) \<Rightarrow> string \<Rightarrow> nat \<Rightarrow> ('c, 'l) exchange \<Rightarrow> bool" where
  "on_track opts at_byte block k st \<longleftrightarrow>
     (if k < length block + 4
      then \<not> ex_got_headers st \<and> ex_pending st = take k (block @ crlf2)
        \<and> (ex_response st)\<lparr>bytes_received := 0\<rparr> = empty_response\<lparr>bytes_received := 0\<rparr>
        \<and> ex_decoder st = new_decoder (opt_max_response_bytes opts)
      else ex_got_headers st \<and> at_byte (k - (length block + 4)) st)"

text \<open>
  The invariant of the loop: the state is on track, and as long as it is not finished the rest of the
  stream is what the connection has yet to give. The stream may end anywhere.
\<close>

definition tracking :: "'c sspi \<Rightarrow> http_request_options \<Rightarrow> (nat \<Rightarrow> ('c, 'l) exchange \<Rightarrow> bool) \<Rightarrow> string \<Rightarrow> string
    \<Rightarrow> ('c, 'l) exchange \<Rightarrow> bool" where
  "tracking api opts at_byte block stream st \<longleftrightarrow>
     (\<exists>k. k \<le> length stream \<and> on_track opts at_byte block k st
        \<and> (\<not> ex_finished st \<longrightarrow> source api (ex_conn st) (drop k stream)))"

lemma trackingI:
  "k \<le> length stream \<Longrightarrow> on_track opts at_byte block k st \<Longrightarrow> (\<not> ex_finished st \<Longrightarrow> source api (ex_conn st) (drop k stream)) \<Longrightarrow>
   tracking api opts at_byte block stream st"
  unfolding tracking_def by blast

lemma counted_bytes:
  assumes "x\<lparr>bytes_received := 0\<rparr> = y\<lparr>bytes_received := 0\<rparr>"
  shows "x = y\<lparr>bytes_received := bytes_received x\<rparr>"
  using assms by (cases x; cases y) simp

lemma other_body:
  assumes "x\<lparr>bytes_received := 0\<rparr> = y\<lparr>resp_body := t, bytes_received := 0\<rparr>"
  shows "x\<lparr>resp_body := t', bytes_received := 0\<rparr> = y\<lparr>resp_body := t', bytes_received := 0\<rparr>"
  using assms by (cases x; cases y) simp

lemma head_ignores_count:
  "no_body head (r\<lparr>bytes_received := b\<rparr>) = no_body head r" "is_chunked (r\<lparr>bytes_received := b\<rparr>) = is_chunked r"
  "content_length_of (r\<lparr>bytes_received := b\<rparr>) = content_length_of r"
  by (simp_all add: no_body_def is_chunked_def content_length_of_def response_header_def)

lemma bounded_timeout_frame:
  "bounded_timeout opts started c st = (x, s) \<Longrightarrow> \<exists>ticks. s = st\<lparr>ex_clock := ticks\<rparr>"
  by (rule exI [of _ "ex_clock s"])
    (auto simp: bounded_timeout_def ex_now_def Let_def split: if_splits list.splits prod.splits)

context framing begin

lemma on_track_frame:
  "on_track opts (body_at opts payload r) block k (st\<lparr>ex_conn := c\<rparr>) = on_track opts (body_at opts payload r) block k st"
  "on_track opts (body_at opts payload r) block k (st\<lparr>ex_clock := ticks\<rparr>) = on_track opts (body_at opts payload r) block k st"
  "on_track opts (body_at opts payload r) block k (st\<lparr>ex_lua := l\<rparr>) = on_track opts (body_at opts payload r) block k st"
  "on_track opts (body_at opts payload r) block k (st\<lparr>ex_finished := f\<rparr>) = on_track opts (body_at opts payload r) block k st"
  "on_track opts (body_at opts payload r) block k (st\<lparr>ex_response := (ex_response st)\<lparr>bytes_received := b\<rparr>\<rparr>)
    = on_track opts (body_at opts payload r) block k st"
  by (simp_all add: on_track_def body_frame)

text \<open>Every part of the bytes that is taken in moves the state on.\<close>

lemma absorb_on_track:
  assumes "good opts head block payload r content len" and "on_track opts (body_at opts payload r) block k st"
    and "\<not> ex_finished st" and "absorb cb opts head (take m (drop k (block @ crlf2 @ payload))) st = (Inr u, st')"
  shows "on_track opts (body_at opts payload r) block (k + m) st' \<and> ex_conn st' = ex_conn st"
proof -
  let ?T = "block @ crlf2 @ payload" and ?h = "length block + 4"
  show ?thesis
  proof (cases "k < ?h")
    case True
    with assms(2) have st: "\<not> ex_got_headers st" "ex_pending st = take k (block @ crlf2)"
        "(ex_response st)\<lparr>bytes_received := 0\<rparr> = empty_response\<lparr>bytes_received := 0\<rparr>"
        "ex_decoder st = new_decoder (opt_max_response_bytes opts)" by (simp_all add: on_track_def)
    have p: "ex_pending st @ take m (drop k ?T) = take (k + m) ?T"
    proof -
      have "take k (block @ crlf2) = take k ?T" using True by simp
      then show ?thesis unfolding st(2) by (simp only: take_add)
    qed
    have "find_str crlf2 (block @ crlf2 @ payload) = Some (length block)"
      using find_str_append [OF head_found [OF assms(1)], of payload] by simp
    note found = find_str_take [OF this, of "k + m", simplified]
    obtain rest s where h: "absorb_headers cb opts head (take m (drop k ?T)) st = (Inr rest, s)"
        "(case rest of None \<Rightarrow> return_dial () | Some d \<Rightarrow> absorb_body cb opts d) s = (Inr u, st')"
      using assms(4) st(1) by (auto simp: absorb_def bind_dial_Inr)
    show ?thesis
    proof (cases "?h \<le> k + m")
      case False
      then have "s = st\<lparr>ex_pending := take (k + m) ?T\<rparr>" "rest = None"
        using h(1) found unfolding absorb_headers_def Let_def p by (auto split: if_splits)
      moreover have "take (k + m) ?T = take (k + m) (block @ crlf2)" using False by simp
      ultimately show ?thesis using h(2) st False by (auto simp: on_track_def)
    next
      case complete: True
      then have "find_str crlf2 (ex_pending st @ take m (drop k ?T)) = Some (length block)" unfolding p using found by simp
      from absorb_headers_complete [OF h(1) this, unfolded p] obtain r' l n where
          r': "parse_response_headers (take (length block) (take (k + m) ?T)) (ex_response st) = Inr r'"
          "content_length_of r' = Inr n" "rest = Some (drop ?h (take (k + m) ?T))"
          "s = st\<lparr>ex_response := r', ex_pending := [], ex_got_headers := True, ex_lua := l,
            ex_chunked := is_chunked r', ex_length := n, ex_finished := no_body head r'\<rparr>" by blast
      have "take (length block) (take (k + m) ?T) = block" using complete by (simp add: min_def)
      then have eq: "r' = r\<lparr>bytes_received := bytes_received (ex_response st)\<rparr>"
        using r'(1) counted_bytes [OF st(3)] head_parsed [OF assms(1)] by (metis sum.inject(2))
      have "drop ?h ?T = payload" by simp
      then have "drop ?h (take (k + m) ?T) = take (k + m - ?h) (drop 0 payload)" by (simp only: drop_take drop_0)
      then have b: "absorb_body cb opts (take (k + m - ?h) (drop 0 payload)) s = (Inr u, st')"
        using h(2) r'(3) by simp
      have "body_at opts payload r 0 s"
        by (rule body_starts [OF assms(1), where b = "bytes_received (ex_response st)"])
          (use r'(2,4) st(4) in \<open>simp_all add: eq head_ignores_count\<close>)
      moreover have "\<not> ex_finished s" using r'(4) has_body [OF assms(1)] by (simp add: eq head_ignores_count)
      ultimately show ?thesis
        using body_grows [OF assms(1) _ _ b] complete r'(4) by (simp add: on_track_def)
    qed
  next
    case False
    with assms(2) have st: "ex_got_headers st" "body_at opts payload r (k - ?h) st" by (simp_all add: on_track_def)
    have "take m (drop k ?T) = take m (drop (k - ?h) payload)" using False by simp
    then have "absorb_body cb opts (take m (drop (k - ?h) payload)) st = (Inr u, st')"
      using assms(4) st(1) by (simp add: absorb_def)
    from body_grows [OF assms(1) st(2) assms(3) this] show ?thesis
      using False st(1) by (simp add: on_track_def)
  qed
qed

lemma tracking_frame:
  "tracking api opts (body_at opts payload r) block stream (st\<lparr>ex_clock := ticks\<rparr>)
    = tracking api opts (body_at opts payload r) block stream st"
  "tracking api opts (body_at opts payload r) block stream (st\<lparr>ex_lua := l\<rparr>)
    = tracking api opts (body_at opts payload r) block stream st"
  by (simp_all add: tracking_def on_track_frame)

lemma receive_at_tracking:
  assumes "good opts head block payload r content len" and "prefix stream (block @ crlf2 @ payload)"
    and "options_in_range opts" and "\<not> ex_finished st" and "tracking api opts (body_at opts payload r) block stream st"
    and "receive_at api names cb opts head t st = (Inr u, st')"
  shows "tracking api opts (body_at opts payload r) block stream st'"
proof -
  let ?T = "block @ crlf2 @ payload" and ?at = "body_at opts payload r"
  define conn where "conn = on_socket (set_recv_timeout_seconds (timeout_seconds t) True) (ex_conn st)"
  obtain k where k: "k \<le> length stream" "on_track opts ?at block k st" "source api (ex_conn st) (drop k stream)"
    using assms(4,5) by (auto simp: tracking_def)
  have sizes: "0 < opt_buffer_size opts" "opt_buffer_size opts < 2 ^ 31" using assms(3) by (simp_all add: options_in_range_def)
  have "source api conn (drop k stream)" using k(3) by (simp add: conn_def source_timeouts)
  from conn_recv_source [OF this sizes] obtain n data conn' where
      rc: "conn_recv api (opt_buffer_size opts) conn = Inr (n, data, conn')"
      "n = -1 \<or> n = int (length data) \<and> (\<exists>rest'. drop k stream = data @ rest' \<and> source api conn' rest')" by blast
  have ended: "tracking api opts ?at block stream (st\<lparr>ex_conn := c, ex_finished := True\<rparr>)" for c
    by (rule trackingI [OF k(1)]) (simp_all only: on_track_frame k(2), simp)
  define st1 where "st1 = st\<lparr>ex_conn := conn'\<rparr>"
  let ?s = "st1\<lparr>ex_response := (ex_response st1)\<lparr>bytes_received := bytes_received (ex_response st1) + nat n\<rparr>\<rparr>"
  have "(if n = -1
         then if secure conn' \<and> conn_error conn' = sec_i_context_expired then set_finished True st1
              else (Inl (Runtime_Error (socket_error_message names ''receive'' (conn_error conn') t)), st1)
         else if n = 0 then set_finished True st1
         else if n < 0 then (Inl (Runtime_Error ''string too long''), st1)
         else absorb cb opts head data ?s) = (Inr u, st')"
    using assms(6) unfolding receive_at_def Let_def conn_def [symmetric] rc(1) sum.case prod.case st1_def .
  then consider (closed) "st' = st1\<lparr>ex_finished := True\<rparr>"
    | (received) "0 < n" "absorb cb opts head data ?s = (Inr u, st')"
    unfolding set_finished_def
    by (cases "n = -1"; cases "n = 0"; cases "n < 0"; cases "secure conn' \<and> conn_error conn' = sec_i_context_expired") simp_all
  then show ?thesis
  proof cases
    case closed
    then show ?thesis using ended by (simp add: st1_def)
  next
    case received
    then obtain rest' where d: "n = int (length data)" "drop k stream = data @ rest'" "source api conn' rest'" using rc(2) by auto
    have s: "on_track opts ?at block k ?s" using k(2) unfolding on_track_frame st1_def .
    have open_yet: "\<not> ex_finished ?s" using assms(4) by (simp add: st1_def)
    have data: "data = take (length data) (drop k ?T)"
    proof -
      obtain more_bytes where "?T = stream @ more_bytes" using assms(2) by (auto simp: prefix_def)
      then have "drop k ?T = data @ rest' @ more_bytes" using d(2) k(1) by simp
      then show ?thesis by simp
    qed
    have "absorb cb opts head (take (length data) (drop k ?T)) ?s = (Inr u, st')"
      using received(2) unfolding data [symmetric] .
    from absorb_on_track [OF assms(1) s open_yet this]
    have on: "on_track opts ?at block (k + length data) st'" "ex_conn st' = conn'" by (simp_all add: st1_def)
    have "length (drop k stream) = length (data @ rest')" using d(2) by (rule arg_cong)
    then have "k + length data \<le> length stream" using k(1) by simp
    moreover have "drop (k + length data) stream = drop (length data) (drop k stream)" by (simp add: add.commute)
    moreover have "drop (length data) (drop k stream) = rest'" unfolding d(2) by simp
    ultimately show ?thesis using on d(3) by (intro trackingI [of "k + length data"]) simp_all
  qed
qed

lemma receive_step_tracking:
  assumes "good opts head block payload r content len" and "prefix stream (block @ crlf2 @ payload)"
    and "options_in_range opts" and "\<not> ex_finished st" and "tracking api opts (body_at opts payload r) block stream st"
    and "receive_step api names cb opts started head st = (Inr u, st')"
  shows "tracking api opts (body_at opts payload r) block stream st'"
proof -
  obtain c s1 t s2 where c: "on_lua (request_cancelled cb opts) st = (Inr c, s1)"
    and t: "bounded_timeout opts started (opt_receive_timeout_ms opts) s1 = (Inr t, s2)"
    and r: "receive_at api names cb opts head t s2 = (Inr u, st')"
    using assms(6) unfolding receive_step_def by (auto simp: bind_dial_Inr split: if_splits)
  obtain l ticks where s: "s1 = st\<lparr>ex_lua := l\<rparr>" "s2 = s1\<lparr>ex_clock := ticks\<rparr>"
    using on_lua_frame [OF c] bounded_timeout_frame [OF t] by blast
  have "\<not> ex_finished s2" using assms(4) by (simp add: s)
  moreover have "tracking api opts (body_at opts payload r) block stream s2" using assms(5) by (simp only: s tracking_frame)
  ultimately show ?thesis by (rule receive_at_tracking [OF assms(1-3) _ _ r])
qed

lemma receive_loop_tracking:
  assumes "receive_loop api names cb opts started head st = Some out" and "out = (Inr (), st')"
    and "good opts head block payload r content len" and "options_in_range opts"
    and "tracking api opts (body_at opts payload r) block stream st" and "prefix stream (block @ crlf2 @ payload)"
  shows "tracking api opts (body_at opts payload r) block stream st'"
  using assms
proof (induction arbitrary: st' rule: receive_loop.raw_induct [rotated, consumes 1, case_names 1])
  case (1 loop api names cb opts started head st out)
  show ?case
  proof (cases "ex_finished st")
    case True
    then show ?thesis using 1 by simp
  next
    case False
    obtain res s where s: "receive_step api names cb opts started head st = (res, s)" by force
    show ?thesis
    proof (cases res)
      case (Inl e)
      then show ?thesis using 1 s False by simp
    next
      case (Inr u)
      from receive_step_tracking [OF "1.prems"(2,5,3) False "1.prems"(4)] s Inr
      have "tracking api opts (body_at opts payload r) block stream s" by simp
      with 1 s Inr False show ?thesis by simp
    qed
  qed
qed

lemma send_request_tracking:
  assumes "send_request api names opts started request (new_exchange opts conn ticks l) = (Inr u, st)"
    and "source api conn stream" and "secure conn \<longrightarrow> duplex api"
  shows "tracking api opts (body_at opts payload r) block stream st"
proof -
  let ?st = "new_exchange opts conn ticks l"
  obtain t s1 where t: "bounded_timeout opts started (opt_send_timeout_ms opts) ?st = (Inr t, s1)"
    and s1: "(let c = on_socket (set_send_timeout_seconds (timeout_seconds t) True) (ex_conn s1) in
       case conn_send api request c of
         Inl e \<Rightarrow> (Inl e, s1\<lparr>ex_conn := c\<rparr>)
       | Inr (n, conn1) \<Rightarrow>
           (if n = -1 \<or> nat n \<noteq> length request
            then Inl (Runtime_Error (socket_error_message names ''send'' (conn_error conn1) t)) else Inr (),
            s1\<lparr>ex_conn := conn1\<rparr>)) = (Inr u, st)"
    using assms(1) unfolding send_request_def by (auto simp: bind_dial_Inr)
  obtain ticks' where "s1 = ?st\<lparr>ex_clock := ticks'\<rparr>" using bounded_timeout_frame [OF t] by blast
  then have c: "ex_conn s1 = conn" and on: "on_track opts (body_at opts payload r) block 0 s1"
    by (simp_all add: new_exchange_def on_track_def)
  let ?c = "on_socket (set_send_timeout_seconds (timeout_seconds t) True) conn"
  obtain n conn1 where n: "conn_send api request ?c = Inr (n, conn1)" "n \<noteq> -1" "st = s1\<lparr>ex_conn := conn1\<rparr>"
    using s1 unfolding c Let_def by (auto split: sum.splits if_splits)
  have "source api ?c stream" using assms(2) by (simp add: source_timeouts)
  moreover have "secure ?c \<longrightarrow> duplex api" using assms(3) by (cases conn) (simp_all add: secure_def on_socket_def)
  ultimately have src: "source api conn1 stream" using conn_send_source [OF n(1,2)] by blast
  have "on_track opts (body_at opts payload r) block 0 st" using on by (simp only: n(3) on_track_frame)
  then show ?thesis by (rule trackingI [OF le0]) (simp add: n(3) src)
qed

text \<open>What can be concluded on the track: nothing, or the whole response, when all of it has come.\<close>

lemma conclude_tracking:
  assumes "good opts head block payload r content len" and "tracking api opts (body_at opts payload r) block stream st"
    and "conclude started head st = (Inr resp, e)"
  shows "length block + 4 + len \<le> length stream \<and> (\<exists>b t. resp = r\<lparr>resp_body := content, bytes_received := b, elapsed_ms := t\<rparr>)"
proof -
  obtain k where k: "k \<le> length stream" "on_track opts (body_at opts payload r) block k st"
    using assms(2) by (auto simp: tracking_def)
  have got: "ex_got_headers st" using assms(3) by (auto simp: conclude_def Let_def split: if_splits)
  then have h: "length block + 4 \<le> k" "body_at opts payload r (k - (length block + 4)) st"
    using k(2) by (auto simp: on_track_def split: if_splits)
  from body_ends [OF assms(1) h(2) got assms(3)] show ?thesis using h(1) k(1) by auto
qed

lemma never_garbled:
  fixes env :: "('c, 'l) http_env"
  assumes "good opts (head_request request) block payload r content len" and "options_in_range opts"
    and "source (env_schannel (http_dial env)) conn stream" and "prefix stream (block @ crlf2 @ payload)"
    and "secure conn \<longrightarrow> duplex (env_schannel (http_dial env))"
  shows "\<exists>res e. run_exchange env opts started request (new_exchange opts conn ticks l) = Some (res, e)
    \<and> (\<forall>resp. res = Inr resp \<longrightarrow> length block + 4 + len \<le> length stream
        \<and> (\<exists>b t. resp = r\<lparr>resp_body := content, bytes_received := b, elapsed_ms := t\<rparr>))"
proof -
  let ?send = "send_request (env_schannel (http_dial env)) (http_errors env) opts started request (new_exchange opts conn ticks l)"
    and ?loop = "receive_loop (env_schannel (http_dial env)) (http_errors env) (http_callbacks env) opts started (head_request request)"
  have "0 < opt_buffer_size opts" "opt_max_response_bytes opts < 2 ^ 63"
    using assms(2) by (simp_all add: options_in_range_def)
  from run_exchange_ends [OF this, of env started request conn ticks l] obtain res e where
      run: "run_exchange env opts started request (new_exchange opts conn ticks l) = Some (res, e)" by blast
  moreover have "length block + 4 + len \<le> length stream
      \<and> (\<exists>b t. resp = r\<lparr>resp_body := content, bytes_received := b, elapsed_ms := t\<rparr>)" if res: "res = Inr resp" for resp
  proof -
    obtain st1 where s: "?send = (Inr (), st1)"
      using run res by (cases "fst ?send") (auto simp: run_exchange_def Let_def split: prod.splits sum.splits)
    obtain r2 st2 where l: "?loop st1 = Some (r2, st2)"
      using run s by (cases "?loop st1") (auto simp: run_exchange_def Let_def)
    have "r2 = Inr () \<and> conclude started (head_request request) st2 = (Inr resp, e)"
      using run s l res by (cases r2) (auto simp: run_exchange_def Let_def)
    then have loop: "?loop st1 = Some (Inr (), st2)" "conclude started (head_request request) st2 = (Inr resp, e)"
      using l by simp_all
    have "tracking (env_schannel (http_dial env)) opts (body_at opts payload r) block stream st1"
      by (rule send_request_tracking [OF s assms(3,5)])
    from receive_loop_tracking [OF loop(1) refl assms(1,2) this assms(4)]
    show ?thesis by (rule conclude_tracking [OF assms(1) _ loop(2)])
  qed
  ultimately show ?thesis by blast
qed

end

section \<open>Bodies with a content length\<close>

definition counted_good ::
    "http_request_options \<Rightarrow> bool \<Rightarrow> string \<Rightarrow> string \<Rightarrow> http_response \<Rightarrow> string \<Rightarrow> nat \<Rightarrow> bool" where
  "counted_good opts head block payload r content len \<longleftrightarrow>
     plain_head (opts\<lparr>opt_max_response_bytes := length content\<rparr>) head block content r
     \<and> prefix content payload \<and> len = length content"

definition counted_at :: "http_request_options \<Rightarrow> string \<Rightarrow> http_response \<Rightarrow> nat \<Rightarrow> ('c, 'l) exchange \<Rightarrow> bool" where
  "counted_at opts payload r j st \<longleftrightarrow> \<not> ex_chunked st \<and> content_length_of r = Inr (ex_length st)
     \<and> (\<exists>n. ex_length st = Some n
        \<and> (ex_response st)\<lparr>bytes_received := 0\<rparr> = r\<lparr>resp_body := take j (take n payload), bytes_received := 0\<rparr>)"

lemma counted_part:
  "take j (take n p) @ take (n - length (take j (take n p))) (take m (drop j p)) = take (j + m) (take n p)"
proof (cases "j \<le> n")
  case True
  have "take (j + m) (take n p) = take j (take n p) @ take m (drop j (take n p))" by (rule take_add)
  moreover have "take m (drop j (take n p)) = take (n - j) (take m (drop j p))" by (simp add: drop_take min.commute)
  moreover have "take (n - length (take j (take n p))) (take m (drop j p)) = take (n - j) (take m (drop j p))"
    using True by (cases "j \<le> length p") (simp_all add: min_def)
  ultimately show ?thesis by simp
qed (simp add: min_def)

lemma absorb_body_counted:
  assumes "absorb_body cb opts data st = (Inr u, st')" and "\<not> ex_finished st"
    and "\<not> ex_chunked st" and "ex_length st = Some n"
  shows "\<exists>l f. st' = st\<lparr>ex_response := (ex_response st)\<lparr>resp_body :=
    resp_body (ex_response st) @ take (n - length (resp_body (ex_response st))) data\<rparr>, ex_lua := l, ex_finished := f\<rparr>"
proof -
  let ?d = "take (n - length (resp_body (ex_response st))) data"
  obtain s where s: "append_body cb opts ?d st = (Inr (), s)"
      "st' = s\<lparr>ex_finished := (n \<le> length (resp_body (ex_response s)))\<rparr>"
    using assms by (auto simp: absorb_body_def bind_dial_Inr set_finished_def Let_def)
  from append_body_done [OF s(1)] obtain l where "s = st\<lparr>ex_response := (ex_response st)\<lparr>resp_body :=
      resp_body (ex_response st) @ ?d\<rparr>, ex_lua := l\<rparr>" by blast
  with s(2) show ?thesis by blast
qed

lemma counted_grows:
  assumes "counted_at opts payload r j st" and "\<not> ex_finished st"
    and "absorb_body cb opts (take m (drop j payload)) st = (Inr u, st')"
  shows "counted_at opts payload r (j + m) st' \<and> ex_conn st' = ex_conn st \<and> ex_got_headers st' = ex_got_headers st"
proof -
  obtain n where n: "\<not> ex_chunked st" "content_length_of r = Inr (ex_length st)" "ex_length st = Some n"
      "(ex_response st)\<lparr>bytes_received := 0\<rparr> = r\<lparr>resp_body := take j (take n payload), bytes_received := 0\<rparr>"
    using assms(1) by (auto simp: counted_at_def)
  have "resp_body (ex_response st) = take j (take n payload)" using arg_cong [OF n(4), of resp_body] by simp
  from absorb_body_counted [OF assms(3,2) n(1,3), unfolded this counted_part] obtain l f where
    st': "st' = st\<lparr>ex_response := (ex_response st)\<lparr>resp_body := take (j + m) (take n payload)\<rparr>, ex_lua := l, ex_finished := f\<rparr>"
    by blast
  have "(ex_response st)\<lparr>resp_body := take (j + m) (take n payload), bytes_received := 0\<rparr>
      = r\<lparr>resp_body := take (j + m) (take n payload), bytes_received := 0\<rparr>" using n(4) by (rule other_body)
  then show ?thesis using n(1-3) by (simp add: counted_at_def st')
qed

lemma counted_ends:
  assumes "counted_good opts head block payload r content len" and "counted_at opts payload r j st"
    and "ex_got_headers st" and "conclude started head st = (Inr resp, e)"
  shows "len \<le> j \<and> (\<exists>b t. resp = r\<lparr>resp_body := content, bytes_received := b, elapsed_ms := t\<rparr>)"
proof -
  have good: "plain_head (opts\<lparr>opt_max_response_bytes := length content\<rparr>) head block content r" "prefix content payload"
      "len = length content" using assms(1) by (simp_all add: counted_good_def)
  have "content_length_of r = Inr (Some (length content))" using good(1) by (simp add: plain_head_def)
  then have st: "\<not> ex_chunked st" "ex_length st = Some (length content)"
      "(ex_response st)\<lparr>bytes_received := 0\<rparr> = r\<lparr>resp_body := take j (take (length content) payload), bytes_received := 0\<rparr>"
    using assms(2) by (auto simp: counted_at_def)
  have c: "take (length content) payload = content" using good(2) by (auto simp: prefix_def)
  note x = counted_bytes [OF st(3) [unfolded c]]
  have b: "resp_body (ex_response st) = take j content" using arg_cong [OF st(3) [unfolded c], of resp_body] by simp
  have "resp_status (ex_response st) = resp_status r" using arg_cong [OF st(3), of resp_status] by simp
  then have "\<not> no_body head (ex_response st)" using good(1) by (simp add: plain_head_def no_body_def)
  then have "length (resp_body (ex_response st)) = length content" and "\<exists>t. resp = (ex_response st)\<lparr>elapsed_ms := t\<rparr>"
    using assms(3,4) st(1,2) by (auto simp: conclude_def Let_def split: if_splits prod.splits)
  then obtain t where t: "length content \<le> j" "take j content = content" "resp = (ex_response st)\<lparr>elapsed_ms := t\<rparr>"
    using b by auto
  define n where "n = bytes_received (ex_response st)"
  have "resp = r\<lparr>resp_body := content, bytes_received := n, elapsed_ms := t\<rparr>"
    unfolding t(3) using x [folded n_def] t(2) by simp
  then show ?thesis using t(1) good(3) by blast
qed

interpretation counted: framing counted_good "counted_at :: _ \<Rightarrow> _ \<Rightarrow> _ \<Rightarrow> _ \<Rightarrow> ('c, 'l) exchange \<Rightarrow> bool"
proof unfold_locales
  fix opts head block payload r content len b and st :: "('c, 'l) exchange"
  assume good: "counted_good opts head block payload r content len"
  then show "find_str crlf2 (block @ crlf2) = Some (length block)" "\<not> no_body head r"
    "parse_response_headers block (empty_response\<lparr>bytes_received := b\<rparr>) = Inr (r\<lparr>bytes_received := b\<rparr>)"
    by (simp_all add: counted_good_def plain_head_def)
  assume "ex_response st = r\<lparr>bytes_received := b\<rparr>" "ex_chunked st = is_chunked r" "content_length_of r = Inr (ex_length st)"
  then show "counted_at opts payload r 0 st"
    using good by (auto simp: counted_at_def counted_good_def plain_head_def)
qed (simp_all add: counted_grows counted_ends, simp_all add: counted_at_def)

section \<open>Chunked bodies\<close>

definition chunked_good ::
    "http_request_options \<Rightarrow> bool \<Rightarrow> string \<Rightarrow> string \<Rightarrow> http_response \<Rightarrow> string \<Rightarrow> nat \<Rightarrow> bool" where
  "chunked_good opts head block payload r content len \<longleftrightarrow>
     find_str crlf2 (block @ crlf2) = Some (length block)
     \<and> (\<forall>b. parse_response_headers block (empty_response\<lparr>bytes_received := b\<rparr>) = Inr (r\<lparr>bytes_received := b\<rparr>))
     \<and> resp_body r = [] \<and> \<not> no_body head r \<and> is_chunked r \<and> content_length_of r = Inr None
     \<and> opt_max_response_bytes opts < 2 ^ 63
     \<and> (\<exists>cs extra. (\<forall>p \<in> set cs. chunk_ok (2 ^ 63 - 1) p) \<and> payload = encode_body cs extra
        \<and> content = concat (map snd cs) \<and> len = length (encode_body cs []))"

definition chunked_at :: "http_request_options \<Rightarrow> string \<Rightarrow> http_response \<Rightarrow> nat \<Rightarrow> ('c, 'l) exchange \<Rightarrow> bool" where
  "chunked_at opts payload r j st \<longleftrightarrow> ex_chunked st \<and> ex_length st = None
     \<and> (\<exists>cs. decode_loop (more_data (new_decoder (opt_max_response_bytes opts)) (take j payload)) = Inr (cs, ex_decoder st)
        \<and> (ex_response st)\<lparr>bytes_received := 0\<rparr> = r\<lparr>resp_body := concat cs, bytes_received := 0\<rparr>)"

text \<open>A decoder that gets through well-formed chunks had room for each of them.\<close>

lemma decode_step_too_large:
  assumes "chunk_ok (2 ^ 63 - 1) (ext, c)" and "maximum d < length c" and "remaining d = None"
    and "buffer d = encode_chunk (ext, c) @ r"
  shows "\<exists>e. decode_step d = Inl e"
proof -
  let ?line = "digits 16 (length c) @ ext"
  have b: "buffer d = ?line @ crlf @ (c @ crlf @ r)" using assms(4) by (simp add: encode_chunk_def)
  have "CHR 0x0D \<notin> set ?line" using assms(1) digits16_no_cr by (auto simp: chunk_ok_def)
  then have "find_str crlf (buffer d) = Some (length ?line)" unfolding b by (rule find_str_crlf)
  moreover have "take (length ?line) (buffer d) = ?line" by (simp add: b)
  moreover have "chunk_size ?line = Inr (length c)"
    using assms(1) by (intro chunk_size_digits) (auto simp: chunk_ok_def)
  moreover have "length c \<noteq> 0" using assms(2) by linarith
  ultimately show ?thesis using assms(2,3) by (simp add: decode_step_def open_chunk_def Let_def)
qed

lemma decoded_chunks_fit:
  "\<forall>p \<in> set cs. chunk_ok (2 ^ 63 - 1) p \<Longrightarrow> maximum d < 2 ^ 63 \<Longrightarrow> remaining d = None \<Longrightarrow> \<not> finished d \<Longrightarrow>
   buffer d = encode_body cs rest \<Longrightarrow> decode_loop d = Inr (out, d') \<Longrightarrow> \<forall>p \<in> set cs. chunk_ok (maximum d) p"
proof (induction cs arbitrary: d out)
  case (Cons p cs)
  obtain ext c where p: "p = (ext, c)" by (cases p)
  have b: "buffer d = encode_chunk (ext, c) @ encode_body cs rest" using Cons.prems(5) p by (simp add: encode_body_def)
  have ok: "chunk_ok (2 ^ 63 - 1) (ext, c)" using Cons.prems(1) p by simp
  have "\<not> maximum d < length c"
    using decode_step_too_large [OF ok _ Cons.prems(3) b] Cons.prems(4,6) by (auto simp: decode_loop.simps [of d])
  then have fits: "chunk_ok (maximum d) (ext, c)" using ok by (simp add: chunk_ok_def)
  have "decode_step d = Inr (Some c, d\<lparr>buffer := encode_body cs rest\<rparr>)"
    using decode_step_encoded [OF fits Cons.prems(2,3) b] .
  with Cons.prems(4,6) obtain out' where "decode_loop (d\<lparr>buffer := encode_body cs rest\<rparr>) = Inr (out', d')"
    by (auto simp: decode_loop.simps [of d] bind_result_Inr)
  from Cons.IH [OF _ _ _ _ _ this] Cons.prems have "\<forall>p \<in> set cs. chunk_ok (maximum d) p" by simp
  then show ?case using fits p by simp
qed simp

text \<open>A decoder that is finished within a coded body has read all of its chunks.\<close>

lemma decoded_prefix_complete:
  assumes "\<forall>p \<in> set cs. chunk_ok (2 ^ 63 - 1) p" and "m < 2 ^ 63" and "payload = encode_body cs extra"
    and "decode_loop (more_data (new_decoder m) (take j payload)) = Inr (out, d)" and "finished d"
  shows "out = map snd cs \<and> length (encode_body cs []) \<le> j"
proof -
  let ?d = "more_data (new_decoder m)"
  have wf: "decoder_wf (?d (take j payload))" using assms(2) by simp
  have "decode_loop (more_data d (drop j payload)) = Inr ([], more_data d (drop j payload))"
    using assms(5) by (simp add: decode_loop.simps [of "more_data d (drop j payload)"])
  then have whole: "decode_loop (?d payload) = Inr (out, more_data d (drop j payload))"
    using decode_loop_more [OF wf, of "drop j payload"] assms(4) by simp
  have d: "maximum (?d payload) = m" "remaining (?d payload) = None" "\<not> finished (?d payload)"
      "buffer (?d payload) = encode_body cs extra" by (simp_all add: new_decoder_def assms(3))
  have "maximum (?d payload) < 2 ^ 63" using assms(2) by (simp only: d(1))
  from decoded_chunks_fit [OF assms(1) this d(2-4) whole] have "\<forall>p \<in> set cs. chunk_ok m p" unfolding d(1) .
  with decode_loop_encoded [of cs "?d payload" extra] d assms(2)
  have "decode_loop (?d payload) = Inr (map snd cs, (?d payload)\<lparr>buffer := extra, finished := True\<rparr>)" by simp
  with whole have out: "out = map snd cs" "more_data d (drop j payload) = (?d payload)\<lparr>buffer := extra, finished := True\<rparr>"
    by simp_all
  have "buffer d @ drop j payload = extra" using arg_cong [OF out(2), of buffer] by simp
  then have "length (buffer d) + length (drop j payload) = length extra" using length_append by metis
  moreover have "length payload = length (encode_body cs []) + length extra" by (simp add: assms(3) encode_body_def)
  ultimately have "length (encode_body cs []) \<le> j" by simp
  with out(1) show ?thesis by simp
qed

lemma chunked_grows:
  assumes "chunked_at opts payload r j st" and "\<not> ex_finished st" and "opt_max_response_bytes opts < 2 ^ 63"
    and "absorb_body cb opts (take m (drop j payload)) st = (Inr u, st')"
  shows "chunked_at opts payload r (j + m) st' \<and> ex_conn st' = ex_conn st \<and> ex_got_headers st' = ex_got_headers st"
proof -
  let ?d = "more_data (new_decoder (opt_max_response_bytes opts))" and ?data = "take m (drop j payload)"
  obtain cs where cs: "ex_chunked st" "ex_length st = None" "decode_loop (?d (take j payload)) = Inr (cs, ex_decoder st)"
      "(ex_response st)\<lparr>bytes_received := 0\<rparr> = r\<lparr>resp_body := concat cs, bytes_received := 0\<rparr>"
    using assms(1) by (auto simp: chunked_at_def)
  obtain cs2 d s where s: "feed (ex_decoder st) ?data = Inr (cs2, d)"
      "append_chunks cb opts cs2 (st\<lparr>ex_decoder := d\<rparr>) = (Inr (), s)" "st' = s\<lparr>ex_finished := complete d\<rparr>"
    using assms(2,4) cs(1) by (auto simp: absorb_body_def bind_dial_Inr set_finished_def split: sum.splits)
  from append_chunks_done [OF s(2)] obtain l where
    l: "s = st\<lparr>ex_decoder := d, ex_response := (ex_response st)\<lparr>resp_body := resp_body (ex_response st) @ concat cs2\<rparr>, ex_lua := l\<rparr>"
    by auto
  have "resp_body (ex_response st) = concat cs" using arg_cong [OF cs(4), of resp_body] by simp
  then have "(ex_response st)\<lparr>resp_body := resp_body (ex_response st) @ concat cs2, bytes_received := 0\<rparr>
      = r\<lparr>resp_body := concat (cs @ cs2), bytes_received := 0\<rparr>" using other_body [OF cs(4)] by simp
  moreover have "decode_loop (?d (take (j + m) payload)) = Inr (cs @ cs2, d)"
  proof -
    have "decoder_wf (?d (take j payload))" using assms(3) by simp
    moreover have "decode_loop (more_data (ex_decoder st) ?data) = Inr (cs2, d)" using s(1) by (simp add: feed_Inr)
    ultimately show ?thesis using decode_loop_more [of "?d (take j payload)" ?data] cs(3) by (simp add: take_add)
  qed
  ultimately show ?thesis using cs(1,2) by (simp add: chunked_at_def s(3) l)
qed

lemma chunked_ends:
  assumes "chunked_good opts head block payload r content len" and "chunked_at opts payload r j st"
    and "ex_got_headers st" and "conclude started head st = (Inr resp, e)"
  shows "len \<le> j \<and> (\<exists>b t. resp = r\<lparr>resp_body := content, bytes_received := b, elapsed_ms := t\<rparr>)"
proof -
  obtain cs extra where good: "\<forall>p \<in> set cs. chunk_ok (2 ^ 63 - 1) p" "payload = encode_body cs extra"
      "content = concat (map snd cs)" "len = length (encode_body cs [])" "opt_max_response_bytes opts < 2 ^ 63"
    using assms(1) by (auto simp: chunked_good_def)
  obtain out where st: "ex_chunked st" "ex_length st = None"
      "decode_loop (more_data (new_decoder (opt_max_response_bytes opts)) (take j payload)) = Inr (out, ex_decoder st)"
      "(ex_response st)\<lparr>bytes_received := 0\<rparr> = r\<lparr>resp_body := concat out, bytes_received := 0\<rparr>"
    using assms(2) by (auto simp: chunked_at_def)
  have fin: "finished (ex_decoder st)" and "\<exists>t. resp = (ex_response st)\<lparr>elapsed_ms := t\<rparr>"
    using assms(3,4) st(1,2) by (auto simp: conclude_def Let_def complete_def split: if_splits prod.splits)
  then obtain t where t: "resp = (ex_response st)\<lparr>elapsed_ms := t\<rparr>" by blast
  from decoded_prefix_complete [OF good(1,5,2) st(3) fin] have o: "out = map snd cs" "len \<le> j" by (simp_all add: good(4))
  define n where "n = bytes_received (ex_response st)"
  have "resp = r\<lparr>resp_body := content, bytes_received := n, elapsed_ms := t\<rparr>"
    unfolding t using counted_bytes [OF st(4), folded n_def] o(1) good(3) by simp
  then show ?thesis using o(2) by blast
qed

lemma decode_nothing: "decode_loop (new_decoder m) = Inr ([], new_decoder m)"
  by (simp add: decode_loop.simps new_decoder_def decode_step_def open_chunk_def crlf_def)

lemma chunked_starts:
  assumes "chunked_good opts head block payload r content len" and "ex_response st = r\<lparr>bytes_received := b\<rparr>"
    and "ex_chunked st = is_chunked r" and "content_length_of r = Inr (ex_length st)"
    and "ex_decoder st = new_decoder (opt_max_response_bytes opts)"
  shows "chunked_at opts payload r 0 st"
proof -
  have r: "resp_body r = []" "is_chunked r" "content_length_of r = Inr None" using assms(1) by (simp_all add: chunked_good_def)
  have "more_data d (take 0 payload) = d" for d by (simp add: more_data_def)
  then have "decode_loop (more_data (new_decoder (opt_max_response_bytes opts)) (take 0 payload)) = Inr ([], ex_decoder st)"
    by (simp only: decode_nothing assms(5))
  moreover have "(ex_response st)\<lparr>bytes_received := 0\<rparr> = r\<lparr>resp_body := concat [], bytes_received := 0\<rparr>"
    using r(1) assms(2) by (cases r) simp
  moreover have "ex_chunked st" "ex_length st = None" using r(2,3) assms(3,4) by simp_all
  ultimately show ?thesis unfolding chunked_at_def by blast
qed

interpretation chunked: framing chunked_good "chunked_at :: _ \<Rightarrow> _ \<Rightarrow> _ \<Rightarrow> _ \<Rightarrow> ('c, 'l) exchange \<Rightarrow> bool"
proof unfold_locales
  fix opts head block payload r content len b and st :: "('c, 'l) exchange"
  assume good: "chunked_good opts head block payload r content len"
  then show "find_str crlf2 (block @ crlf2) = Some (length block)" "\<not> no_body head r"
    "parse_response_headers block (empty_response\<lparr>bytes_received := b\<rparr>) = Inr (r\<lparr>bytes_received := b\<rparr>)"
    by (simp_all add: chunked_good_def)
  assume "ex_response st = r\<lparr>bytes_received := b\<rparr>" "ex_chunked st = is_chunked r" "content_length_of r = Inr (ex_length st)"
    "ex_decoder st = new_decoder (opt_max_response_bytes opts)"
  with good show "chunked_at opts payload r 0 st" by (rule chunked_starts)
next
  fix opts head block payload r content len j cb m u and st st' :: "('c, 'l) exchange"
  assume "chunked_good opts head block payload r content len" "chunked_at opts payload r j st" "\<not> ex_finished st"
    "absorb_body cb opts (take m (drop j payload)) st = (Inr u, st')"
  then show "chunked_at opts payload r (j + m) st' \<and> ex_conn st' = ex_conn st \<and> ex_got_headers st' = ex_got_headers st"
    by (intro chunked_grows) (simp_all add: chunked_good_def)
qed (simp_all add: chunked_ends, simp_all add: chunked_at_def)

end
