(* ===== verification/FramedDelivery.thy ===== *)
theory FramedDelivery imports BodyFraming begin

text \<open>
  The other half of \<open>BodyFraming\<close>: when the network delivers all of a response and the callbacks do not
  interfere, the client does return it. A framing that lets its body in is a framing with three more laws;
  both framings of the client have them.
\<close>

section \<open>Framings that let a body in\<close>

locale open_framing = framing good body_at
  for good :: "http_request_options \<Rightarrow> bool \<Rightarrow> string \<Rightarrow> string \<Rightarrow> http_response \<Rightarrow> string \<Rightarrow> nat \<Rightarrow> bool"
    and body_at :: "http_request_options \<Rightarrow> string \<Rightarrow> http_response \<Rightarrow> nat \<Rightarrow> ('c, 'l) exchange \<Rightarrow> bool" +
  assumes head_accepted: "good opts head block payload r content len \<Longrightarrow> length content \<le> opt_max_response_bytes opts \<Longrightarrow>
      \<exists>n. content_length_of r = Inr n \<and> (case n of None \<Rightarrow> True | Some n \<Rightarrow> n \<le> opt_max_response_bytes opts)"
    and body_accepted: "good opts head block payload r content len \<Longrightarrow> agreeable cb \<Longrightarrow>
      length content \<le> opt_max_response_bytes opts \<Longrightarrow> length payload \<le> opt_max_response_bytes opts + 1024 * 1024 \<Longrightarrow>
      body_at opts payload r j st \<Longrightarrow> \<not> ex_finished st \<Longrightarrow>
      \<exists>st'. absorb_body cb opts (take m (drop j payload)) st = (Inr (), st') \<and> (ex_finished st' \<longleftrightarrow> len \<le> j + m)"
    and body_concluded: "good opts head block payload r content len \<Longrightarrow> body_at opts payload r j st \<Longrightarrow> ex_got_headers st \<Longrightarrow>
      len \<le> j \<Longrightarrow> \<exists>resp e. conclude started head st = (Inr resp, e)"

text \<open>The headers are accepted, and the state after them.\<close>

lemma accept_headers_agreeable:
  assumes "agreeable cb" and "content_length_of r = Inr n"
    and "case n of None \<Rightarrow> True | Some n \<Rightarrow> n \<le> opt_max_response_bytes opts"
  shows "\<exists>st'. accept_headers cb opts head r rest st = (Inr (Some rest), st')"
proof -
  from agreeable_headers [OF assms(1)] obtain l where
    "on_lua (emit_response_headers cb opts r) (st\<lparr>ex_response := r, ex_pending := [], ex_got_headers := True\<rparr>) =
      (Inr (), st\<lparr>ex_response := r, ex_pending := [], ex_got_headers := True, ex_lua := l\<rparr>)"
    by fastforce
  then show ?thesis
    using assms(2,3) by (cases n) (simp_all add: accept_headers_def bind_dial_def Let_def)
qed

definition on_time ::
    "http_request_options \<Rightarrow> (nat \<Rightarrow> ('c, 'l) exchange \<Rightarrow> bool) \<Rightarrow> string \<Rightarrow> nat \<Rightarrow> nat \<Rightarrow> ('c, 'l) exchange \<Rightarrow> bool" where
  "on_time opts at_byte block whole k st \<longleftrightarrow> on_track opts at_byte block k st \<and> (ex_finished st \<longleftrightarrow> whole \<le> k)"

context open_framing begin

lemma absorb_on_time:
  assumes "good opts head block payload r content len" and "agreeable cb"
    and "length content \<le> opt_max_response_bytes opts" and "length payload \<le> opt_max_response_bytes opts + 1024 * 1024"
    and "on_time opts (body_at opts payload r) block (length block + 4 + len) k st" and "k < length block + 4 + len"
    and "length block + 4 + m \<le> 1024 * 1024"
  shows "\<exists>st'. absorb cb opts head (take m (drop k (block @ crlf2 @ payload))) st = (Inr (), st')
    \<and> on_time opts (body_at opts payload r) block (length block + 4 + len) (k + m) st' \<and> ex_conn st' = ex_conn st"
proof -
  let ?T = "block @ crlf2 @ payload" and ?h = "length block + 4"
  have on: "on_track opts (body_at opts payload r) block k st" and open_yet: "\<not> ex_finished st"
    using assms(5,6) by (simp_all add: on_time_def)
  have "\<exists>st'. absorb cb opts head (take m (drop k ?T)) st = (Inr (), st') \<and> (ex_finished st' \<longleftrightarrow> ?h + len \<le> k + m)"
  proof (cases "k < ?h")
    case False
    with on have st: "ex_got_headers st" "body_at opts payload r (k - ?h) st" by (simp_all add: on_track_def)
    have "take m (drop k ?T) = take m (drop (k - ?h) payload)" using False by simp
    then show ?thesis
      using body_accepted [OF assms(1-4) st(2) open_yet, of m] st(1) False by (auto simp: absorb_def)
  next
    case True
    with on have st: "\<not> ex_got_headers st" "ex_pending st = take k (block @ crlf2)"
        "(ex_response st)\<lparr>bytes_received := 0\<rparr> = empty_response\<lparr>bytes_received := 0\<rparr>"
        "ex_decoder st = new_decoder (opt_max_response_bytes opts)" by (simp_all add: on_track_def)
    have p: "ex_pending st @ take m (drop k ?T) = take (k + m) ?T"
    proof -
      have "take k (block @ crlf2) = take k ?T" using True by simp
      then show ?thesis unfolding st(2) by (simp only: take_add)
    qed
    have small: "\<not> 1024 * 1024 < length (take (k + m) ?T)" using assms(7) True by simp
    have "find_str crlf2 (block @ crlf2 @ payload) = Some (length block)"
      using find_str_append [OF head_found [OF assms(1)], of payload] by simp
    note found = find_str_take [OF this, of "k + m", simplified]
    show ?thesis
    proof (cases "?h \<le> k + m")
      case False
      then have "absorb_headers cb opts head (take m (drop k ?T)) st = (Inr None, st\<lparr>ex_pending := take (k + m) ?T\<rparr>)"
        using found small unfolding absorb_headers_def Let_def p by simp
      then show ?thesis using st(1) False open_yet by (simp add: absorb_def bind_dial_def)
    next
      case complete: True
      then have f: "find_str crlf2 (take (k + m) ?T) = Some (length block)" using found by simp
      define r' where "r' = r\<lparr>bytes_received := bytes_received (ex_response st)\<rparr>"
      have "take (length block) (take (k + m) ?T) = block" using complete by (simp add: min_def)
      then have parsed: "parse_response_headers (take (length block) (take (k + m) ?T)) (ex_response st) = Inr r'"
        using counted_bytes [OF st(3)] head_parsed [OF assms(1)] unfolding r'_def by metis
      obtain n where n: "content_length_of r = Inr n" "case n of None \<Rightarrow> True | Some n \<Rightarrow> n \<le> opt_max_response_bytes opts"
        using head_accepted [OF assms(1,3)] by blast
      have "content_length_of r' = Inr n" by (simp add: r'_def head_ignores_count n(1))
      from accept_headers_agreeable [OF assms(2) this n(2), of head "drop ?h (take (k + m) ?T)" "st\<lparr>ex_pending := take (k + m) ?T\<rparr>"]
      obtain s where acc: "absorb_headers cb opts head (take m (drop k ?T)) st = (Inr (Some (drop ?h (take (k + m) ?T))), s)"
        using f parsed small unfolding absorb_headers_def Let_def p by auto
      have "find_str crlf2 (ex_pending st @ take m (drop k ?T)) = Some (length block)" unfolding p by (rule f)
      from absorb_headers_complete [OF acc this, unfolded p] parsed obtain l where
        s: "s = st\<lparr>ex_response := r', ex_pending := [], ex_got_headers := True, ex_lua := l,
            ex_chunked := is_chunked r', ex_length := n, ex_finished := no_body head r'\<rparr>"
        using \<open>content_length_of r' = Inr n\<close> by auto
      have "body_at opts payload r 0 s"
        by (rule body_starts [OF assms(1), where b = "bytes_received (ex_response st)"])
          (use s st(4) n(1) in \<open>simp_all add: r'_def head_ignores_count\<close>)
      moreover have "\<not> ex_finished s" using s has_body [OF assms(1)] by (simp add: r'_def head_ignores_count)
      ultimately obtain st' where st': "absorb_body cb opts (take (k + m - ?h) (drop 0 payload)) s = (Inr (), st')"
          "ex_finished st' \<longleftrightarrow> len \<le> k + m - ?h"
        using body_accepted [OF assms(1-4), of 0 s "k + m - ?h"] by auto
      have "drop ?h ?T = payload" by simp
      then have "drop ?h (take (k + m) ?T) = take (k + m - ?h) (drop 0 payload)" by (simp only: drop_take drop_0)
      then have "absorb cb opts head (take m (drop k ?T)) st = (Inr (), st')"
        using st(1) acc st'(1) by (simp add: absorb_def bind_dial_def)
      then show ?thesis using st'(2) complete by (intro exI [of _ st']) auto
    qed
  qed
  then obtain st' where st': "absorb cb opts head (take m (drop k ?T)) st = (Inr (), st')" "ex_finished st' \<longleftrightarrow> ?h + len \<le> k + m"
    by blast
  from absorb_on_track [OF assms(1) on open_yet st'(1)] st' show ?thesis by (auto simp: on_time_def)
qed

lemma receive_step_on_time:
  assumes "good opts head block payload r content (length payload)" and "agreeable cb"
    and "length content \<le> opt_max_response_bytes opts" and "length payload \<le> opt_max_response_bytes opts + 1024 * 1024"
    and "opt_total_timeout_ms opts = 0" and "options_in_range opts"
    and "length block + 4 + opt_buffer_size opts \<le> 1024 * 1024"
    and "on_time opts (body_at opts payload r) block (length block + 4 + length payload) k st"
    and "arriving (drop k (block @ crlf2 @ payload)) (m # ks) st" and "0 < m" and "k < length block + 4 + length payload"
  shows "\<exists>k' st'. receive_step api names cb opts started head st = (Inr (), st') \<and> k < k'
    \<and> on_time opts (body_at opts payload r) block (length block + 4 + length payload) k' st'
    \<and> arriving (drop k' (block @ crlf2 @ payload)) ks st' \<and> k' \<le> length block + 4 + length payload"
proof -
  let ?T = "block @ crlf2 @ payload" and ?whole = "length block + 4 + length payload"
  have whole: "length ?T = ?whole" by simp
  obtain n l s where step: "receive_step api names cb opts started head st = absorb cb opts head (take n (drop k ?T))
        (st\<lparr>ex_lua := l, ex_conn := Plain s, ex_response := (ex_response st)\<lparr>bytes_received := bytes_received (ex_response st) + n\<rparr>\<rparr>)"
      and n: "0 < n" "k + n \<le> ?whole" "n \<le> opt_buffer_size opts"
      and s: "\<not> recv_initiated s" "clock s = []" "recv_answers s = map ready_io ks" "wire s = drop (k + n) ?T"
    using receive_step_delivers [OF assms(2,9,10) _ assms(5,6), of api names started head] assms(11) unfolding whole by blast
  let ?s2 = "st\<lparr>ex_lua := l, ex_conn := Plain s,
      ex_response := (ex_response st)\<lparr>bytes_received := bytes_received (ex_response st) + n\<rparr>\<rparr>"
  have "on_track opts (body_at opts payload r) block k st" "ex_finished st \<longleftrightarrow> ?whole \<le> k"
    using assms(8) by (simp_all add: on_time_def)
  moreover define st1 where "st1 = st\<lparr>ex_lua := l, ex_conn := Plain s\<rparr>"
  ultimately have "on_track opts (body_at opts payload r) block k st1" by (simp only: on_track_frame)
  then have "on_track opts (body_at opts payload r) block k
      (st1\<lparr>ex_response := (ex_response st1)\<lparr>bytes_received := bytes_received (ex_response st) + n\<rparr>\<rparr>)"
    by (simp only: on_track_frame)
  moreover have "st1\<lparr>ex_response := (ex_response st1)\<lparr>bytes_received := bytes_received (ex_response st) + n\<rparr>\<rparr> = ?s2"
    by (simp add: st1_def)
  ultimately have "on_track opts (body_at opts payload r) block k ?s2" by simp
  then have st2: "on_time opts (body_at opts payload r) block ?whole k ?s2"
    using \<open>ex_finished st \<longleftrightarrow> ?whole \<le> k\<close> by (simp add: on_time_def)
  have "length block + 4 + n \<le> 1024 * 1024" using assms(7) n(3) by linarith
  from absorb_on_time [OF assms(1-4) st2 assms(11) this] obtain st' where
    "absorb cb opts head (take n (drop k ?T)) ?s2 = (Inr (), st')"
    "on_time opts (body_at opts payload r) block ?whole (k + n) st'" "ex_conn st' = Plain s" by auto
  moreover from this(3) s have "arriving (drop (k + n) ?T) ks st'" by (simp add: arriving_def)
  ultimately show ?thesis using step n(1,2) by (intro exI [of _ "k + n"] exI [of _ st']) simp
qed

lemma receive_loop_on_time:
  assumes "good opts head block payload r content (length payload)" and "agreeable cb"
    and "length content \<le> opt_max_response_bytes opts" and "length payload \<le> opt_max_response_bytes opts + 1024 * 1024"
    and "opt_total_timeout_ms opts = 0" and "options_in_range opts"
    and "length block + 4 + opt_buffer_size opts \<le> 1024 * 1024"
  shows "on_time opts (body_at opts payload r) block (length block + 4 + length payload) k st \<Longrightarrow>
    arriving (drop k (block @ crlf2 @ payload)) ks st \<Longrightarrow> \<forall>m \<in> set ks. 0 < m \<Longrightarrow>
    k \<le> length block + 4 + length payload \<Longrightarrow> length block + 4 + length payload - k \<le> length ks \<Longrightarrow>
    \<exists>st'. receive_loop api names cb opts started head st = Some (Inr (), st')
      \<and> on_time opts (body_at opts payload r) block (length block + 4 + length payload) (length block + 4 + length payload) st'"
proof (induction ks arbitrary: k st)
  case Nil
  then have "k = length block + 4 + length payload" by simp
  moreover have "ex_finished st" using Nil.prems(1) calculation by (simp add: on_time_def)
  ultimately show ?case using Nil.prems(1) by (subst receive_loop.simps) simp
next
  case (Cons m ks)
  let ?whole = "length block + 4 + length payload"
  show ?case
  proof (cases "k = ?whole")
    case True
    moreover have "ex_finished st" using Cons.prems(1) True by (simp add: on_time_def)
    ultimately show ?thesis using Cons.prems(1) by (subst receive_loop.simps) simp
  next
    case False
    then have k: "k < ?whole" using Cons.prems(4) by simp
    have "0 < m" using Cons.prems(3) by simp
    from receive_step_on_time [OF assms Cons.prems(1,2) this k, of api names started]
    obtain k' st' where st': "receive_step api names cb opts started head st = (Inr (), st')" "k < k'"
        "on_time opts (body_at opts payload r) block ?whole k' st'" "arriving (drop k' (block @ crlf2 @ payload)) ks st'"
        "k' \<le> ?whole"
      by blast
    have "?whole - k' \<le> length ks" using Cons.prems(5) st'(2) k by simp
    from Cons.IH [OF st'(3,4) _ st'(5) this] Cons.prems(3) obtain st'' where
        "receive_loop api names cb opts started head st' = Some (Inr (), st'')"
        "on_time opts (body_at opts payload r) block ?whole ?whole st''"
      by auto
    moreover have "\<not> ex_finished st" using Cons.prems(1) k by (simp add: on_time_def)
    ultimately show ?thesis using st'(1) by (subst receive_loop.simps) simp
  qed
qed

text \<open>A prompt network: the exchange returns the response.\<close>

lemma delivered:
  fixes env :: "('c, 'l) http_env"
  assumes "good opts (head_request request) block payload r content (length payload)" and "agreeable (http_callbacks env)"
    and "length content \<le> opt_max_response_bytes opts" and "length payload \<le> opt_max_response_bytes opts + 1024 * 1024"
    and "opt_total_timeout_ms opts = 0" and "options_in_range opts"
    and "length block + 4 + opt_buffer_size opts \<le> 1024 * 1024"
    and "prompt_socket request (block @ crlf2 @ payload) ks s" and "request \<noteq> []" and "length request < 2 ^ 31"
  shows "\<exists>b t e. run_exchange env opts started request (new_exchange opts (Plain s) ticks l) =
    Some (Inr (r\<lparr>resp_body := content, bytes_received := b, elapsed_ms := t\<rparr>), e)"
proof -
  let ?api = "env_schannel (http_dial env)" and ?whole = "length block + 4 + length payload"
  obtain s' where s': "send_request ?api (http_errors env) opts started request (new_exchange opts (Plain s) ticks l)
        = (Inr (), new_exchange opts (Plain s') ticks l)"
      "arriving (block @ crlf2 @ payload) ks (new_exchange opts (Plain s') ticks l :: ('c, 'l) exchange)"
    using send_request_prompt [OF assms(8-10,5,6), of ?api "http_errors env" started ticks l] by blast
  let ?st1 = "new_exchange opts (Plain s') ticks l :: ('c, 'l) exchange"
  have start: "on_time opts (body_at opts payload r) block ?whole 0 ?st1"
    by (simp add: on_time_def on_track_def new_exchange_def)
  have arr: "arriving (drop 0 (block @ crlf2 @ payload)) ks ?st1" using s'(2) by simp
  have "\<forall>m \<in> set ks. 0 < m" "?whole - 0 \<le> length ks" using assms(8) by (simp_all add: prompt_socket_def)
  from receive_loop_on_time [OF assms(1-7) start arr this(1) le0 this(2), of ?api "http_errors env" started]
  obtain st2 where loop: "receive_loop ?api (http_errors env) (http_callbacks env) opts started
        (head_request request) ?st1 = Some (Inr (), st2)" "on_time opts (body_at opts payload r) block ?whole ?whole st2"
    by blast
  have st2: "ex_got_headers st2" "body_at opts payload r (length payload) st2"
    using loop(2) by (simp_all add: on_time_def on_track_def)
  then obtain resp e where c: "conclude started (head_request request) st2 = (Inr resp, e)"
    using body_concluded [OF assms(1), of "length payload" st2 started] by auto
  have "run_exchange env opts started request (new_exchange opts (Plain s) ticks l) = Some (Inr resp, e)"
    using s'(1) loop(1) c by (simp add: run_exchange_def Let_def)
  with body_ends [OF assms(1) st2(2,1) c] show ?thesis by blast
qed

end

section \<open>Both framings do\<close>

lemma counted_accepted:
  assumes "counted_good opts head block payload r content len" and "agreeable cb"
    and "length content \<le> opt_max_response_bytes opts" and "counted_at opts payload r j st" and "\<not> ex_finished st"
  shows "\<exists>st'. absorb_body cb opts (take m (drop j payload)) st = (Inr (), st') \<and> (ex_finished st' \<longleftrightarrow> len \<le> j + m)"
proof -
  let ?n = "length content"
  have good: "content_length_of r = Inr (Some ?n)" "prefix content payload" "len = ?n"
    using assms(1) by (simp_all add: counted_good_def plain_head_def)
  then have c: "take ?n payload = content" by (auto simp: prefix_def)
  have st: "\<not> ex_chunked st" "ex_length st = Some ?n"
      "(ex_response st)\<lparr>bytes_received := 0\<rparr> = r\<lparr>resp_body := take j content, bytes_received := 0\<rparr>"
    using assms(4) good(1) c by (auto simp: counted_at_def)
  have b: "resp_body (ex_response st) = take j content" using arg_cong [OF st(3), of resp_body] by simp
  let ?d = "take (?n - length (resp_body (ex_response st))) (take m (drop j payload))"
  have joined: "resp_body (ex_response st) @ ?d = take (j + m) content"
    using counted_part [of j ?n payload m] by (simp only: b c)
  then have "length (resp_body (ex_response st)) + length ?d = length (take (j + m) content)"
    by (simp only: flip: length_append)
  then have "length (resp_body (ex_response st)) + length ?d \<le> opt_max_response_bytes opts" using assms(3) by simp
  from append_body_runs [OF assms(2) this] obtain l where
    "append_body cb opts ?d st = (Inr (), st\<lparr>ex_response := (ex_response st)\<lparr>resp_body := take (j + m) content\<rparr>, ex_lua := l\<rparr>)"
    unfolding joined by blast
  then show ?thesis using assms(5) st(1,2) good(3) by (simp add: absorb_body_def bind_dial_def set_finished_def Let_def)
qed

lemma counted_concluded:
  assumes "counted_good opts head block payload r content len" and "counted_at opts payload r j st"
    and "ex_got_headers st" and "len \<le> j"
  shows "\<exists>resp e. conclude started head st = (Inr resp, e)"
proof -
  have good: "content_length_of r = Inr (Some (length content))" "prefix content payload" "len = length content"
    using assms(1) by (simp_all add: counted_good_def plain_head_def)
  then have c: "take (length content) payload = content" by (auto simp: prefix_def)
  have st: "\<not> ex_chunked st" "ex_length st = Some (length content)"
      "(ex_response st)\<lparr>bytes_received := 0\<rparr> = r\<lparr>resp_body := take j content, bytes_received := 0\<rparr>"
    using assms(2) good(1) c by (auto simp: counted_at_def)
  have "resp_body (ex_response st) = content"
    using arg_cong [OF st(3), of resp_body] assms(4) good(3) by simp
  then show ?thesis using st(1,2) assms(3) by (simp add: conclude_def Let_def split: prod.splits)
qed

interpretation counted_open: open_framing counted_good "counted_at :: _ \<Rightarrow> _ \<Rightarrow> _ \<Rightarrow> _ \<Rightarrow> ('c, 'l) exchange \<Rightarrow> bool"
proof unfold_locales
  fix opts head block payload r content len
  assume "counted_good opts head block payload r content len" "length content \<le> opt_max_response_bytes opts"
  then show "\<exists>n. content_length_of r = Inr n \<and> (case n of None \<Rightarrow> True | Some n \<Rightarrow> n \<le> opt_max_response_bytes opts)"
    by (simp add: counted_good_def plain_head_def)
qed (rule counted_accepted counted_concluded; assumption)+

lemma encode_body_rest: "encode_body cs [] @ extra = encode_body cs extra"
  by (simp add: encode_body_def)

lemma decoded_prefix_finished:
  assumes "\<forall>p \<in> set ch. chunk_ok (2 ^ 63 - 1) p" and "m < 2 ^ 63" and "payload = encode_body ch extra"
    and "decode_loop (more_data (new_decoder m) (take j payload)) = Inr (cs, d)" and "length (encode_body ch []) \<le> j"
  shows "finished d"
proof -
  let ?rest = "take (j - length (encode_body ch [])) extra" and ?d = "more_data (new_decoder m) (take j payload)"
  have "take j (encode_body ch [] @ extra) = encode_body ch [] @ ?rest" using assms(5) by simp
  then have "take j payload = encode_body ch ?rest" by (simp only: encode_body_rest assms(3))
  then have d: "maximum ?d = m" "remaining ?d = None" "\<not> finished ?d" "buffer ?d = encode_body ch ?rest"
    by (simp_all add: new_decoder_def)
  have "maximum ?d < 2 ^ 63" using assms(2) by (simp only: d(1))
  from decode_loop_encoded [OF decoded_chunks_fit [OF assms(1) this d(2-4) assms(4)] this d(2-4)]
  have "d = ?d\<lparr>buffer := ?rest, finished := True\<rparr>" using assms(4) by simp
  then show ?thesis by simp
qed

lemma append_chunks_runs:
  assumes "agreeable cb"
  shows "length (resp_body (ex_response st)) + length (concat cs) \<le> opt_max_response_bytes opts \<Longrightarrow>
    \<exists>st'. append_chunks cb opts cs st = (Inr (), st')"
proof (induction cs arbitrary: st)
  case (Cons c cs)
  then obtain l where "append_body cb opts c st = (Inr (), st\<lparr>ex_response :=
      (ex_response st)\<lparr>resp_body := resp_body (ex_response st) @ c\<rparr>, ex_lua := l\<rparr>)"
    using append_body_runs [OF assms, of st c opts] by auto
  with Cons show ?case by (simp add: bind_dial_def)
qed simp

lemma chunked_accepted:
  assumes "chunked_good opts head block payload r content len" and "agreeable cb"
    and "length content \<le> opt_max_response_bytes opts" and "length payload \<le> opt_max_response_bytes opts + 1024 * 1024"
    and "chunked_at opts payload r j st" and "\<not> ex_finished st"
  shows "\<exists>st'. absorb_body cb opts (take m (drop j payload)) st = (Inr (), st') \<and> (ex_finished st' \<longleftrightarrow> len \<le> j + m)"
proof -
  let ?m = "opt_max_response_bytes opts" and ?data = "take m (drop j payload)"
  obtain ch extra where good: "\<forall>p \<in> set ch. chunk_ok (2 ^ 63 - 1) p" "payload = encode_body ch extra"
      "content = concat (map snd ch)" "len = length (encode_body ch [])" "?m < 2 ^ 63"
    using assms(1) by (auto simp: chunked_good_def)
  obtain cs where st: "ex_chunked st" "ex_length st = None"
      "decode_loop (more_data (new_decoder ?m) (take j payload)) = Inr (cs, ex_decoder st)"
      "(ex_response st)\<lparr>bytes_received := 0\<rparr> = r\<lparr>resp_body := concat cs, bytes_received := 0\<rparr>"
    using assms(5) by (auto simp: chunked_at_def)
  have b: "resp_body (ex_response st) = concat cs" using arg_cong [OF st(4), of resp_body] by simp
  have "length (snd p) \<le> ?m" if "p \<in> set ch" for p
  proof -
    have "length (snd p) \<le> length content" using that unfolding good(3) length_concat by (intro member_le_sum_list) auto
    then show ?thesis using assms(3) by simp
  qed
  then have "\<forall>p \<in> set ch. chunk_ok ?m p" using good(1) by (fastforce simp: chunk_ok_def)
  note whole = feed_encoded [OF good(5) this good(2) assms(4)]
  have wf: "decoder_wf (new_decoder ?m)" using good(5) by simp
  obtain os1 t os2 where s: "feed (new_decoder ?m) (take j payload) = Inr (os1, t)"
      "feed t (drop j payload) = Inr (os2, (new_decoder ?m)\<lparr>buffer := extra, finished := True\<rparr>)" "map snd ch = os1 @ os2"
    using decoder_stream.feed_split [OF wf, of "take j payload" "drop j payload"] whole by auto
  have t: "os1 = cs" "t = ex_decoder st" using s(1) st(3) by (simp_all add: feed_Inr)
  have wf_t: "decoder_wf t" using decoder_stream.feed_wf [OF wf s(1)] .
  have "?data @ drop m (drop j payload) = drop j payload" by (rule append_take_drop_id)
  from decoder_stream.feed_split [OF wf_t, of ?data "drop m (drop j payload)", unfolded this, OF s(2)]
  obtain cs2 u os3 where u: "feed t ?data = Inr (cs2, u)" "os2 = cs2 @ os3" by blast
  have "content = concat cs @ concat cs2 @ concat os3" using good(3) s(3) t(1) u(2) by simp
  then have "length (resp_body (ex_response (st\<lparr>ex_decoder := u\<rparr>))) + length (concat cs2) \<le> ?m" using assms(3) b by simp
  from append_chunks_runs [OF assms(2) this] obtain st1 where
    a: "append_chunks cb opts cs2 (st\<lparr>ex_decoder := u\<rparr>) = (Inr (), st1)" by blast
  have "absorb_body cb opts ?data st = (Inr (), st1\<lparr>ex_finished := complete u\<rparr>)"
    using assms(6) st(1) u(1) t(2) a by (simp add: absorb_body_def bind_dial_def set_finished_def)
  moreover have "complete u \<longleftrightarrow> len \<le> j + m"
  proof
    have read: "decode_loop (more_data (new_decoder ?m) (take (j + m) payload)) = Inr (cs @ cs2, u)"
    proof -
      have "decoder_wf (more_data (new_decoder ?m) (take j payload))" using wf by simp
      moreover have "decode_loop (more_data (ex_decoder st) ?data) = Inr (cs2, u)" using u(1) t(2) by (simp add: feed_Inr)
      ultimately show ?thesis
        using decode_loop_more [of "more_data (new_decoder ?m) (take j payload)" ?data] st(3) by (simp add: take_add)
    qed
    show "len \<le> j + m" if "complete u"
      using decoded_prefix_complete [OF good(1,5,2) read] that by (simp add: complete_def good(4))
    show "complete u" if "len \<le> j + m"
      using decoded_prefix_finished [OF good(1,5,2) read] that by (simp add: complete_def good(4))
  qed
  ultimately show ?thesis by (intro exI [of _ "st1\<lparr>ex_finished := complete u\<rparr>"]) simp
qed

lemma chunked_concluded:
  assumes "chunked_good opts head block payload r content len" and "chunked_at opts payload r j st"
    and "ex_got_headers st" and "len \<le> j"
  shows "\<exists>resp e. conclude started head st = (Inr resp, e)"
proof -
  let ?m = "opt_max_response_bytes opts"
  obtain ch extra where good: "\<forall>p \<in> set ch. chunk_ok (2 ^ 63 - 1) p" "payload = encode_body ch extra"
      "len = length (encode_body ch [])" "?m < 2 ^ 63"
    using assms(1) by (auto simp: chunked_good_def)
  obtain cs where st: "ex_chunked st" "ex_length st = None"
      "decode_loop (more_data (new_decoder ?m) (take j payload)) = Inr (cs, ex_decoder st)"
    using assms(2) by (auto simp: chunked_at_def)
  have "finished (ex_decoder st)" using decoded_prefix_finished [OF good(1,4,2) st(3)] assms(4) by (simp only: good(3))
  then show ?thesis using st(1,2) assms(3) by (simp add: conclude_def Let_def complete_def split: prod.splits)
qed

interpretation chunked_open: open_framing chunked_good "chunked_at :: _ \<Rightarrow> _ \<Rightarrow> _ \<Rightarrow> _ \<Rightarrow> ('c, 'l) exchange \<Rightarrow> bool"
proof unfold_locales
  fix opts head block payload r content len
  assume "chunked_good opts head block payload r content len"
  then show "\<exists>n. content_length_of r = Inr n \<and> (case n of None \<Rightarrow> True | Some n \<Rightarrow> n \<le> opt_max_response_bytes opts)"
    by (auto simp: chunked_good_def)
qed (rule chunked_accepted chunked_concluded; assumption)+

end
