(* ===== verification/ExchangeIntegrity.thy ===== *)
theory ExchangeIntegrity imports FramedDelivery begin

text \<open>
  What an HTTP exchange can return when its peer sends, of one response, as much as it likes, and perhaps
  more behind it: the client returns that response or an error, never anything else. This holds for plain
  and for TLS connections, for every network, every callback and every limit, and for both framings of
  \<open>BodyFraming\<close>. When the network delivers everything, it is the response.
\<close>

section \<open>Built responses\<close>

text \<open>
  C2. What a client returns is what the server sent, or an error: when a plain or a TLS connection carries
  a response that \<open>ResponseBuilder\<close> built, or the beginning of it, or more behind it, in any pieces, then
  whatever the network, the callbacks, the limits and the clock do, the request ends; and if it ends with
  a response, the whole of it has arrived, and its status, reason, headers and body are those that were
  built. So a response that is cut off is never taken for a shorter one, and bytes behind it never get
  into it.
\<close>

theorem exchange_never_garbled:
  assumes "num_int api (Finite (of_int st)) = st" and "100 \<le> st" and "st \<le> 999" and "st \<noteq> 204" and "st \<noteq> 304"
    and "clean_text reason" and "CHR 0x0A \<notin> set reason" and "\<forall>h \<in> set hs. clean_header h"
    and "\<forall>h \<in> set hs. lower_ascii (fst h) \<noteq> ''content-length'' \<and> lower_ascii (fst h) \<noteq> ''transfer-encoding''"
    and "response_builder api (response_table_of st reason hs body) = Inr answer" and "length body < 2 ^ 64"
    and "\<not> head_request request" and "options_in_range opts"
    and "source (env_schannel (http_dial env)) conn stream" and "prefix stream (answer @ extra)"
    and "secure conn \<longrightarrow> duplex (env_schannel (http_dial env))"
  shows "\<exists>res e. run_exchange env opts started request (new_exchange opts conn ticks l) = Some (res, e)
    \<and> (\<forall>resp. res = Inr resp \<longrightarrow> prefix answer stream \<and> resp_status resp = st \<and> resp_reason resp = reason
        \<and> resp_headers resp = built_headers hs body \<and> resp_body resp = body)"
proof -
  let ?opts = "opts\<lparr>opt_max_response_bytes := length body\<rparr>"
  have "length body \<le> opt_max_response_bytes ?opts" "opt_max_response_bytes ?opts < 2 ^ 64" using assms(11) by simp_all
  from built_plain_head [OF assms(1-9) this assms(12,10)] obtain block r where b: "answer = block @ crlf2 @ body"
      "plain_head ?opts (head_request request) block body r"
      "resp_status r = st" "resp_reason r = reason" "resp_headers r = built_headers hs body"
    using assms(12) by auto
  have good: "counted_good opts (head_request request) block (body @ extra) r body (length body)"
    using b(2) by (simp add: counted_good_def)
  have "prefix stream (block @ crlf2 @ body @ extra)" using assms(15) b(1) by simp
  from counted.never_garbled [OF good assms(13,14) this assms(16), of started ticks l] obtain res e where
    run: "run_exchange env opts started request (new_exchange opts conn ticks l) = Some (res, e)"
      "\<And>resp. res = Inr resp \<Longrightarrow> length block + 4 + length body \<le> length stream
        \<and> (\<exists>b t. resp = r\<lparr>resp_body := body, bytes_received := b, elapsed_ms := t\<rparr>)" by blast
  have "prefix answer stream" if "length block + 4 + length body \<le> length stream"
    using that assms(15) prefix_length_prefix [of answer "answer @ extra" stream] by (simp add: b(1))
  with run b(3-5) show ?thesis by (intro exI [of _ res] exI [of _ e]) fastforce
qed

section \<open>Chunked responses\<close>

text \<open>A response with a chunked body, as a server may send it: every chunk with its extension.\<close>

definition chunked_answer :: "int \<Rightarrow> string \<Rightarrow> (string \<times> string) list \<Rightarrow> (string \<times> string) list \<Rightarrow> string" where
  "chunked_answer st reason hs cs =
     head_block st reason hs (''Transfer-Encoding'', ''chunked'') @ crlf2 @ encode_body cs []"

lemma clean_chunked: "clean_header (''Transfer-Encoding'', ''chunked'')"
  by (simp add: clean_header_def clean_text_def is_ows_def)

lemma chunked_headers_lookup:
  assumes "\<forall>h \<in> set hs. lower_ascii (fst h) \<noteq> ''content-length'' \<and> lower_ascii (fst h) \<noteq> ''transfer-encoding''"
  shows "lookup_header (map (\<lambda>(k, v). (lower_ascii k, v)) (hs @ [(''Transfer-Encoding'', ''chunked'')])) ''content-length'' = []"
    and "lookup_header (map (\<lambda>(k, v). (lower_ascii k, v)) (hs @ [(''Transfer-Encoding'', ''chunked'')])) ''transfer-encoding'' = ''chunked''"
proof -
  have low: "lower_ascii ''Transfer-Encoding'' = ''transfer-encoding''" by (simp add: lower_ascii_def) code_simp
  have "\<forall>h \<in> set (map (\<lambda>(k, v). (lower_ascii k, v)) hs). fst h \<noteq> ''content-length'' \<and> fst h \<noteq> ''transfer-encoding''"
    using assms by auto
  then show "lookup_header (map (\<lambda>(k, v). (lower_ascii k, v)) (hs @ [(''Transfer-Encoding'', ''chunked'')])) ''content-length'' = []"
    and "lookup_header (map (\<lambda>(k, v). (lower_ascii k, v)) (hs @ [(''Transfer-Encoding'', ''chunked'')])) ''transfer-encoding'' = ''chunked''"
    by (simp_all add: lookup_unnamed low)
qed

lemma chunked_answer_good:
  assumes "100 \<le> st" and "st \<le> 999" and "st \<noteq> 204" and "st \<noteq> 304" and "clean_text reason" and "CHR 0x0A \<notin> set reason"
    and "\<forall>h \<in> set hs. clean_header h"
    and "\<forall>h \<in> set hs. lower_ascii (fst h) \<noteq> ''content-length'' \<and> lower_ascii (fst h) \<noteq> ''transfer-encoding''"
    and "\<forall>p \<in> set cs. chunk_ok (2 ^ 63 - 1) p" and "opt_max_response_bytes opts < 2 ^ 63" and "\<not> head"
  defines "block \<equiv> head_block st reason hs (''Transfer-Encoding'', ''chunked'')"
  shows "\<exists>r. chunked_good opts head block (encode_body cs extra) r (concat (map snd cs)) (length (encode_body cs []))
    \<and> resp_status r = st \<and> resp_reason r = reason
    \<and> resp_headers r = map (\<lambda>(k, v). (lower_ascii k, v)) (hs @ [(''Transfer-Encoding'', ''chunked'')])"
proof -
  let ?hs = "map (\<lambda>(k, v). (lower_ascii k, v)) (hs @ [(''Transfer-Encoding'', ''chunked'')])"
  define r where "r = empty_response\<lparr>raw_headers := block, resp_version := ''HTTP/1.1'', resp_status := st,
      resp_reason := reason, resp_headers := ?hs\<rparr>"
  note read = head_block_read [OF assms(1,2,5-7) clean_chunked, folded block_def]
  have "find_str crlf2 (block @ crlf2) = Some (length block)" using read(1) [of "[]"] by simp
  moreover have "parse_response_headers block (empty_response\<lparr>bytes_received := b\<rparr>) = Inr (r\<lparr>bytes_received := b\<rparr>)" for b
    using read(2) [of "empty_response\<lparr>bytes_received := b\<rparr>"] by (simp add: r_def empty_response_def)
  moreover have "is_chunked r" "content_length_of r = Inr None"
    using chunked_headers_lookup [OF assms(8)]
    by (simp_all add: is_chunked_def content_length_of_def response_header_def r_def lower_ascii_def) code_simp
  moreover have "resp_body r = []" "\<not> no_body head r" using assms(3,4,11) by (simp_all add: r_def empty_response_def no_body_def)
  ultimately have "chunked_good opts head block (encode_body cs extra) r (concat (map snd cs)) (length (encode_body cs []))"
    unfolding chunked_good_def using assms(9,10) by blast
  then show ?thesis by (intro exI [of _ r]) (simp add: r_def)
qed

text \<open>
  C3. The same for chunked bodies: when a plain or a TLS connection carries a response with a chunked body,
  or the beginning of it, or more behind it, in any pieces, the request ends, and a response it returns is
  the one that was sent, with the chunks put together, after the last of them has arrived. It does not
  matter how the pieces cut the chunks, which extensions they have, or at which byte the stream breaks off.
\<close>

theorem chunked_exchange_never_garbled:
  assumes "100 \<le> st" and "st \<le> 999" and "st \<noteq> 204" and "st \<noteq> 304" and "clean_text reason" and "CHR 0x0A \<notin> set reason"
    and "\<forall>h \<in> set hs. clean_header h"
    and "\<forall>h \<in> set hs. lower_ascii (fst h) \<noteq> ''content-length'' \<and> lower_ascii (fst h) \<noteq> ''transfer-encoding''"
    and "\<forall>p \<in> set cs. chunk_ok (2 ^ 63 - 1) p" and "\<not> head_request request" and "options_in_range opts"
    and "source (env_schannel (http_dial env)) conn stream" and "prefix stream (chunked_answer st reason hs cs @ extra)"
    and "secure conn \<longrightarrow> duplex (env_schannel (http_dial env))"
  shows "\<exists>res e. run_exchange env opts started request (new_exchange opts conn ticks l) = Some (res, e)
    \<and> (\<forall>resp. res = Inr resp \<longrightarrow> prefix (chunked_answer st reason hs cs) stream \<and> resp_status resp = st
        \<and> resp_reason resp = reason
        \<and> resp_headers resp = map (\<lambda>(k, v). (lower_ascii k, v)) (hs @ [(''Transfer-Encoding'', ''chunked'')])
        \<and> resp_body resp = concat (map snd cs))"
proof -
  let ?block = "head_block st reason hs (''Transfer-Encoding'', ''chunked'')" and ?answer = "chunked_answer st reason hs cs"
  have "opt_max_response_bytes opts < 2 ^ 63" using assms(11) by (simp add: options_in_range_def)
  from chunked_answer_good [OF assms(1-9) this assms(10), of extra] obtain r where
    good: "chunked_good opts (head_request request) ?block (encode_body cs extra) r (concat (map snd cs)) (length (encode_body cs []))"
    and r: "resp_status r = st" "resp_reason r = reason"
      "resp_headers r = map (\<lambda>(k, v). (lower_ascii k, v)) (hs @ [(''Transfer-Encoding'', ''chunked'')])" by blast
  have "encode_body cs [] @ extra = encode_body cs extra" by (simp add: encode_body_def)
  then have "prefix stream (?block @ crlf2 @ encode_body cs extra)" using assms(13) by (simp add: chunked_answer_def)
  from chunked.never_garbled [OF good assms(11,12) this assms(14), of started ticks l] obtain res e where
    run: "run_exchange env opts started request (new_exchange opts conn ticks l) = Some (res, e)"
      "\<And>resp. res = Inr resp \<Longrightarrow> length ?block + 4 + length (encode_body cs []) \<le> length stream
        \<and> (\<exists>b t. resp = r\<lparr>resp_body := concat (map snd cs), bytes_received := b, elapsed_ms := t\<rparr>)" by blast
  have "prefix ?answer stream" if "length ?block + 4 + length (encode_body cs []) \<le> length stream"
    using that assms(13) prefix_length_prefix [of ?answer "?answer @ extra" stream] by (simp add: chunked_answer_def)
  with run r show ?thesis by (intro exI [of _ res] exI [of _ e]) fastforce
qed

text \<open>
  C4. A chunked response is read: when a network delivers it in any pieces, at once or byte by byte, within
  the limits of size and without a total timeout, the request on a plain connection returns its status, its
  reason, its headers in order and its chunks put together.
\<close>

theorem chunked_exchange_round_trip:
  assumes "100 \<le> st" and "st \<le> 999" and "st \<noteq> 204" and "st \<noteq> 304" and "clean_text reason" and "CHR 0x0A \<notin> set reason"
    and "\<forall>h \<in> set hs. clean_header h"
    and "\<forall>h \<in> set hs. lower_ascii (fst h) \<noteq> ''content-length'' \<and> lower_ascii (fst h) \<noteq> ''transfer-encoding''"
    and "\<forall>p \<in> set cs. chunk_ok (2 ^ 63 - 1) p" and "\<not> head_request request" and "options_in_range opts"
    and "length (concat (map snd cs)) \<le> opt_max_response_bytes opts"
    and "length (encode_body cs []) \<le> opt_max_response_bytes opts + 1024 * 1024"
    and "length (chunked_answer st reason hs cs) + opt_buffer_size opts \<le> 1024 * 1024 + length (encode_body cs [])"
    and "agreeable (http_callbacks env)" and "opt_total_timeout_ms opts = 0"
    and "prompt_socket request (chunked_answer st reason hs cs) ks s" and "request \<noteq> []" and "length request < 2 ^ 31"
  shows "\<exists>r e. run_exchange env opts started request (new_exchange opts (Plain s) ticks l) = Some (Inr r, e)
    \<and> resp_status r = st \<and> resp_reason r = reason
    \<and> resp_headers r = map (\<lambda>(k, v). (lower_ascii k, v)) (hs @ [(''Transfer-Encoding'', ''chunked'')])
    \<and> resp_body r = concat (map snd cs)"
proof -
  let ?block = "head_block st reason hs (''Transfer-Encoding'', ''chunked'')"
  have "opt_max_response_bytes opts < 2 ^ 63" using assms(11) by (simp add: options_in_range_def)
  from chunked_answer_good [OF assms(1-9) this assms(10), of "[]"] obtain r where
    good: "chunked_good opts (head_request request) ?block (encode_body cs []) r (concat (map snd cs)) (length (encode_body cs []))"
    and r: "resp_status r = st" "resp_reason r = reason"
      "resp_headers r = map (\<lambda>(k, v). (lower_ascii k, v)) (hs @ [(''Transfer-Encoding'', ''chunked'')])" by blast
  have "length ?block + 4 + opt_buffer_size opts \<le> 1024 * 1024" using assms(14) by (simp add: chunked_answer_def)
  from chunked_open.delivered [OF good assms(15,12,13,16,11) this assms(17) [unfolded chunked_answer_def] assms(18,19)]
  obtain b t e where "run_exchange env opts started request (new_exchange opts (Plain s) ticks l) =
      Some (Inr (r\<lparr>resp_body := concat (map snd cs), bytes_received := b, elapsed_ms := t\<rparr>), e)" by blast
  then show ?thesis using r by simp
qed

section \<open>A response that is cut off\<close>

text \<open>The first 30 of the 40 bytes of a response in one TLS record; then the peer closes.\<close>

definition cut_connection :: "unit connection" where
  "cut_connection = Secure (demo_ssl (concat (map fst (map demo_record [take 30 demo_http_answer]))))"

definition cut_env :: "(unit, unit) http_env" where
  "cut_env = demo_http_env\<lparr>http_dial := demo_dial_env\<lparr>env_schannel := demo_sspi\<rparr>\<rparr>"

lemma cut_source: "source demo_sspi cut_connection (take 30 demo_http_answer)"
proof -
  have "list_all (\<lambda>pt. length pt < 256) [take 30 demo_http_answer]"
    "length (concat (map fst (map demo_record [take 30 demo_http_answer]))) \<le> read_buffer_size"
    by (simp_all add: demo_record_def read_buffer_size_def)
  from demo_in_sync [OF this] show ?thesis
    by (auto simp: source_def cut_connection_def plain_stream_def demo_ssl_def new_ssl_client_def demo_record_def
        intro!: exI [of _ "map demo_record [take 30 demo_http_answer]"])
qed

theorem exchange_never_garbled_witness:
  "\<exists>e st. run_exchange cut_env default_options 0 demo_http_request (new_exchange default_options cut_connection [] ())
     = Some (Inl e, st)"
proof -
  have api: "env_schannel (http_dial cut_env) = demo_sspi" by (simp add: cut_env_def)
  have "duplex demo_sspi" by (simp add: duplex_def demo_sspi_def)
  have texts: "clean_text ''OK''" "CHR 0x0A \<notin> set ''OK''" "(100 :: int) \<le> 200" "(200 :: int) \<le> 999" "(200 :: int) \<noteq> 204"
      "(200 :: int) \<noteq> 304" "length ''hi'' < 2 ^ 64" "\<forall>h \<in> set []. clean_header h"
      "\<forall>h \<in> set []. lower_ascii (fst h) \<noteq> ''content-length'' \<and> lower_ascii (fst h) \<noteq> ''transfer-encoding''"
    by (simp_all add: clean_text_def is_ows_def)
  have src: "source (env_schannel (http_dial cut_env)) cut_connection (take 30 demo_http_answer)"
    and dup: "secure cut_connection \<longrightarrow> duplex (env_schannel (http_dial cut_env))"
    using cut_source \<open>duplex demo_sspi\<close> unfolding api by simp_all
  have "prefix (take 30 demo_http_answer) (demo_http_answer @ [])" by (simp add: take_is_prefix)
  from exchange_never_garbled [OF demo_api_int texts(3-6,1,2,8,9) demo_answer_builds texts(7) demo_exchange_ready(4,2) src this dup,
      of 0 "[]" "()"] obtain res e where
    run: "run_exchange cut_env default_options 0 demo_http_request (new_exchange default_options cut_connection [] ()) = Some (res, e)"
      "\<And>resp. res = Inr resp \<Longrightarrow> prefix demo_http_answer (take 30 demo_http_answer)" by blast
  have "\<not> prefix demo_http_answer (take 30 demo_http_answer)"
    using prefix_length_le [of demo_http_answer "take 30 demo_http_answer"] demo_exchange_ready(7) by auto
  with run show ?thesis by (cases res) auto
qed

text \<open>The first 50 of the 61 bytes of a chunked response, then the peer closes a plain connection.\<close>

definition cut_chunks :: string where
  "cut_chunks = take 50 (chunked_answer 200 ''OK'' [] [('';x=1'', ''hi'')])"

theorem chunked_exchange_never_garbled_witness:
  "\<exists>e st. run_exchange cut_env default_options 0 demo_http_request
      (new_exchange default_options (Plain (demo_peer\<lparr>wire := cut_chunks\<rparr>)) [] ()) = Some (Inl e, st)"
proof -
  let ?answer = "chunked_answer 200 ''OK'' [] [('';x=1'', ''hi'')]" and ?conn = "Plain (demo_peer\<lparr>wire := cut_chunks\<rparr>)"
  have texts: "clean_text ''OK''" "CHR 0x0A \<notin> set ''OK''" "(100 :: int) \<le> 200" "(200 :: int) \<le> 999" "(200 :: int) \<noteq> 204"
      "(200 :: int) \<noteq> 304" "\<forall>h \<in> set []. clean_header h"
      "\<forall>h \<in> set []. lower_ascii (fst h) \<noteq> ''content-length'' \<and> lower_ascii (fst h) \<noteq> ''transfer-encoding''"
      "\<forall>p \<in> set [('';x=1'', ''hi'')]. chunk_ok (2 ^ 63 - 1) p"
    by (simp_all add: clean_text_def is_ows_def chunk_ok_def)
  have "\<not> recv_initiated demo_peer" using demo_prompt by (simp add: prompt_socket_def)
  then have src: "source (env_schannel (http_dial cut_env)) ?conn cut_chunks" by (simp add: source_def)
  have pre: "prefix cut_chunks (?answer @ [])" by (simp add: cut_chunks_def take_is_prefix)
  have plain: "secure ?conn \<longrightarrow> duplex (env_schannel (http_dial cut_env))" by (simp add: secure_def)
  from chunked_exchange_never_garbled [OF texts(3-6,1,2,7-9) demo_exchange_ready(4,2) src pre plain, of 0 "[]" "()"]
  obtain res e where
    run: "run_exchange cut_env default_options 0 demo_http_request (new_exchange default_options ?conn [] ()) = Some (res, e)"
      "\<And>resp. res = Inr resp \<Longrightarrow> prefix ?answer cut_chunks" by blast
  have "length ?answer = 61" by (simp add: chunked_answer_def head_block_def encode_body_def encode_chunk_def header_text_def crlf_def
      crlf2_def nat_str_def) code_simp
  then have "\<not> prefix ?answer cut_chunks" using prefix_length_le [of ?answer cut_chunks] by (auto simp: cut_chunks_def)
  with run show ?thesis by (cases res) auto
qed

section \<open>A chunked response that arrives\<close>

definition chunk_peer :: base_sock where
  "chunk_peer = demo_peer\<lparr>wire := chunked_answer 200 ''OK'' [] [('';x=1'', ''hi'')], recv_answers := map ready_io (replicate 70 7)\<rparr>"

theorem chunked_exchange_round_trip_witness:
  "\<exists>r e. run_exchange demo_http_env default_options 0 demo_http_request (new_exchange default_options (Plain chunk_peer) [] ())
      = Some (Inr r, e)
    \<and> resp_status r = 200 \<and> resp_reason r = ''OK''
    \<and> resp_headers r = map (\<lambda>(k, v). (lower_ascii k, v)) ([] @ [(''Transfer-Encoding'', ''chunked'')]) \<and> resp_body r = ''hi''"
proof -
  let ?cs = "[('';x=1'', ''hi'')]"
  have texts: "clean_text ''OK''" "CHR 0x0A \<notin> set ''OK''" "(100 :: int) \<le> 200" "(200 :: int) \<le> 999" "(200 :: int) \<noteq> 204"
      "(200 :: int) \<noteq> 304" "\<forall>h \<in> set []. clean_header h"
      "\<forall>h \<in> set []. lower_ascii (fst h) \<noteq> ''content-length'' \<and> lower_ascii (fst h) \<noteq> ''transfer-encoding''"
      "\<forall>p \<in> set ?cs. chunk_ok (2 ^ 63 - 1) p"
    by (simp_all add: clean_text_def is_ows_def chunk_ok_def)
  have len: "length (chunked_answer 200 ''OK'' [] ?cs) = 61" "length (encode_body ?cs []) = 14" by code_simp+
  then have sizes: "length (concat (map snd ?cs)) \<le> opt_max_response_bytes default_options"
      "length (encode_body ?cs []) \<le> opt_max_response_bytes default_options + 1024 * 1024"
      "length (chunked_answer 200 ''OK'' [] ?cs) + opt_buffer_size default_options \<le> 1024 * 1024 + length (encode_body ?cs [])"
    using demo_exchange_ready(8,9) by simp_all
  have "prompt_socket demo_http_request (chunked_answer 200 ''OK'' [] ?cs) (replicate 70 7) chunk_peer"
    using demo_prompt len(1) by (simp add: prompt_socket_def chunk_peer_def)
  from chunked_exchange_round_trip [OF texts(3-6,1,2,7-9) demo_exchange_ready(4,2) sizes demo_exchange_ready(1,3) this demo_exchange_ready(5,6),
      of 0 "[]" "()"] show ?thesis by simp
qed

end
